(* ===== verification/Prelude.thy ===== *)
theory Prelude
  imports Main "HOL-Library.Word"
begin

text \<open>
  Shared vocabulary of the development: faults and results, the doubly linked
  segments that the intrusive lists of the C code denote, and the generic
  facts the component theories rely on.

  A C function is a HOL function that takes the state and returns
  \<open>fault + ('a \<times> state)\<close>.  \<open>Inl\<close> is an execution that does not return normally:
  an access to memory that is not live, a call of \<open>abort\<close>, a division by zero, or a
  loop whose fuel ran out.  \<open>Inr\<close> carries the result and the new state.
\<close>

section \<open>Faults and results\<close>

datatype fault =
    Bad_access      \<comment> \<open>dereference of NULL, of a freed block or outside a block\<close>
  | Double_free     \<comment> \<open>\<open>talloc_abort_double_free\<close>\<close>
  | Unknown_value   \<comment> \<open>\<open>talloc_abort_unknown_value\<close>\<close>
  | Div_by_zero
  | Aborted         \<comment> \<open>a failed \<open>assert\<close>\<close>
  | Overflow        \<comment> \<open>a value that its C type cannot hold\<close>
  | Uninitialised   \<comment> \<open>a byte is used that was never written\<close>
  | Never_returns   \<comment> \<open>a call of the system that waits for ever\<close>
  | No_fuel         \<comment> \<open>the bound on loop iterations was too small\<close>

type_synonym 'a res = "fault + 'a"

definition bnd :: "'a res \<Rightarrow> ('a \<Rightarrow> 'b res) \<Rightarrow> 'b res" where
  "bnd m f = (case m of Inl e \<Rightarrow> Inl e | Inr x \<Rightarrow> f x)"

lemma bnd_Inl [simp]: "bnd (Inl e) f = Inl e"
  by (simp add: bnd_def)

lemma bnd_Inr [simp]: "bnd (Inr x) f = f x"
  by (simp add: bnd_def)

lemma bnd_eq_Inr: "bnd m f = Inr y \<longleftrightarrow> (\<exists>x. m = Inr x \<and> f x = Inr y)"
  by (cases m) simp_all

lemma bnd_assoc: "bnd (bnd m f) g = bnd m (\<lambda>x. bnd (f x) g)"
  by (cases m) simp_all

lemma bnd_cong [fundef_cong]:
  "m = m' \<Longrightarrow> (\<And>x. m' = Inr x \<Longrightarrow> f x = f' x) \<Longrightarrow> bnd m f = bnd m' f'"
  by (cases m') simp_all

text \<open>C integers used as truth values.\<close>

definition truth :: "int \<Rightarrow> bool" where
  "truth i \<longleftrightarrow> i \<noteq> 0"

definition of_truth :: "bool \<Rightarrow> int" where
  "of_truth b = (if b then 1 else 0)"

lemma truth_of_truth [simp]: "truth (of_truth b) = b"
  by (simp add: truth_def of_truth_def)

section \<open>Addresses and doubly linked segments\<close>

type_synonym addr = nat

abbreviation NULL :: addr where "NULL \<equiv> 0"

text \<open>Tests against the null pointer stay inequations.\<close>

declare neq0_conv [iff del]

text \<open>
  \<open>hdd xs r\<close> is the first node of \<open>xs\<close>, or \<open>r\<close> when there is none; \<open>lastd\<close> the
  last one.  \<open>dseg nx pv q xs r\<close>: the nodes \<open>xs\<close> are linked in both directions, the
  first one back to \<open>q\<close> and the last one on to \<open>r\<close>.
\<close>

fun hdd :: "'a list \<Rightarrow> 'a \<Rightarrow> 'a" where
  "hdd [] r = r"
| "hdd (x # xs) r = x"

fun lastd :: "'a list \<Rightarrow> 'a \<Rightarrow> 'a" where
  "lastd [] q = q"
| "lastd (x # xs) q = lastd xs x"

fun dseg :: "(addr \<Rightarrow> addr) \<Rightarrow> (addr \<Rightarrow> addr) \<Rightarrow> addr \<Rightarrow> addr list \<Rightarrow> addr \<Rightarrow> bool" where
  "dseg nx pv q [] r \<longleftrightarrow> True"
| "dseg nx pv q (x # xs) r \<longleftrightarrow>
     x \<noteq> NULL \<and> pv x = q \<and> nx x = hdd xs r \<and> dseg nx pv x xs r"

named_theorems dseg_simps \<open>rewriting of doubly linked segments\<close>

lemma hdd_append [simp]: "hdd (xs @ ys) r = hdd xs (hdd ys r)"
  by (cases xs) simp_all

lemma lastd_append [simp]: "lastd (xs @ ys) q = lastd ys (lastd xs q)"
  by (induction xs arbitrary: q) simp_all

lemma hdd_conv: "hdd xs r = (if xs = [] then r else hd xs)"
  by (cases xs) simp_all

lemma lastd_conv: "lastd xs q = (if xs = [] then q else last xs)"
  by (induction xs arbitrary: q) auto

lemma hdd_in: "xs \<noteq> [] \<Longrightarrow> hdd xs r \<in> set xs"
  by (cases xs) simp_all

lemma lastd_in: "xs \<noteq> [] \<Longrightarrow> lastd xs q \<in> set xs"
  by (simp add: lastd_conv)

lemma dseg_append [dseg_simps]:
  "dseg nx pv q (xs @ ys) r \<longleftrightarrow>
     dseg nx pv q xs (hdd ys r) \<and> dseg nx pv (lastd xs q) ys r"
  by (induction xs arbitrary: q) auto

lemma dseg_nonnull: "dseg nx pv q xs r \<Longrightarrow> NULL \<notin> set xs"
  by (induction xs arbitrary: q) auto

lemma dseg_hdd_NULL: "dseg nx pv q xs r \<Longrightarrow> hdd xs NULL = NULL \<longleftrightarrow> xs = []"
  by (cases xs) auto

lemma dseg_lastd_NULL: "dseg nx pv q xs r \<Longrightarrow> lastd xs NULL = NULL \<longleftrightarrow> xs = []"
  using dseg_nonnull [of nx pv q xs r] lastd_in [of xs NULL] by (metis lastd.simps(1))

lemma dseg_cong:
  "(\<And>a. a \<in> set xs \<Longrightarrow> nx a = nx' a) \<Longrightarrow> (\<And>a. a \<in> set xs \<Longrightarrow> pv a = pv' a) \<Longrightarrow>
   dseg nx pv q xs r = dseg nx' pv' q xs r"
  by (induction xs arbitrary: q) auto

lemma dseg_upd_nx [dseg_simps]:
  "a \<notin> set xs \<Longrightarrow> dseg (nx(a := v)) pv q xs r = dseg nx pv q xs r"
  by (rule dseg_cong) auto

lemma dseg_upd_pv [dseg_simps]:
  "a \<notin> set xs \<Longrightarrow> dseg nx (pv(a := v)) q xs r = dseg nx pv q xs r"
  by (rule dseg_cong) auto

text \<open>Relinking the two ends of a segment.\<close>

lemma dseg_relink_first:
  "dseg nx pv q xs r \<Longrightarrow> distinct xs \<Longrightarrow> xs \<noteq> [] \<Longrightarrow>
   dseg nx (pv(hdd xs NULL := q')) q' xs r"
  by (cases xs) (auto simp: dseg_simps)

lemma dseg_relink_last:
  "dseg nx pv q xs r \<Longrightarrow> distinct xs \<Longrightarrow> xs \<noteq> [] \<Longrightarrow>
   dseg (nx(lastd xs NULL := r')) pv q xs r'"
proof (induction xs arbitrary: q)
  case Nil
  then show ?case by simp
next
  case (Cons x xs)
  show ?case
  proof (cases "xs = []")
    case True
    with Cons.prems show ?thesis by simp
  next
    case False
    have last: "lastd (x # xs) NULL = lastd xs NULL" "lastd xs NULL \<in> set xs"
      using False by (simp_all add: lastd_conv)
    have "dseg (nx(lastd xs NULL := r')) pv x xs r'"
      using Cons.prems False by (intro Cons.IH) auto
    moreover have "x \<noteq> lastd xs NULL"
      using Cons.prems last by auto
    moreover have "hdd xs r' = hdd xs r"
      using False by (simp add: hdd_conv)
    ultimately show ?thesis
      using Cons.prems unfolding last(1) dseg.simps by simp
  qed
qed

text \<open>Unlinking a node from the middle of a segment, as \<open>_TLIST_REMOVE\<close> does.\<close>

definition unlink_nx :: "(addr \<Rightarrow> addr) \<Rightarrow> addr \<Rightarrow> addr \<Rightarrow> addr \<Rightarrow> addr" where
  "unlink_nx nx p n = (if p \<noteq> NULL then nx(p := n) else nx)"

lemma dseg_unlink:
  assumes "dseg nx pv NULL (xs @ x # ys) NULL" and "distinct (xs @ x # ys)"
  shows "dseg (unlink_nx nx (lastd xs NULL) (hdd ys NULL))
     (unlink_nx pv (hdd ys NULL) (lastd xs NULL)) NULL (xs @ ys) NULL"
proof -
  have xs: "dseg nx pv NULL xs x" and ys: "dseg nx pv x ys NULL"
    using assms(1) by (simp_all add: dseg_simps)
  have l0: "lastd xs NULL = NULL \<longleftrightarrow> xs = []" and h0: "hdd ys NULL = NULL \<longleftrightarrow> ys = []"
    using dseg_lastd_NULL [OF xs] dseg_hdd_NULL [OF ys] .
  have nx: "lastd xs NULL \<notin> set ys" if "xs \<noteq> []"
    using lastd_in [OF that, of NULL] assms(2) by auto
  have pv: "hdd ys NULL \<notin> set xs" if "ys \<noteq> []"
    using hdd_in [OF that, of NULL] assms(2) by auto
  show ?thesis
    using xs ys nx pv l0 h0 assms(2)
    by (auto simp: unlink_nx_def dseg_append dseg_upd_nx dseg_upd_pv
        intro: dseg_relink_first dseg_relink_last)
qed

text \<open>Linking a new first node.\<close>

lemma dseg_push:
  "dseg nx pv NULL xs NULL \<Longrightarrow> a \<notin> set xs \<Longrightarrow> distinct xs \<Longrightarrow> a \<noteq> NULL \<Longrightarrow>
   dseg (nx(a := hdd xs NULL)) ((unlink_nx pv (hdd xs NULL) a)(a := NULL)) NULL (a # xs) NULL"
  by (cases xs) (auto simp: unlink_nx_def dseg_simps)

section \<open>Generic facts\<close>

lemma finite_mono_bound:
  fixes S :: "nat set"
  assumes "finite S"
  shows "\<exists>n. \<forall>a\<in>S. a < n"
  using assms finite_nat_set_iff_bounded by blast

lemma map_upd_other [simp]: "a \<noteq> b \<Longrightarrow> (m(b \<mapsto> v)) a = m a"
  by simp

end
