(* ===== verification/Talloc_Heap.thy ===== *)
theory Talloc_Heap
  imports Prelude
begin

unbundle bit_operations_syntax

text \<open>
  The memory the allocator \<open>lib/talloc/talloc.c\<close> works on: chunk headers, reference
  handles, the bytes of the user areas and the two static context pointers; checked
  reads and writes; the list macros \<open>_TLIST_ADD\<close> and \<open>_TLIST_REMOVE\<close>, with their
  correctness proved once in the locale \<open>tlist\<close> and obtained for the child list and
  for the reference list by interpretation.
\<close>

section \<open>Constants and types\<close>

definition MAX_TALLOC_SIZE :: nat where "MAX_TALLOC_SIZE = 0x10000000"
definition TALLOC_MAGIC :: "32 word" where "TALLOC_MAGIC = 0xe814ec70"
definition TALLOC_FLAG_FREE :: "32 word" where "TALLOC_FLAG_FREE = 0x01"
definition TALLOC_FLAG_LOOP :: "32 word" where "TALLOC_FLAG_LOOP = 0x02"

text \<open>
  Destructors: the null pointer, the marker \<open>(talloc_destructor_t)-1\<close>, the two
  destructors of the library itself, and those of client code, by number.
\<close>

datatype talloc_destructor_t = DNull | DBusy | DRef | DAutofree | DUser nat

text \<open>
  The \<open>name\<close> pointer: null, \<open>TALLOC_MAGIC_REFERENCE\<close>, a string constant, or a pointer
  to a string that lives in a user area.
\<close>

datatype cname = NNull | NMagicRef | NConst string | NPtr addr

record talloc_reference_handle =
  h_next :: addr
  h_prev :: addr
  h_ptr :: addr

record talloc_chunk =
  tc_next :: addr
  tc_prev :: addr
  tc_parent :: addr
  tc_child :: addr
  tc_refs :: addr
  tc_destructor :: talloc_destructor_t
  tc_name :: cname
  tc_size :: nat
  tc_flags :: "32 word"

text \<open>
  \<open>chunks\<close> is keyed by the address of the header, \<open>handles\<close> and \<open>bytes\<close> by the
  address of the user area.  A byte that was never written is \<open>None\<close>.
\<close>

record tstate =
  chunks :: "addr \<rightharpoonup> talloc_chunk"
  handles :: "addr \<rightharpoonup> talloc_reference_handle"
  bytes :: "addr \<rightharpoonup> char option list"
  null_context :: addr
  autofree_context :: addr

text \<open>
  \<open>sizeof(struct talloc_chunk)\<close> is 72 where pointers and \<open>size_t\<close> have eight bytes:
  eight such fields, a four-byte \<open>flags\<close> and padding.
\<close>

definition sizeof_talloc_chunk :: nat where "sizeof_talloc_chunk = 72"
definition sizeof_reference_handle :: nat where "sizeof_reference_handle = 24"

definition TC_HDR_SIZE :: nat where
  "TC_HDR_SIZE = (sizeof_talloc_chunk + 15) div 16 * 16"

definition TC_PTR_FROM_CHUNK :: "addr \<Rightarrow> addr" where
  "TC_PTR_FROM_CHUNK tc = TC_HDR_SIZE + tc"

lemma TC_HDR_SIZE_eq: "TC_HDR_SIZE = 80"
  by (simp add: TC_HDR_SIZE_def sizeof_talloc_chunk_def)

lemma TC_PTR_FROM_CHUNK_inject [simp]: "TC_PTR_FROM_CHUNK a = TC_PTR_FROM_CHUNK b \<longleftrightarrow> a = b"
  by (simp add: TC_PTR_FROM_CHUNK_def)

lemma TC_PTR_FROM_CHUNK_nonnull [simp]:
  "TC_PTR_FROM_CHUNK a \<noteq> NULL" "NULL < TC_PTR_FROM_CHUNK a"
  by (simp_all add: TC_PTR_FROM_CHUNK_def TC_HDR_SIZE_eq)

lemma TC_PTR_FROM_CHUNK_diff [simp]: "TC_PTR_FROM_CHUNK a - TC_HDR_SIZE = a"
  by (simp add: TC_PTR_FROM_CHUNK_def)

section \<open>Checked access\<close>

definition rd :: "tstate \<Rightarrow> addr \<Rightarrow> talloc_chunk res" where
  "rd s a = (case chunks s a of None \<Rightarrow> Inl Bad_access | Some c \<Rightarrow> Inr c)"

definition upd :: "tstate \<Rightarrow> addr \<Rightarrow> (talloc_chunk \<Rightarrow> talloc_chunk) \<Rightarrow> tstate res" where
  "upd s a f = (case chunks s a of None \<Rightarrow> Inl Bad_access
     | Some c \<Rightarrow> Inr (s\<lparr>chunks := (chunks s)(a \<mapsto> f c)\<rparr>))"

definition rdh :: "tstate \<Rightarrow> addr \<Rightarrow> talloc_reference_handle res" where
  "rdh s h = (case handles s h of None \<Rightarrow> Inl Bad_access | Some r \<Rightarrow> Inr r)"

definition updh ::
    "tstate \<Rightarrow> addr \<Rightarrow> (talloc_reference_handle \<Rightarrow> talloc_reference_handle) \<Rightarrow> tstate res" where
  "updh s h f = (case handles s h of None \<Rightarrow> Inl Bad_access
     | Some r \<Rightarrow> Inr (s\<lparr>handles := (handles s)(h \<mapsto> f r)\<rparr>))"

text \<open>\<open>live s a\<close>: a header is allocated at \<open>a\<close>; \<open>fld\<close> reads one field of it.\<close>

definition live :: "tstate \<Rightarrow> addr \<Rightarrow> bool" where
  "live s a \<longleftrightarrow> chunks s a \<noteq> None"

definition fld :: "(talloc_chunk \<Rightarrow> 'a) \<Rightarrow> 'a \<Rightarrow> tstate \<Rightarrow> addr \<Rightarrow> 'a" where
  "fld f d s a = (case chunks s a of None \<Rightarrow> d | Some c \<Rightarrow> f c)"

definition hlive :: "tstate \<Rightarrow> addr \<Rightarrow> bool" where
  "hlive s h \<longleftrightarrow> handles s h \<noteq> None"

definition hfld :: "(talloc_reference_handle \<Rightarrow> addr) \<Rightarrow> tstate \<Rightarrow> addr \<Rightarrow> addr" where
  "hfld f s h = (case handles s h of None \<Rightarrow> NULL | Some r \<Rightarrow> f r)"

abbreviation nxt :: "tstate \<Rightarrow> addr \<Rightarrow> addr" where "nxt \<equiv> fld tc_next NULL"
abbreviation prv :: "tstate \<Rightarrow> addr \<Rightarrow> addr" where "prv \<equiv> fld tc_prev NULL"
abbreviation par :: "tstate \<Rightarrow> addr \<Rightarrow> addr" where "par \<equiv> fld tc_parent NULL"
abbreviation chd :: "tstate \<Rightarrow> addr \<Rightarrow> addr" where "chd \<equiv> fld tc_child NULL"
abbreviation rfs :: "tstate \<Rightarrow> addr \<Rightarrow> addr" where "rfs \<equiv> fld tc_refs NULL"

text \<open>
  What the list operations leave alone: the state with the link fields of one list
  blanked out.
\<close>

definition strip_child :: "addr \<Rightarrow> tstate \<Rightarrow> tstate" where
  "strip_child p s = s\<lparr>chunks := (\<lambda>a. map_option (\<lambda>c. c\<lparr>tc_next := NULL, tc_prev := NULL,
     tc_child := (if a = p then NULL else tc_child c)\<rparr>) (chunks s a))\<rparr>"

definition strip_refs :: "addr \<Rightarrow> tstate \<Rightarrow> tstate" where
  "strip_refs p s = s\<lparr>
     chunks := (\<lambda>a. map_option (\<lambda>c. c\<lparr>tc_refs := (if a = p then NULL else tc_refs c)\<rparr>) (chunks s a)),
     handles := (\<lambda>h. map_option (\<lambda>r. r\<lparr>h_next := NULL, h_prev := NULL\<rparr>) (handles s h))\<rparr>"

named_theorems acc \<open>unfolding of the checked accesses\<close>

lemmas acc_defs [acc] = rd_def upd_def rdh_def updh_def live_def fld_def hlive_def hfld_def

section \<open>The list macros\<close>

text \<open>
  The macros take an lvalue \<open>list\<close> and a node; they are generic in the C type of the
  node.  Here the lvalue and the fields \<open>next\<close> and \<open>prev\<close> are given by their readers
  and writers.
\<close>

record tlist_ops =
  get_list :: "tstate \<Rightarrow> addr res"
  set_list :: "tstate \<Rightarrow> addr \<Rightarrow> tstate res"
  get_next :: "tstate \<Rightarrow> addr \<Rightarrow> addr res"
  set_next :: "tstate \<Rightarrow> addr \<Rightarrow> addr \<Rightarrow> tstate res"
  get_prev :: "tstate \<Rightarrow> addr \<Rightarrow> addr res"
  set_prev :: "tstate \<Rightarrow> addr \<Rightarrow> addr \<Rightarrow> tstate res"

definition TLIST_ADD :: "tlist_ops \<Rightarrow> tstate \<Rightarrow> addr \<Rightarrow> tstate res" where
  "TLIST_ADD L s p =
     bnd (get_list L s) (\<lambda>l.
     if l = NULL then
       bnd (set_list L s p) (\<lambda>s.
       bnd (set_prev L s p NULL) (\<lambda>s.
       set_next L s p NULL))
     else
       bnd (set_prev L s l p) (\<lambda>s.
       bnd (set_next L s p l) (\<lambda>s.
       bnd (set_prev L s p NULL) (\<lambda>s.
       set_list L s p))))"

definition TLIST_REMOVE :: "tlist_ops \<Rightarrow> tstate \<Rightarrow> addr \<Rightarrow> tstate res" where
  "TLIST_REMOVE L s p =
     bnd (get_list L s) (\<lambda>l.
     bnd (if p = l then
            bnd (get_next L s p) (\<lambda>n.
            bnd (set_list L s n) (\<lambda>s.
            if n \<noteq> NULL then set_prev L s n NULL else Inr s))
          else
            bnd (get_prev L s p) (\<lambda>q.
            bnd (get_next L s p) (\<lambda>n.
            bnd (if q \<noteq> NULL then set_next L s q n else Inr s) (\<lambda>s.
            if n \<noteq> NULL then set_prev L s n q else Inr s)))) (\<lambda>s.
     bnd (get_list L s) (\<lambda>l.
     if p \<noteq> NULL \<and> p \<noteq> l then
       bnd (set_prev L s p NULL) (\<lambda>s. set_next L s p NULL)
     else Inr s)))"

text \<open>The lvalue \<open>p->child\<close> with the chunks as nodes, and \<open>p->refs\<close> with the handles.\<close>

definition child_ops :: "addr \<Rightarrow> tlist_ops" where
  "child_ops p = \<lparr>
     get_list = (\<lambda>s. bnd (rd s p) (\<lambda>c. Inr (tc_child c))),
     set_list = (\<lambda>s v. upd s p (\<lambda>c. c\<lparr>tc_child := v\<rparr>)),
     get_next = (\<lambda>s a. bnd (rd s a) (\<lambda>c. Inr (tc_next c))),
     set_next = (\<lambda>s a v. upd s a (\<lambda>c. c\<lparr>tc_next := v\<rparr>)),
     get_prev = (\<lambda>s a. bnd (rd s a) (\<lambda>c. Inr (tc_prev c))),
     set_prev = (\<lambda>s a v. upd s a (\<lambda>c. c\<lparr>tc_prev := v\<rparr>))\<rparr>"

definition refs_ops :: "addr \<Rightarrow> tlist_ops" where
  "refs_ops p = \<lparr>
     get_list = (\<lambda>s. bnd (rd s p) (\<lambda>c. Inr (tc_refs c))),
     set_list = (\<lambda>s v. upd s p (\<lambda>c. c\<lparr>tc_refs := v\<rparr>)),
     get_next = (\<lambda>s h. bnd (rdh s h) (\<lambda>r. Inr (h_next r))),
     set_next = (\<lambda>s h v. updh s h (\<lambda>r. r\<lparr>h_next := v\<rparr>)),
     get_prev = (\<lambda>s h. bnd (rdh s h) (\<lambda>r. Inr (h_prev r))),
     set_prev = (\<lambda>s h v. updh s h (\<lambda>r. r\<lparr>h_prev := v\<rparr>))\<rparr>"

section \<open>The contract of the list macros\<close>

text \<open>
  What the macros rely on: the node fields and the list head can be read and written
  where they are live, a write changes that field only, and the \<open>rest\<close> of the state
  is not touched.
\<close>

locale tlist =
  fixes L :: tlist_ops
    and ok :: "tstate \<Rightarrow> bool"
    and node :: "tstate \<Rightarrow> addr \<Rightarrow> bool"
    and hdp :: "tstate \<Rightarrow> addr"
    and nx :: "tstate \<Rightarrow> addr \<Rightarrow> addr"
    and pv :: "tstate \<Rightarrow> addr \<Rightarrow> addr"
    and rest :: "tstate \<Rightarrow> tstate"
  assumes get_list: "ok s \<Longrightarrow> get_list L s = Inr (hdp s)"
    and get_next: "node s a \<Longrightarrow> get_next L s a = Inr (nx s a)"
    and get_prev: "node s a \<Longrightarrow> get_prev L s a = Inr (pv s a)"
    and set_list: "ok s \<Longrightarrow> \<exists>s'. set_list L s v = Inr s' \<and> hdp s' = v \<and> nx s' = nx s \<and>
      pv s' = pv s \<and> ok s' \<and> node s' = node s \<and> rest s' = rest s"
    and set_next: "node s a \<Longrightarrow> \<exists>s'. set_next L s a v = Inr s' \<and> hdp s' = hdp s \<and>
      nx s' = (nx s)(a := v) \<and> pv s' = pv s \<and> ok s' = ok s \<and> node s' = node s \<and> rest s' = rest s"
    and set_prev: "node s a \<Longrightarrow> \<exists>s'. set_prev L s a v = Inr s' \<and> hdp s' = hdp s \<and>
      nx s' = nx s \<and> pv s' = (pv s)(a := v) \<and> ok s' = ok s \<and> node s' = node s \<and> rest s' = rest s"
begin

text \<open>The list that hangs off the head: its nodes, in order.\<close>

definition lst :: "tstate \<Rightarrow> addr list \<Rightarrow> bool" where
  "lst s xs \<longleftrightarrow> ok s \<and> hdp s = hdd xs NULL \<and> dseg (nx s) (pv s) NULL xs NULL \<and>
     distinct xs \<and> (\<forall>x\<in>set xs. node s x)"

text \<open>How two states agree outside the list with the nodes \<open>A\<close>.\<close>

definition frame :: "addr set \<Rightarrow> tstate \<Rightarrow> tstate \<Rightarrow> bool" where
  "frame A s s' \<longleftrightarrow> rest s' = rest s \<and> node s' = node s \<and>
     (\<forall>a. a \<notin> A \<longrightarrow> nx s' a = nx s a \<and> pv s' a = pv s a)"

lemma TLIST_ADD_correct:
  assumes "lst s xs" and "node s p" and "p \<notin> set xs" and "p \<noteq> NULL"
  shows "\<exists>s'. TLIST_ADD L s p = Inr s' \<and> lst s' (p # xs) \<and> frame (insert p (set xs)) s s'"
proof (cases xs)
  case Nil
  have ok: "ok s" and h: "hdp s = NULL"
    using assms(1) Nil by (simp_all add: lst_def)
  obtain s1 where s1: "set_list L s p = Inr s1" "hdp s1 = p" "nx s1 = nx s" "pv s1 = pv s"
      "ok s1" "node s1 = node s" "rest s1 = rest s"
    using set_list [OF ok] by blast
  obtain s2 where s2: "set_prev L s1 p NULL = Inr s2" "hdp s2 = p" "nx s2 = nx s"
      "pv s2 = (pv s)(p := NULL)" "ok s2" "node s2 = node s" "rest s2 = rest s"
    using set_prev [of s1 p NULL] s1 assms(2) by auto
  obtain s3 where s3: "set_next L s2 p NULL = Inr s3" "hdp s3 = p" "nx s3 = (nx s)(p := NULL)"
      "pv s3 = (pv s)(p := NULL)" "ok s3" "node s3 = node s" "rest s3 = rest s"
    using set_next [of s2 p NULL] s2 assms(2) by auto
  show ?thesis
    using s3 assms(2,4) Nil
    by (intro exI [of _ s3]) (simp add: TLIST_ADD_def get_list [OF ok] h s1(1) s2(1) lst_def frame_def)
next
  case (Cons l ys)
  have ok: "ok s" and h: "hdp s = l" and l: "node s l" "l \<noteq> NULL" "l \<noteq> p" "l \<notin> set ys"
    and dl: "dseg (nx s) (pv s) NULL (l # ys) NULL"
    using assms Cons by (auto simp: lst_def)
  obtain s1 where s1: "set_prev L s l p = Inr s1" "hdp s1 = l" "nx s1 = nx s"
      "pv s1 = (pv s)(l := p)" "ok s1" "node s1 = node s" "rest s1 = rest s"
    using set_prev [OF l(1), of p] ok h by auto
  obtain s2 where s2: "set_next L s1 p l = Inr s2" "hdp s2 = l" "nx s2 = (nx s)(p := l)"
      "pv s2 = (pv s)(l := p)" "ok s2" "node s2 = node s" "rest s2 = rest s"
    using set_next [of s1 p l] s1 assms(2) by auto
  obtain s3 where s3: "set_prev L s2 p NULL = Inr s3" "hdp s3 = l" "nx s3 = (nx s)(p := l)"
      "pv s3 = (pv s)(l := p, p := NULL)" "ok s3" "node s3 = node s" "rest s3 = rest s"
    using set_prev [of s2 p NULL] s2 assms(2) by auto
  obtain s4 where s4: "set_list L s3 p = Inr s4" "hdp s4 = p" "nx s4 = (nx s)(p := l)"
      "pv s4 = (pv s)(l := p, p := NULL)" "ok s4" "node s4 = node s" "rest s4 = rest s"
    using set_list [of s3 p] s3 by auto
  have d: "dseg ((nx s)(p := l)) ((pv s)(l := p, p := NULL)) NULL (p # l # ys) NULL"
    using dl l assms(3,4) Cons by (simp add: dseg_simps)
  show ?thesis
    using s4 d assms Cons l
    by (intro exI [of _ s4])
      (auto simp: TLIST_ADD_def get_list [OF ok] h s1(1) s2(1) s3(1) lst_def frame_def)
qed

text \<open>The last step of \<open>_TLIST_REMOVE\<close>: the removed node's own links are cleared.\<close>

lemma clear_node:
  assumes "node s p"
  shows "\<exists>s'. bnd (set_prev L s p NULL) (\<lambda>s. set_next L s p NULL) = Inr s' \<and> hdp s' = hdp s \<and>
    nx s' = (nx s)(p := NULL) \<and> pv s' = (pv s)(p := NULL) \<and> ok s' = ok s \<and> node s' = node s \<and>
    rest s' = rest s"
proof -
  obtain s1 where s1: "set_prev L s p NULL = Inr s1" "hdp s1 = hdp s" "nx s1 = nx s"
      "pv s1 = (pv s)(p := NULL)" "ok s1 = ok s" "node s1 = node s" "rest s1 = rest s"
    using set_prev [OF assms] by blast
  then show ?thesis
    using set_next [of s1 p NULL] assms by auto
qed

text \<open>The first step: the neighbours are linked to each other.\<close>

lemma unlink_node:
  assumes "lst s (xs @ p # ys)"
  shows "\<exists>s'. (if p = hdp s then
            bnd (get_next L s p) (\<lambda>n.
            bnd (set_list L s n) (\<lambda>s.
            if n \<noteq> NULL then set_prev L s n NULL else Inr s))
          else
            bnd (get_prev L s p) (\<lambda>q.
            bnd (get_next L s p) (\<lambda>n.
            bnd (if q \<noteq> NULL then set_next L s q n else Inr s) (\<lambda>s.
            if n \<noteq> NULL then set_prev L s n q else Inr s)))) = Inr s' \<and>
      hdp s' = hdd (xs @ ys) NULL \<and> ok s' \<and> node s' = node s \<and> rest s' = rest s \<and>
      nx s' = unlink_nx (nx s) (lastd xs NULL) (hdd ys NULL) \<and>
      pv s' = unlink_nx (pv s) (hdd ys NULL) (lastd xs NULL)"
proof (cases xs)
  case Nil
  have ok: "ok s" and p: "node s p" "hdp s = p" and n: "nx s p = hdd ys NULL"
    and y: "ys \<noteq> [] \<Longrightarrow> node s (hdd ys NULL)"
    using assms Nil hdd_in [of ys NULL] by (auto simp: lst_def)
  obtain s1 where s1: "set_list L s (hdd ys NULL) = Inr s1" "hdp s1 = hdd ys NULL" "nx s1 = nx s"
      "pv s1 = pv s" "ok s1" "node s1 = node s" "rest s1 = rest s"
    using set_list [OF ok] by blast
  then show ?thesis
    using p n y set_prev [of s1 "hdd ys NULL" NULL] Nil
    by (cases "hdd ys NULL = NULL") (auto simp: get_next unlink_nx_def hdd_conv split: if_splits)
next
  case (Cons l zs)
  have ok: "ok s" and p: "node s p" "hdp s = l" "p \<noteq> l" and n: "nx s p = hdd ys NULL"
    and q: "pv s p = lastd xs NULL" "lastd xs NULL \<noteq> NULL" "node s (lastd xs NULL)"
    and y: "ys \<noteq> [] \<Longrightarrow> node s (hdd ys NULL)"
    using assms Cons hdd_in [of ys NULL] lastd_in [of xs NULL]
      dseg_lastd_NULL [of "nx s" "pv s" NULL xs p]
    by (auto simp: lst_def dseg_simps)
  obtain s1 where s1: "set_next L s (lastd xs NULL) (hdd ys NULL) = Inr s1" "hdp s1 = l"
      "nx s1 = (nx s)(lastd xs NULL := hdd ys NULL)" "pv s1 = pv s" "ok s1" "node s1 = node s"
      "rest s1 = rest s"
    using set_next [OF q(3)] ok p by auto
  then show ?thesis
    using p n q y set_prev [of s1 "hdd ys NULL" "lastd xs NULL"] Cons
    by (cases "hdd ys NULL = NULL")
      (auto simp: get_next get_prev unlink_nx_def hdd_conv split: if_splits)
qed

lemma TLIST_REMOVE_correct:
  assumes "lst s (xs @ p # ys)"
  shows "\<exists>s'. TLIST_REMOVE L s p = Inr s' \<and> lst s' (xs @ ys) \<and> nx s' p = NULL \<and> pv s' p = NULL \<and>
    frame (set (xs @ p # ys)) s s'"
proof -
  have ok: "ok s" and d: "dseg (nx s) (pv s) NULL (xs @ p # ys) NULL" "distinct (xs @ p # ys)"
    and p: "node s p" "p \<noteq> NULL"
    using assms by (auto simp: lst_def dseg_simps)
  obtain s1 where s1: "(if p = hdp s then
            bnd (get_next L s p) (\<lambda>n.
            bnd (set_list L s n) (\<lambda>s.
            if n \<noteq> NULL then set_prev L s n NULL else Inr s))
          else
            bnd (get_prev L s p) (\<lambda>q.
            bnd (get_next L s p) (\<lambda>n.
            bnd (if q \<noteq> NULL then set_next L s q n else Inr s) (\<lambda>s.
            if n \<noteq> NULL then set_prev L s n q else Inr s)))) = Inr s1"
      "hdp s1 = hdd (xs @ ys) NULL" "ok s1" "node s1 = node s" "rest s1 = rest s"
      "nx s1 = unlink_nx (nx s) (lastd xs NULL) (hdd ys NULL)"
      "pv s1 = unlink_nx (pv s) (hdd ys NULL) (lastd xs NULL)"
    using unlink_node [OF assms] by blast
  have d1: "dseg (nx s1) (pv s1) NULL (xs @ ys) NULL"
    unfolding s1(6,7) by (rule dseg_unlink [OF d])
  obtain s2 where s2: "bnd (set_prev L s1 p NULL) (\<lambda>s. set_next L s p NULL) = Inr s2"
      "hdp s2 = hdp s1" "nx s2 = (nx s1)(p := NULL)" "pv s2 = (pv s1)(p := NULL)" "ok s2 = ok s1"
      "node s2 = node s1" "rest s2 = rest s1"
    using clear_node [of s1 p] p s1 by auto
  have "p \<noteq> hdd (xs @ ys) NULL"
    using d(2) p hdd_in [of "xs @ ys" NULL] by (cases "xs @ ys = []") auto
  then have "TLIST_REMOVE L s p = Inr s2"
    using p s2(1) by (simp add: TLIST_REMOVE_def get_list [OF ok] s1(1) get_list [OF s1(3)] s1(2))
  moreover have "lst s2 (xs @ ys)"
    using d1 d(2) s1 s2 assms by (auto simp: lst_def dseg_simps)
  moreover have "frame (set (xs @ p # ys)) s s2"
    using s1 s2 lastd_in [of xs NULL] hdd_in [of ys NULL]
    by (auto simp: frame_def unlink_nx_def lastd_conv hdd_conv split: if_splits)
  ultimately show ?thesis
    using s2 by (intro exI [of _ s2]) simp
qed

end

text \<open>Both lists of the allocator keep the contract.\<close>

interpretation child: tlist "child_ops p" "\<lambda>s. live s p" live "\<lambda>s. chd s p" nxt prv "strip_child p" for p
  by unfold_locales
    (auto simp: child_ops_def acc strip_child_def fun_eq_iff split: option.splits)

interpretation refs: tlist "refs_ops p" "\<lambda>s. live s p" hlive "\<lambda>s. rfs s p" "hfld h_next" "hfld h_prev"
    "strip_refs p" for p
  by unfold_locales
    (auto simp: refs_ops_def acc strip_refs_def fun_eq_iff split: option.splits)

end
