(* ===== verification/Talloc_Core.thy ===== *)
theory Talloc_Core
  imports Talloc_Heap
begin

unbundle bit_operations_syntax

text \<open>
  The operations of \<open>lib/talloc/talloc.c\<close> that build, move and destroy the tree of
  chunks: allocation, names, references, \<open>free\<close>, \<open>steal\<close>, \<open>unlink\<close>, \<open>realloc\<close>, and
  the walks towards the root.  A leading underscore of a C name is written \<open>u_\<close>.

  \<open>malloc\<close>, \<open>realloc\<close> and the destructors of client code are not part of the sources:
  they are the fields of the parameter \<open>libc\<close>.  Loops over links carry fuel; the
  lemmas of the other theories say how much is enough.
\<close>

section \<open>The environment\<close>

record libc =
  malloc :: "tstate \<Rightarrow> nat \<Rightarrow> addr"
  realloc :: "tstate \<Rightarrow> addr \<Rightarrow> nat \<Rightarrow> addr"
  user_dtor :: "nat \<Rightarrow> addr \<Rightarrow> tstate \<Rightarrow> (int \<times> tstate) res"

text \<open>What the C standard says of the two: a null pointer, or a block that is not in use.\<close>

definition malloc_ok :: "libc \<Rightarrow> bool" where
  "malloc_ok E \<longleftrightarrow> (\<forall>s n. malloc E s n = NULL \<or> \<not> live s (malloc E s n))"

definition realloc_ok :: "libc \<Rightarrow> bool" where
  "realloc_ok E \<longleftrightarrow> (\<forall>s a n. realloc E s a n \<in> {NULL, a} \<or> \<not> live s (realloc E s a n))"

section \<open>Pointers to chunks, and the way up\<close>

definition talloc_chunk_from_ptr :: "tstate \<Rightarrow> addr \<Rightarrow> addr res" where
  "talloc_chunk_from_ptr s ptr =
     (let tc = ptr - TC_HDR_SIZE in
      bnd (rd s tc) (\<lambda>c.
      if tc_flags c AND (TALLOC_FLAG_FREE OR NOT 0xF) \<noteq> TALLOC_MAGIC then
        if tc_flags c AND TALLOC_FLAG_FREE \<noteq> 0 then Inl Double_free else Inl Unknown_value
      else Inr tc))"

text \<open>\<open>while (tc->prev) tc=tc->prev;\<close>\<close>

fun first_sibling :: "nat \<Rightarrow> tstate \<Rightarrow> addr \<Rightarrow> addr res" where
  "first_sibling 0 s tc = Inl No_fuel"
| "first_sibling (Suc n) s tc =
     bnd (rd s tc) (\<lambda>c. if tc_prev c \<noteq> NULL then first_sibling n s (tc_prev c) else Inr tc)"

definition talloc_parent_chunk :: "nat \<Rightarrow> tstate \<Rightarrow> addr \<Rightarrow> addr res" where
  "talloc_parent_chunk n s ptr =
     (if ptr = NULL then Inr NULL
      else bnd (talloc_chunk_from_ptr s ptr) (\<lambda>tc.
           bnd (first_sibling n s tc) (\<lambda>tc.
           bnd (rd s tc) (\<lambda>c. Inr (tc_parent c)))))"

definition talloc_parent :: "nat \<Rightarrow> tstate \<Rightarrow> addr \<Rightarrow> addr res" where
  "talloc_parent n s ptr =
     bnd (talloc_parent_chunk n s ptr) (\<lambda>tc.
     Inr (if tc \<noteq> NULL then TC_PTR_FROM_CHUNK tc else NULL))"

definition talloc_parent_name :: "nat \<Rightarrow> tstate \<Rightarrow> addr \<Rightarrow> cname res" where
  "talloc_parent_name n s ptr =
     bnd (talloc_parent_chunk n s ptr) (\<lambda>tc.
     if tc \<noteq> NULL then bnd (rd s tc) (\<lambda>c. Inr (tc_name c)) else Inr NNull)"

text \<open>The loop shared by \<open>talloc_is_parent\<close>: up the tree until \<open>ptr\<close> or the root.\<close>

fun is_parent_loop :: "nat \<Rightarrow> tstate \<Rightarrow> addr \<Rightarrow> addr \<Rightarrow> int res" where
  "is_parent_loop 0 s tc ptr = Inl No_fuel"
| "is_parent_loop (Suc n) s tc ptr =
     (if tc = NULL then Inr 0
      else if TC_PTR_FROM_CHUNK tc = ptr then Inr 1
      else bnd (first_sibling n s tc) (\<lambda>t.
           bnd (rd s t) (\<lambda>c. is_parent_loop n s (tc_parent c) ptr)))"

definition talloc_is_parent :: "nat \<Rightarrow> tstate \<Rightarrow> addr \<Rightarrow> addr \<Rightarrow> int res" where
  "talloc_is_parent n s context ptr =
     (if context = NULL then Inr 0
      else bnd (talloc_chunk_from_ptr s context) (\<lambda>tc. is_parent_loop n s tc ptr))"

section \<open>Allocation\<close>

definition new_chunk :: "nat \<Rightarrow> talloc_chunk" where
  "new_chunk n = \<lparr>tc_next = NULL, tc_prev = NULL, tc_parent = NULL, tc_child = NULL,
     tc_refs = NULL, tc_destructor = DNull, tc_name = NNull, tc_size = n,
     tc_flags = TALLOC_MAGIC\<rparr>"

text \<open>The header and the user area of a block that \<open>malloc\<close> returned.\<close>

definition init_block :: "tstate \<Rightarrow> addr \<Rightarrow> nat \<Rightarrow> tstate" where
  "init_block s tc n = s\<lparr>chunks := (chunks s)(tc \<mapsto> new_chunk n),
     bytes := (bytes s)(TC_PTR_FROM_CHUNK tc \<mapsto> replicate n None),
     handles := (handles s)(TC_PTR_FROM_CHUNK tc := None)\<rparr>"

definition uu_talloc :: "libc \<Rightarrow> tstate \<Rightarrow> addr \<Rightarrow> nat \<Rightarrow> (addr \<times> tstate) res" where
  "uu_talloc E s context n =
     (let context = (if context = NULL then null_context s else context) in
      if n \<ge> MAX_TALLOC_SIZE then Inr (NULL, s)
      else let tc = malloc E s (TC_HDR_SIZE + n) in
      if tc = NULL then Inr (NULL, s)
      else let s = init_block s tc n in
      if context \<noteq> NULL then
        bnd (talloc_chunk_from_ptr s context) (\<lambda>parent.
        bnd (rd s parent) (\<lambda>p.
        bnd (if tc_child p \<noteq> NULL then
               bnd (upd s (tc_child p) (\<lambda>c. c\<lparr>tc_parent := NULL\<rparr>)) (\<lambda>s.
               bnd (upd s tc (\<lambda>c. c\<lparr>tc_next := tc_child p\<rparr>)) (\<lambda>s.
               upd s (tc_child p) (\<lambda>c. c\<lparr>tc_prev := tc\<rparr>)))
             else upd s tc (\<lambda>c. c\<lparr>tc_next := NULL\<rparr>)) (\<lambda>s.
        bnd (upd s tc (\<lambda>c. c\<lparr>tc_parent := parent, tc_prev := NULL\<rparr>)) (\<lambda>s.
        bnd (upd s parent (\<lambda>c. c\<lparr>tc_child := tc\<rparr>)) (\<lambda>s.
        Inr (TC_PTR_FROM_CHUNK tc, s))))))
      else
        bnd (upd s tc (\<lambda>c. c\<lparr>tc_parent := NULL, tc_prev := NULL, tc_next := NULL\<rparr>)) (\<lambda>s.
        Inr (TC_PTR_FROM_CHUNK tc, s)))"

definition u_talloc :: "libc \<Rightarrow> tstate \<Rightarrow> addr \<Rightarrow> nat \<Rightarrow> (addr \<times> tstate) res" where
  "u_talloc E s context n = uu_talloc E s context n"

definition u_talloc_set_destructor :: "tstate \<Rightarrow> addr \<Rightarrow> talloc_destructor_t \<Rightarrow> tstate res" where
  "u_talloc_set_destructor s ptr d =
     bnd (talloc_chunk_from_ptr s ptr) (\<lambda>tc. upd s tc (\<lambda>c. c\<lparr>tc_destructor := d\<rparr>))"

definition u_talloc_set_name_const :: "tstate \<Rightarrow> addr \<Rightarrow> cname \<Rightarrow> tstate res" where
  "u_talloc_set_name_const s ptr nm =
     bnd (talloc_chunk_from_ptr s ptr) (\<lambda>tc. upd s tc (\<lambda>c. c\<lparr>tc_name := nm\<rparr>))"

definition talloc_set_name_const :: "tstate \<Rightarrow> addr \<Rightarrow> cname \<Rightarrow> tstate res" where
  "talloc_set_name_const s ptr nm = u_talloc_set_name_const s ptr nm"

definition u_talloc_named_const :: "libc \<Rightarrow> tstate \<Rightarrow> addr \<Rightarrow> nat \<Rightarrow> cname \<Rightarrow> (addr \<times> tstate) res" where
  "u_talloc_named_const E s context n nm =
     bnd (uu_talloc E s context n) (\<lambda>(ptr, s).
     if ptr = NULL then Inr (NULL, s)
     else bnd (u_talloc_set_name_const s ptr nm) (\<lambda>s. Inr (ptr, s)))"

definition talloc_named_const :: "libc \<Rightarrow> tstate \<Rightarrow> addr \<Rightarrow> nat \<Rightarrow> cname \<Rightarrow> (addr \<times> tstate) res" where
  "talloc_named_const E s context n nm = u_talloc_named_const E s context n nm"

section \<open>References\<close>

definition talloc_reference_destructor :: "tstate \<Rightarrow> addr \<Rightarrow> (int \<times> tstate) res" where
  "talloc_reference_destructor s handle =
     bnd (rdh s handle) (\<lambda>r.
     bnd (talloc_chunk_from_ptr s (h_ptr r)) (\<lambda>ptr_tc.
     bnd (TLIST_REMOVE (refs_ops ptr_tc) s handle) (\<lambda>s. Inr (0, s))))"

definition u_talloc_reference :: "libc \<Rightarrow> tstate \<Rightarrow> addr \<Rightarrow> addr \<Rightarrow> (addr \<times> tstate) res" where
  "u_talloc_reference E s context ptr =
     (if ptr = NULL then Inr (NULL, s) else
      bnd (talloc_chunk_from_ptr s ptr) (\<lambda>tc.
      bnd (u_talloc_named_const E s context sizeof_reference_handle NMagicRef) (\<lambda>(handle, s).
      if handle = NULL then Inr (NULL, s) else
      bnd (u_talloc_set_destructor s handle DRef) (\<lambda>s.
      let s = s\<lparr>handles := (handles s)(handle \<mapsto> \<lparr>h_next = NULL, h_prev = NULL, h_ptr = ptr\<rparr>)\<rparr> in
      bnd (TLIST_ADD (refs_ops tc) s handle) (\<lambda>s.
      bnd (rdh s handle) (\<lambda>r. Inr (h_ptr r, s)))))))"

definition talloc_increase_ref_count :: "libc \<Rightarrow> tstate \<Rightarrow> addr \<Rightarrow> (int \<times> tstate) res" where
  "talloc_increase_ref_count E s ptr =
     bnd (u_talloc_reference E s (null_context s) ptr) (\<lambda>(r, s).
     Inr (if r = NULL then -1 else 0, s))"

section \<open>Moving a chunk\<close>

text \<open>The unlinking of a chunk from its siblings, as in \<open>_talloc_free\<close> and \<open>_talloc_steal\<close>.\<close>

definition detach :: "tstate \<Rightarrow> addr \<Rightarrow> tstate res" where
  "detach s tc =
     bnd (rd s tc) (\<lambda>c.
     if tc_parent c \<noteq> NULL then
       bnd (TLIST_REMOVE (child_ops (tc_parent c)) s tc) (\<lambda>s.
       bnd (rd s (tc_parent c)) (\<lambda>p.
       if tc_child p \<noteq> NULL then upd s (tc_child p) (\<lambda>k. k\<lparr>tc_parent := tc_parent c\<rparr>) else Inr s))
     else
       bnd (if tc_prev c \<noteq> NULL then upd s (tc_prev c) (\<lambda>k. k\<lparr>tc_next := tc_next c\<rparr>) else Inr s) (\<lambda>s.
       if tc_next c \<noteq> NULL then upd s (tc_next c) (\<lambda>k. k\<lparr>tc_prev := tc_prev c\<rparr>) else Inr s))"

text \<open>The linking below a new parent, the last part of \<open>_talloc_steal\<close>.\<close>

definition attach :: "tstate \<Rightarrow> addr \<Rightarrow> addr \<Rightarrow> tstate res" where
  "attach s tc new_tc =
     bnd (upd s tc (\<lambda>c. c\<lparr>tc_parent := new_tc\<rparr>)) (\<lambda>s.
     bnd (rd s new_tc) (\<lambda>q.
     bnd (if tc_child q \<noteq> NULL then upd s (tc_child q) (\<lambda>k. k\<lparr>tc_parent := NULL\<rparr>) else Inr s) (\<lambda>s.
     TLIST_ADD (child_ops new_tc) s tc)))"

definition u_talloc_steal :: "tstate \<Rightarrow> addr \<Rightarrow> addr \<Rightarrow> (addr \<times> tstate) res" where
  "u_talloc_steal s new_ctx ptr =
     (if ptr = NULL then Inr (NULL, s) else
      let new_ctx = (if new_ctx = NULL then null_context s else new_ctx) in
      bnd (talloc_chunk_from_ptr s ptr) (\<lambda>tc.
      if new_ctx = NULL then
        bnd (detach s tc) (\<lambda>s.
        bnd (upd s tc (\<lambda>c. c\<lparr>tc_parent := NULL, tc_next := NULL, tc_prev := NULL\<rparr>)) (\<lambda>s.
        Inr (ptr, s)))
      else
        bnd (talloc_chunk_from_ptr s new_ctx) (\<lambda>new_tc.
        bnd (rd s tc) (\<lambda>c.
        if tc = new_tc \<or> tc_parent c = new_tc then Inr (ptr, s) else
        bnd (detach s tc) (\<lambda>s.
        bnd (attach s tc new_tc) (\<lambda>s.
        Inr (ptr, s)))))))"

definition u_talloc_move :: "tstate \<Rightarrow> addr \<Rightarrow> addr \<Rightarrow> (addr \<times> addr \<times> tstate) res" where
  \<comment> \<open>\<open>*pptr\<close> is passed and returned as the second component\<close>
  "u_talloc_move s new_ctx pptr =
     bnd (u_talloc_steal s new_ctx pptr) (\<lambda>(r, s). Inr (r, NULL, s))"

section \<open>Freeing\<close>

definition talloc_autofree_destructor :: "tstate \<Rightarrow> addr \<Rightarrow> (int \<times> tstate) res" where
  [simp]: "talloc_autofree_destructor s ptr = Inr (0, s\<lparr>autofree_context := NULL\<rparr>)"

definition call_destructor ::
    "libc \<Rightarrow> tstate \<Rightarrow> talloc_destructor_t \<Rightarrow> addr \<Rightarrow> (int \<times> tstate) res" where
  "call_destructor E s d ptr =
     (case d of
        DRef \<Rightarrow> talloc_reference_destructor s ptr
      | DAutofree \<Rightarrow> talloc_autofree_destructor s ptr
      | DUser k \<Rightarrow> user_dtor E k ptr s
      | _ \<Rightarrow> Inl Bad_access)"

text \<open>The destructor stage of \<open>_talloc_free\<close>; \<open>False\<close> stands for its \<open>return -1\<close>.\<close>

definition destructor_stage :: "libc \<Rightarrow> tstate \<Rightarrow> addr \<Rightarrow> addr \<Rightarrow> (bool \<times> tstate) res" where
  "destructor_stage E s tc ptr =
     bnd (rd s tc) (\<lambda>c. let d = tc_destructor c in
     if d = DNull then Inr (True, s)
     else if d = DBusy then Inr (False, s)
     else
       bnd (upd s tc (\<lambda>c. c\<lparr>tc_destructor := DBusy\<rparr>)) (\<lambda>s.
       bnd (call_destructor E s d ptr) (\<lambda>(rc, s).
       if rc = -1 then
         bnd (upd s tc (\<lambda>c. c\<lparr>tc_destructor := d\<rparr>)) (\<lambda>s. Inr (False, s))
       else
         bnd (upd s tc (\<lambda>c. c\<lparr>tc_destructor := DNull\<rparr>)) (\<lambda>s. Inr (True, s)))))"

text \<open>\<open>free(tc)\<close>: header and user area are gone.\<close>

definition free_block :: "tstate \<Rightarrow> addr \<Rightarrow> tstate res" where
  "free_block s tc =
     bnd (rd s tc) (\<lambda>_. Inr (s\<lparr>chunks := (chunks s)(tc := None),
       handles := (handles s)(TC_PTR_FROM_CHUNK tc := None),
       bytes := (bytes s)(TC_PTR_FROM_CHUNK tc := None)\<rparr>))"

text \<open>
  \<open>_talloc_free\<close> and the loop over the children that it shares with
  \<open>talloc_free_children\<close>.
\<close>

fun u_talloc_free :: "libc \<Rightarrow> nat \<Rightarrow> tstate \<Rightarrow> addr \<Rightarrow> (int \<times> tstate) res"
and free_children_loop :: "libc \<Rightarrow> nat \<Rightarrow> tstate \<Rightarrow> addr \<Rightarrow> addr \<Rightarrow> tstate res" where
  "u_talloc_free E 0 s ptr = Inl No_fuel"
| "u_talloc_free E (Suc n) s ptr =
     (if ptr = NULL then Inr (-1, s) else
      bnd (talloc_chunk_from_ptr s ptr) (\<lambda>tc.
      bnd (rd s tc) (\<lambda>c.
      if tc_refs c \<noteq> NULL then
        bnd (talloc_is_parent n s (tc_refs c) ptr) (\<lambda>is_child.
        bnd (u_talloc_free E n s (tc_refs c)) (\<lambda>(_, s).
        if is_child \<noteq> 0 then u_talloc_free E n s ptr else Inr (-1, s)))
      else if tc_flags c AND TALLOC_FLAG_LOOP \<noteq> 0 then Inr (0, s)
      else
        bnd (destructor_stage E s tc ptr) (\<lambda>(ok, s).
        if \<not> ok then Inr (-1, s) else
        bnd (detach s tc) (\<lambda>s.
        bnd (upd s tc (\<lambda>c. c\<lparr>tc_flags := tc_flags c OR TALLOC_FLAG_LOOP\<rparr>)) (\<lambda>s.
        bnd (free_children_loop E n s tc ptr) (\<lambda>s.
        bnd (upd s tc (\<lambda>c. c\<lparr>tc_flags := tc_flags c OR TALLOC_FLAG_FREE\<rparr>)) (\<lambda>s.
        bnd (free_block s tc) (\<lambda>s.
        Inr (0, s))))))))))"
| "free_children_loop E 0 s tc ptr = Inl No_fuel"
| "free_children_loop E (Suc n) s tc ptr =
     bnd (rd s tc) (\<lambda>c.
     if tc_child c = NULL then Inr s else
     bnd (rd s (tc_child c)) (\<lambda>k.
     bnd (if tc_refs k \<noteq> NULL then
            bnd (talloc_parent_chunk n s (tc_refs k)) (\<lambda>p.
            Inr (if p \<noteq> NULL then TC_PTR_FROM_CHUNK p else null_context s))
          else Inr (null_context s)) (\<lambda>new_parent.
     bnd (u_talloc_free E n s (TC_PTR_FROM_CHUNK (tc_child c))) (\<lambda>(rc, s).
     bnd (if rc = -1 then
            bnd (if new_parent = null_context s then
                   bnd (talloc_parent_chunk n s ptr) (\<lambda>p.
                   Inr (if p \<noteq> NULL then TC_PTR_FROM_CHUNK p else new_parent))
                 else Inr new_parent) (\<lambda>new_parent.
            bnd (u_talloc_steal s new_parent (TC_PTR_FROM_CHUNK (tc_child c))) (\<lambda>(_, s).
            Inr s))
          else Inr s) (\<lambda>s.
     free_children_loop E n s tc ptr)))))"

definition talloc_free :: "libc \<Rightarrow> nat \<Rightarrow> tstate \<Rightarrow> addr \<Rightarrow> (int \<times> tstate) res" where
  "talloc_free E n s ptr = u_talloc_free E n s ptr"

definition talloc_free_children :: "libc \<Rightarrow> nat \<Rightarrow> tstate \<Rightarrow> addr \<Rightarrow> tstate res" where
  "talloc_free_children E n s ptr =
     (if ptr = NULL then Inr s
      else bnd (talloc_chunk_from_ptr s ptr) (\<lambda>tc. free_children_loop E n s tc ptr))"

section \<open>Dropping one parent\<close>

text \<open>The search of \<open>talloc_unreference\<close> through the handles of a chunk.\<close>

fun find_reference :: "nat \<Rightarrow> tstate \<Rightarrow> addr \<Rightarrow> addr \<Rightarrow> addr res" where
  "find_reference 0 s context h = Inl No_fuel"
| "find_reference (Suc n) s context h =
     (if h = NULL then Inr NULL else
      bnd (talloc_parent_chunk n s h) (\<lambda>p.
      if (if p = NULL then context = NULL else TC_PTR_FROM_CHUNK p = context) then Inr h
      else bnd (rdh s h) (\<lambda>r. find_reference n s context (h_next r))))"

definition talloc_unreference :: "libc \<Rightarrow> nat \<Rightarrow> tstate \<Rightarrow> addr \<Rightarrow> addr \<Rightarrow> (int \<times> tstate) res" where
  "talloc_unreference E n s context ptr =
     bnd (talloc_chunk_from_ptr s ptr) (\<lambda>tc.
     let context = (if context = NULL then null_context s else context) in
     bnd (rd s tc) (\<lambda>c.
     bnd (find_reference n s context (tc_refs c)) (\<lambda>h.
     if h = NULL then Inr (-1, s) else u_talloc_free E n s h)))"

definition talloc_unlink :: "libc \<Rightarrow> nat \<Rightarrow> tstate \<Rightarrow> addr \<Rightarrow> addr \<Rightarrow> (int \<times> tstate) res" where
  "talloc_unlink E n s context ptr =
     (if ptr = NULL then Inr (-1, s) else
      let context = (if context = NULL then null_context s else context) in
      bnd (talloc_unreference E n s context ptr) (\<lambda>(rc, s).
      if rc = 0 then Inr (0, s) else
      bnd (talloc_parent_chunk n s ptr) (\<lambda>pc.
      bnd (if context = NULL then Inr NULL else talloc_chunk_from_ptr s context) (\<lambda>cc.
      if (if context = NULL then pc \<noteq> NULL else cc \<noteq> pc) then Inr (-1, s) else
      bnd (talloc_chunk_from_ptr s ptr) (\<lambda>tc_p.
      bnd (rd s tc_p) (\<lambda>c.
      if tc_refs c = NULL then u_talloc_free E n s ptr else
      bnd (talloc_parent_chunk n s (tc_refs c)) (\<lambda>new_p.
      let new_parent = (if new_p \<noteq> NULL then TC_PTR_FROM_CHUNK new_p else NULL) in
      bnd (talloc_unreference E n s new_parent ptr) (\<lambda>(rc, s).
      if rc \<noteq> 0 then Inr (-1, s) else
      bnd (u_talloc_steal s new_parent ptr) (\<lambda>(_, s). Inr (0, s))))))))))"

section \<open>Resizing\<close>

text \<open>
  \<open>realloc(tc, n + TC_HDR_SIZE)\<close> with the answer \<open>a\<close>: the block is moved with its
  contents, which are cut or extended to the new size.
\<close>

definition move_block :: "tstate \<Rightarrow> addr \<Rightarrow> addr \<Rightarrow> nat \<Rightarrow> tstate" where
  "move_block s tc a n =
     (let b = (case bytes s (TC_PTR_FROM_CHUNK tc) of None \<Rightarrow> [] | Some b \<Rightarrow> b);
          b' = take n b @ replicate (n - length b) None;
          s1 = (if a = tc then s else s\<lparr>
            chunks := (chunks s)(a := chunks s tc, tc := None),
            handles := (handles s)(TC_PTR_FROM_CHUNK a := handles s (TC_PTR_FROM_CHUNK tc),
              TC_PTR_FROM_CHUNK tc := None),
            bytes := (bytes s)(TC_PTR_FROM_CHUNK tc := None)\<rparr>)
      in s1\<lparr>bytes := (bytes s1)(TC_PTR_FROM_CHUNK a \<mapsto> b')\<rparr>)"

definition u_talloc_realloc ::
    "libc \<Rightarrow> nat \<Rightarrow> tstate \<Rightarrow> addr \<Rightarrow> addr \<Rightarrow> nat \<Rightarrow> cname \<Rightarrow> (addr \<times> tstate) res" where
  "u_talloc_realloc E f s context ptr n nm =
     (if n = 0 then bnd (u_talloc_free E f s ptr) (\<lambda>(_, s). Inr (NULL, s))
      else if n \<ge> MAX_TALLOC_SIZE then Inr (NULL, s)
      else if ptr = NULL then u_talloc_named_const E s context n nm
      else
        bnd (talloc_chunk_from_ptr s ptr) (\<lambda>tc.
        bnd (rd s tc) (\<lambda>c.
        if tc_refs c \<noteq> NULL then Inr (NULL, s) else
        bnd (upd s tc (\<lambda>c. c\<lparr>tc_flags := tc_flags c OR TALLOC_FLAG_FREE\<rparr>)) (\<lambda>s.
        let new_ptr = realloc E s tc (n + TC_HDR_SIZE) in
        if new_ptr = NULL then
          bnd (upd s tc (\<lambda>c. c\<lparr>tc_flags := tc_flags c AND NOT TALLOC_FLAG_FREE\<rparr>)) (\<lambda>s.
          Inr (NULL, s))
        else
          let s = move_block s tc new_ptr n; tc = new_ptr in
          bnd (upd s tc (\<lambda>c. c\<lparr>tc_flags := tc_flags c AND NOT TALLOC_FLAG_FREE\<rparr>)) (\<lambda>s.
          bnd (rd s tc) (\<lambda>c.
          bnd (if tc_parent c \<noteq> NULL then upd s (tc_parent c) (\<lambda>p. p\<lparr>tc_child := tc\<rparr>) else Inr s) (\<lambda>s.
          bnd (if tc_child c \<noteq> NULL then upd s (tc_child c) (\<lambda>k. k\<lparr>tc_parent := tc\<rparr>) else Inr s) (\<lambda>s.
          bnd (if tc_prev c \<noteq> NULL then upd s (tc_prev c) (\<lambda>k. k\<lparr>tc_next := tc\<rparr>) else Inr s) (\<lambda>s.
          bnd (if tc_next c \<noteq> NULL then upd s (tc_next c) (\<lambda>k. k\<lparr>tc_prev := tc\<rparr>) else Inr s) (\<lambda>s.
          bnd (upd s tc (\<lambda>c. c\<lparr>tc_size := n\<rparr>)) (\<lambda>s.
          bnd (u_talloc_set_name_const s (TC_PTR_FROM_CHUNK tc) nm) (\<lambda>s.
          Inr (TC_PTR_FROM_CHUNK tc, s)))))))))))))"

definition talloc_realloc_fn ::
    "libc \<Rightarrow> nat \<Rightarrow> tstate \<Rightarrow> addr \<Rightarrow> addr \<Rightarrow> nat \<Rightarrow> (addr \<times> tstate) res" where
  "talloc_realloc_fn E f s context ptr n = u_talloc_realloc E f s context ptr n NNull"

section \<open>The null context\<close>

definition talloc_enable_null_tracking :: "libc \<Rightarrow> tstate \<Rightarrow> tstate res" where
  "talloc_enable_null_tracking E s =
     (if null_context s = NULL then
        bnd (u_talloc_named_const E s NULL 0 (NConst ''null_context'')) (\<lambda>(p, s).
        Inr (s\<lparr>null_context := p\<rparr>))
      else Inr s)"

definition talloc_disable_null_tracking :: "libc \<Rightarrow> nat \<Rightarrow> tstate \<Rightarrow> tstate res" where
  "talloc_disable_null_tracking E n s =
     bnd (u_talloc_free E n s (null_context s)) (\<lambda>(_, s). Inr (s\<lparr>null_context := NULL\<rparr>))"

text \<open>The context that an exit handler frees; the second component tells that
  \<open>atexit(talloc_autofree)\<close> was called.\<close>

definition talloc_autofree_context :: "libc \<Rightarrow> tstate \<Rightarrow> (addr \<times> bool \<times> tstate) res" where
  "talloc_autofree_context E s =
     (if autofree_context s = NULL then
        bnd (u_talloc_named_const E s NULL 0 (NConst ''autofree_context'')) (\<lambda>(p, s).
        let s = s\<lparr>autofree_context := p\<rparr> in
        bnd (u_talloc_set_destructor s p DAutofree) (\<lambda>s. Inr (p, True, s)))
      else Inr (autofree_context s, False, s))"

definition talloc_autofree :: "libc \<Rightarrow> nat \<Rightarrow> tstate \<Rightarrow> tstate res" where
  "talloc_autofree E n s = bnd (u_talloc_free E n s (autofree_context s)) (\<lambda>(_, s). Inr s)"

end
