(* ===== verification/Talloc_Inv.thy ===== *)
theory Talloc_Inv
  imports Talloc_Core
begin

unbundle bit_operations_syntax

text \<open>
  The abstract view of the allocator's memory and the invariant that ties it to the
  links.  A \<open>forest\<close> gives every chunk the list of its children, a \<open>reftab\<close> the list
  of the handles that refer to it.  The set \<open>X\<close> holds the chunks that a running
  \<open>_talloc_free\<close> has already unlinked but not yet released: their own sibling and
  parent links are stale, and their \<open>TALLOC_FLAG_LOOP\<close> is set.  Between calls \<open>X\<close> is
  empty.
\<close>

type_synonym forest = "addr \<Rightarrow> addr list"
type_synonym reftab = "addr \<Rightarrow> addr list"

section \<open>Abstract operations\<close>

definition fadd :: "addr \<Rightarrow> addr \<Rightarrow> forest \<Rightarrow> forest" where
  "fadd p a ch = ch(p := a # ch p)"

definition fremove :: "addr \<Rightarrow> forest \<Rightarrow> forest" where
  "fremove a ch = (\<lambda>p. remove1 a (ch p))"

text \<open>The chunks reachable from \<open>a\<close>, \<open>a\<close> included, and what is left without a set of chunks.\<close>

definition sub :: "forest \<Rightarrow> addr \<Rightarrow> addr set" where
  "sub ch a = {b. (a, b) \<in> {(p, c). c \<in> set (ch p)}\<^sup>*}"

definition prune :: "addr set \<Rightarrow> forest \<Rightarrow> forest" where
  "prune S ch = (\<lambda>p. if p \<in> S then [] else filter (\<lambda>a. a \<notin> S) (ch p))"

definition rdrop :: "addr set \<Rightarrow> reftab \<Rightarrow> reftab" where
  "rdrop S rf = (\<lambda>p. if p \<in> S then [] else filter (\<lambda>h. h \<notin> TC_PTR_FROM_CHUNK ` S) (rf p))"

text \<open>No chunk is its own ancestor.\<close>

definition ranked :: "forest \<Rightarrow> bool" where
  "ranked ch \<longleftrightarrow> (\<exists>r :: addr \<Rightarrow> nat. \<forall>p. \<forall>a\<in>set (ch p). r a < r p)"

section \<open>The invariant\<close>

definition links :: "addr set \<Rightarrow> (addr \<Rightarrow> bool) \<Rightarrow> (addr \<Rightarrow> addr) \<Rightarrow> (addr \<Rightarrow> addr) \<Rightarrow>
    (addr \<Rightarrow> addr) \<Rightarrow> (addr \<Rightarrow> addr) \<Rightarrow> forest \<Rightarrow> bool" where
  "links X lv nx pv pr cd ch \<longleftrightarrow>
     \<not> lv NULL \<and> finite {a. lv a} \<and>
     (\<forall>p. ch p \<noteq> [] \<longrightarrow> lv p) \<and>
     (\<forall>p. \<forall>a\<in>set (ch p). lv a \<and> a \<notin> X) \<and>
     (\<forall>p. distinct (ch p)) \<and>
     (\<forall>p q a. a \<in> set (ch p) \<longrightarrow> a \<in> set (ch q) \<longrightarrow> p = q) \<and>
     (\<forall>p. lv p \<longrightarrow> cd p = hdd (ch p) NULL) \<and>
     (\<forall>p. dseg nx pv NULL (ch p) NULL) \<and>
     (\<forall>p. \<forall>a\<in>set (ch p). pr a = (if a = hd (ch p) then p else NULL)) \<and>
     (\<forall>a. lv a \<longrightarrow> a \<notin> X \<longrightarrow> (\<forall>p. a \<notin> set (ch p)) \<longrightarrow>
        pr a = NULL \<and> nx a = NULL \<and> pv a = NULL)"

definition tree_inv :: "addr set \<Rightarrow> tstate \<Rightarrow> forest \<Rightarrow> bool" where
  "tree_inv X s ch \<longleftrightarrow> links X (live s) (nxt s) (prv s) (par s) (chd s) ch"

definition refs_inv :: "addr set \<Rightarrow> tstate \<Rightarrow> reftab \<Rightarrow> bool" where
  "refs_inv X s rf \<longleftrightarrow>
     (\<forall>c. rf c \<noteq> [] \<longrightarrow> live s c) \<and>
     (\<forall>c. live s c \<longrightarrow> rfs s c = hdd (rf c) NULL) \<and>
     (\<forall>c. dseg (hfld h_next s) (hfld h_prev s) NULL (rf c) NULL) \<and>
     (\<forall>c. distinct (rf c)) \<and>
     (\<forall>c. \<forall>h\<in>set (rf c). hlive s h \<and> hfld h_ptr s h = TC_PTR_FROM_CHUNK c \<and>
        (\<exists>a. h = TC_PTR_FROM_CHUNK a \<and> live s a \<and> a \<notin> X \<and> fld tc_destructor DNull s a = DRef)) \<and>
     (\<forall>h. hlive s h \<longrightarrow> h \<notin> TC_PTR_FROM_CHUNK ` X \<longrightarrow> (\<exists>c. h \<in> set (rf c))) \<and>
     (\<forall>a. fld tc_destructor DNull s a = DRef \<longrightarrow> a \<notin> X \<longrightarrow> hlive s (TC_PTR_FROM_CHUNK a))"

definition flags_ok :: "addr set \<Rightarrow> tstate \<Rightarrow> bool" where
  "flags_ok X s \<longleftrightarrow> (\<forall>a. live s a \<longrightarrow>
     fld tc_flags 0 s a = (if a \<in> X then TALLOC_MAGIC OR TALLOC_FLAG_LOOP else TALLOC_MAGIC))"

definition heap :: "addr set \<Rightarrow> tstate \<Rightarrow> forest \<Rightarrow> reftab \<Rightarrow> bool" where
  "heap X s ch rf \<longleftrightarrow> tree_inv X s ch \<and> refs_inv X s rf \<and> flags_ok X s"

section \<open>Reachability in the forest\<close>

lemma sub_refl [simp, intro]: "a \<in> sub ch a"
  by (simp add: sub_def)

lemma sub_step: "b \<in> sub ch a \<Longrightarrow> c \<in> set (ch b) \<Longrightarrow> c \<in> sub ch a"
  unfolding sub_def mem_Collect_eq by (rule rtrancl_into_rtrancl) simp_all

lemma sub_trans: "b \<in> sub ch a \<Longrightarrow> c \<in> sub ch b \<Longrightarrow> c \<in> sub ch a"
  unfolding sub_def mem_Collect_eq by (rule rtrancl_trans)

lemma sub_induct [consumes 1, case_names refl step]:
  assumes "b \<in> sub ch a" and "P a"
    and "\<And>x y. x \<in> sub ch a \<Longrightarrow> P x \<Longrightarrow> y \<in> set (ch x) \<Longrightarrow> P y"
  shows "P b"
proof -
  from assms(1) have "(a, b) \<in> {(p, c). c \<in> set (ch p)}\<^sup>*" by (simp add: sub_def)
  then show ?thesis
    by (induction rule: rtrancl_induct) (use assms(2,3) in \<open>auto simp: sub_def\<close>)
qed

lemma sub_unfold: "sub ch a = insert a (\<Union>c\<in>set (ch a). sub ch c)"
proof (rule set_eqI)
  fix b
  have "(a, b) \<in> {(p, c). c \<in> set (ch p)}\<^sup>* \<longleftrightarrow>
      a = b \<or> (\<exists>c. c \<in> set (ch a) \<and> (c, b) \<in> {(p, c). c \<in> set (ch p)}\<^sup>*)"
    by (auto elim: converse_rtranclE intro: converse_rtrancl_into_rtrancl)
  then show "b \<in> sub ch a \<longleftrightarrow> b \<in> insert a (\<Union>c\<in>set (ch a). sub ch c)"
    by (auto simp: sub_def)
qed

lemma sub_leaf: "ch a = [] \<Longrightarrow> sub ch a = {a}"
  by (subst sub_unfold) simp

lemma sub_ranked: "ranked ch \<Longrightarrow> c \<in> set (ch a) \<Longrightarrow> a \<notin> sub ch c"
proof
  assume "ranked ch" and c: "c \<in> set (ch a)" and a: "a \<in> sub ch c"
  then obtain r :: "addr \<Rightarrow> nat" where r: "\<And>p b. b \<in> set (ch p) \<Longrightarrow> r b < r p"
    by (auto simp: ranked_def)
  from a have "r a \<le> r c"
    by (induction rule: sub_induct) (auto dest: r)
  with r [OF c] show False by simp
qed

lemma ranked_mono: "ranked ch \<Longrightarrow> (\<And>p. set (ch' p) \<subseteq> set (ch p)) \<Longrightarrow> ranked ch'"
  unfolding ranked_def by blast

lemma ranked_prune: "ranked ch \<Longrightarrow> ranked (prune S ch)"
  by (erule ranked_mono) (auto simp: prune_def)

lemma set_fremove_subset: "set (fremove a ch p) \<subseteq> set (ch p)"
  by (simp add: fremove_def set_remove1_subset)

lemma ranked_fremove: "ranked ch \<Longrightarrow> ranked (fremove a ch)"
  by (erule ranked_mono) (rule set_fremove_subset)

lemma sub_mono: "(\<And>p. set (ch' p) \<subseteq> set (ch p)) \<Longrightarrow> sub ch' a \<subseteq> sub ch a"
proof
  fix b assume s: "\<And>p. set (ch' p) \<subseteq> set (ch p)" and "b \<in> sub ch' a"
  from this(2) show "b \<in> sub ch a"
    by (induction rule: sub_induct) (use s in \<open>auto intro: sub_step\<close>)
qed

text \<open>What is reachable once the chunks below \<open>d\<close> are gone.\<close>

lemma sub_prune:
  assumes "a \<notin> sub ch d"
  shows "sub (prune (sub ch d) ch) a = sub ch a - sub ch d"
proof (intro equalityI subsetI)
  fix b assume "b \<in> sub (prune (sub ch d) ch) a"
  then show "b \<in> sub ch a - sub ch d"
    by (induction rule: sub_induct)
      (use assms in \<open>auto simp: prune_def intro: sub_step split: if_splits\<close>)
next
  fix b assume "b \<in> sub ch a - sub ch d"
  then have "b \<in> sub ch a" and "b \<notin> sub ch d" by auto
  then show "b \<in> sub (prune (sub ch d) ch) a"
  proof (induction rule: sub_induct)
    case refl
    show ?case by simp
  next
    case (step x y)
    have x: "x \<notin> sub ch d"
      using step.prems step.hyps sub_step by blast
    show ?case
      by (rule sub_step [OF step.IH [OF x]]) (use x step in \<open>auto simp: prune_def\<close>)
  qed
qed

lemma sub_fremove_self:
  assumes "ranked ch"
  shows "sub (fremove a ch) a = sub ch a"
proof (intro equalityI subsetI)
  fix b assume "b \<in> sub (fremove a ch) a"
  then show "b \<in> sub ch a" using sub_mono [of "fremove a ch" ch] set_fremove_subset by blast
next
  fix b assume "b \<in> sub ch a"
  then show "b \<in> sub (fremove a ch) a"
  proof (induction rule: sub_induct)
    case refl
    show ?case by simp
  next
    case (step x y)
    have "y \<noteq> a" using sub_ranked [OF assms step.hyps(2)] step.hyps(1) by auto
    then show ?case
      using step by (auto simp: fremove_def intro: sub_step)
  qed
qed

lemma prune_prune: "prune A (prune B ch) = prune (A \<union> B) ch"
  by (auto simp: prune_def fun_eq_iff intro: filter_cong)

lemma rdrop_rdrop: "rdrop A (rdrop B rf) = rdrop (A \<union> B) rf"
  by (auto simp: rdrop_def fun_eq_iff intro: filter_cong)

lemma prune_fremove:
  assumes "\<And>p. distinct (ch p)" and "set (ch c) \<subseteq> S"
  shows "prune S (fremove c ch) = prune (insert c S) ch"
proof
  fix p
  have "filter (\<lambda>a. a \<notin> S) (remove1 c (ch p)) = filter (\<lambda>a. a \<notin> insert c S) (ch p)"
    using assms(1) [of p]
    by (auto simp: distinct_remove1_removeAll removeAll_filter_not_eq intro: filter_cong)
  moreover have "filter (\<lambda>a. a \<notin> insert c S) (ch c) = []"
    using assms(2) by (auto simp: filter_empty_conv)
  ultimately show "prune S (fremove c ch) p = prune (insert c S) ch p"
    by (auto simp: prune_def fremove_def)
qed

section \<open>The links under the abstract operations\<close>

lemma linksD:
  assumes "links X lv nx pv pr cd ch"
  shows "\<not> lv NULL" "finite {a. lv a}" "ch p \<noteq> [] \<Longrightarrow> lv p" "a \<in> set (ch p) \<Longrightarrow> lv p"
    "a \<in> set (ch p) \<Longrightarrow> lv a" "a \<in> set (ch p) \<Longrightarrow> a \<notin> X" "distinct (ch p)"
    "a \<in> set (ch p) \<Longrightarrow> a \<in> set (ch q) \<Longrightarrow> p = q" "lv p \<Longrightarrow> cd p = hdd (ch p) NULL"
    "dseg nx pv NULL (ch p) NULL" "a \<in> set (ch p) \<Longrightarrow> pr a = (if a = hd (ch p) then p else NULL)"
    "lv a \<Longrightarrow> a \<notin> X \<Longrightarrow> (\<And>p. a \<notin> set (ch p)) \<Longrightarrow> pr a = NULL \<and> nx a = NULL \<and> pv a = NULL"
proof -
  note L = assms [unfolded links_def]
  show "\<not> lv NULL" "finite {a. lv a}" "distinct (ch p)" "dseg nx pv NULL (ch p) NULL"
    using L by simp_all
  show live: "ch p \<noteq> [] \<Longrightarrow> lv p" and "lv p \<Longrightarrow> cd p = hdd (ch p) NULL"
    using L by simp_all
  show "a \<in> set (ch p) \<Longrightarrow> lv p"
    using live by (cases "ch p") simp_all
  show "a \<in> set (ch p) \<Longrightarrow> lv a" "a \<in> set (ch p) \<Longrightarrow> a \<notin> X"
    "a \<in> set (ch p) \<Longrightarrow> pr a = (if a = hd (ch p) then p else NULL)"
    using L by simp_all
  show "a \<in> set (ch p) \<Longrightarrow> a \<in> set (ch q) \<Longrightarrow> p = q"
    using L by (elim conjE) blast
  show "lv a \<Longrightarrow> a \<notin> X \<Longrightarrow> (\<And>p. a \<notin> set (ch p)) \<Longrightarrow> pr a = NULL \<and> nx a = NULL \<and> pv a = NULL"
    using L by simp
qed

text \<open>A chunk that is in no list is put at the front of the children of \<open>q\<close>.\<close>

lemma links_attach:
  assumes l: "links (insert a X) lv nx pv pr cd ch" and a: "lv a" "a \<notin> X" and q: "lv q"
    and out: "\<And>p. a \<notin> set (ch p)"
    and seg: "dseg nx' pv' NULL (a # ch q) NULL"
    and other: "\<And>b. b \<notin> insert a (set (ch q)) \<Longrightarrow> nx' b = nx b \<and> pv' b = pv b"
    and pr': "\<And>b. pr' b = (if b = a then q else if ch q \<noteq> [] \<and> b = hd (ch q) then NULL else pr b)"
    and cd': "cd' = cd(q := a)"
  shows "links X lv nx' pv' pr' cd' (fadd q a ch)"
proof -
  note D = linksD [OF l]
  have disj: "b \<notin> insert a (set (ch q))" if "b \<in> set (ch p)" "p \<noteq> q" for b p
    using that D(8) out by auto
  have seg_other: "dseg nx' pv' NULL (ch p) NULL" if "p \<noteq> q" for p
    using D(10) [of p] other disj [OF _ that]
    by (subst dseg_cong [where nx' = nx and pv' = pv]) simp_all
  have par: "pr' b = (if b = hd (fadd q a ch p) then p else NULL)" if "b \<in> set (fadd q a ch p)" for b p
  proof (cases "p = q")
    case True
    then show ?thesis
      using that D(11) [of b q] out by (cases "ch q") (auto simp: fadd_def pr')
  next
    case False
    then have b: "b \<in> set (ch p)" using that by (simp add: fadd_def)
    have "b \<noteq> a" "ch q \<noteq> [] \<Longrightarrow> b \<noteq> hd (ch q)"
      using disj [OF b False] hd_in_set [of "ch q"] by auto
    then show ?thesis
      using b D(11) [OF b] False by (auto simp: fadd_def pr')
  qed
  have root: "pr' b = NULL \<and> nx' b = NULL \<and> pv' b = NULL"
    if "lv b" "b \<notin> X" "\<And>p. b \<notin> set (fadd q a ch p)" for b
  proof -
    have ba: "b \<noteq> a" using that(3) [of q] by (auto simp: fadd_def)
    have no: "b \<notin> set (ch p)" for p using that(3) [of p] by (auto simp: fadd_def split: if_splits)
    then have "ch q \<noteq> [] \<Longrightarrow> b \<noteq> hd (ch q)" by (metis hd_in_set)
    then show ?thesis using D(12) [of b] that ba no other by (simp add: pr')
  qed
  show ?thesis
    unfolding links_def
  proof (intro conjI allI impI ballI)
    show "\<not> lv NULL" "finite {a. lv a}" using D(1,2) .
    show "lv p" if "fadd q a ch p \<noteq> []" for p
      using that D(3) q by (auto simp: fadd_def split: if_splits)
    show "lv b" "b \<notin> X" if "b \<in> set (fadd q a ch p)" for p b
      using that D(5,6) a by (auto simp: fadd_def split: if_splits)
    show "distinct (fadd q a ch p)" for p
      using D(7) out by (auto simp: fadd_def)
    show "p = p'" if "b \<in> set (fadd q a ch p)" "b \<in> set (fadd q a ch p')" for p p' b
      using that D(8) out by (auto simp: fadd_def split: if_splits)
    show "cd' p = hdd (fadd q a ch p) NULL" if "lv p" for p
      using that D(9) by (simp add: fadd_def cd')
    show "dseg nx' pv' NULL (fadd q a ch p) NULL" for p
      using seg seg_other by (simp add: fadd_def)
  qed (use par root in blast)+
qed

text \<open>
  A chunk leaves its list.  The neighbours are relinked, a new first child learns its
  parent; the links of the chunk itself may be anything.
\<close>

lemma links_detach:
  assumes l: "links X lv nx pv pr cd ch" and dec: "ch q = xs @ a # ys"
    and seg: "dseg nx' pv' NULL (xs @ ys) NULL"
    and other: "\<And>b. b \<notin> set (ch q) \<Longrightarrow> nx' b = nx b \<and> pv' b = pv b"
    and pr': "\<And>b. b \<noteq> a \<Longrightarrow> pr' b = (if xs = [] \<and> ys \<noteq> [] \<and> b = hd ys then q else pr b)"
    and cd': "cd' = cd(q := hdd (xs @ ys) NULL)"
  shows "links (insert a X) lv nx' pv' pr' cd' (fremove a ch)"
proof -
  note D = linksD [OF l]
  have q: "lv q" and a: "a \<in> set (ch q)" using dec D(3) [of q] by auto
  have rem: "fremove a ch q = xs @ ys"
    using dec D(7) [of q] by (auto simp: fremove_def remove1_append)
  have rem': "fremove a ch p = ch p" if "p \<noteq> q" for p
    using that D(8) a unfolding fremove_def by (metis remove1_idem)
  have mem_old: "b \<in> set (ch p)" "b \<noteq> a" if "b \<in> set (fremove a ch p)" for p b
    using that rem rem' dec D(7) [of q] D(8) a by (cases "p = q"; auto)+
  have ends: "lastd xs NULL \<in> set (ch q) \<or> xs = []" "hdd ys NULL \<in> set (ch q) \<or> ys = []"
    using lastd_in [of xs NULL] hdd_in [of ys NULL] dec by auto
  have seg_other: "dseg nx' pv' NULL (ch p) NULL" if "p \<noteq> q" for p
  proof -
    have "b \<notin> set (ch q)" if "b \<in> set (ch p)" for b
      using D(8) that \<open>p \<noteq> q\<close> by blast
    then show ?thesis
      using D(10) [of p] by (subst dseg_cong [where nx' = nx and pv' = pv]) (auto simp: other)
  qed
  have par: "pr' b = (if b = hd (fremove a ch p) then p else NULL)" if b: "b \<in> set (fremove a ch p)" for b p
  proof (cases "p = q")
    case True
    have "b \<noteq> a" "b \<in> set (xs @ ys)" using b True mem_old(2) [OF b] rem by simp_all
    moreover have "b \<noteq> hd ys" if "b \<in> set xs" "ys \<noteq> []"
      using that D(7) [of q] dec by auto
    ultimately show ?thesis
      using D(11) [of b q] True rem dec D(7) [of q]
      by (cases xs; cases ys) (auto simp: pr')
  next
    case False
    then have "b \<in> set (ch p)" "b \<noteq> a" using b mem_old by auto
    moreover have "b \<noteq> hd ys" if "ys \<noteq> []"
      using calculation False ends(2) D(8) that by (auto simp: hdd_conv)
    ultimately show ?thesis
      using D(11) [of b p] rem' [OF False] by (auto simp: pr')
  qed
  have root: "pr' b = NULL \<and> nx' b = NULL \<and> pv' b = NULL"
    if "lv b" "b \<notin> insert a X" "\<And>p. b \<notin> set (fremove a ch p)" for b
  proof -
    have b: "b \<noteq> a" "b \<notin> X" using that by auto
    have "b \<notin> set (ch p)" for p
      using that(3) [of p] b by (auto simp: fremove_def in_set_remove1)
    then show ?thesis
      using D(12) [of b] that(1) b ends D(1) other by (auto simp: pr' hdd_conv)
  qed
  show ?thesis
    unfolding links_def
  proof (intro conjI allI impI ballI)
    show "\<not> lv NULL" "finite {a. lv a}" using D(1,2) .
    show "lv p" if "fremove a ch p \<noteq> []" for p
      using that D(3) [of p] by (cases "ch p") (auto simp: fremove_def)
    show "lv b" "b \<notin> insert a X" if "b \<in> set (fremove a ch p)" for p b
      using mem_old [OF that] D(5,6) by auto
    show "distinct (fremove a ch p)" for p
      using D(7) by (simp add: fremove_def)
    show "p = p'" if "b \<in> set (fremove a ch p)" "b \<in> set (fremove a ch p')" for p p' b
      using mem_old that D(8) by blast
    show "cd' p = hdd (fremove a ch p) NULL" if "lv p" for p
      using that D(9) rem rem' by (cases "p = q") (simp_all add: cd')
    show "dseg nx' pv' NULL (fremove a ch p) NULL" for p
      using seg seg_other rem rem' by (cases "p = q") simp_all
  qed (use par root in blast)+
qed

lemma links_weaken: "links X lv nx pv pr cd ch \<Longrightarrow> (\<And>p. a \<notin> set (ch p)) \<Longrightarrow>
  links (insert a X) lv nx pv pr cd ch"
  unfolding links_def by blast

text \<open>Releasing an unlinked chunk without children, and adding a new one.\<close>

lemma links_release:
  assumes "links (insert a X) lv nx pv pr cd ch" and "ch a = []"
    and "\<And>b. lv' b \<longleftrightarrow> b \<noteq> a \<and> lv b"
    and "\<And>b. b \<noteq> a \<Longrightarrow> nx' b = nx b \<and> pv' b = pv b \<and> pr' b = pr b \<and> cd' b = cd b"
  shows "links X lv' nx' pv' pr' cd' ch"
proof -
  note D = linksD [OF assms(1)]
  have ne: "b \<noteq> a" if "b \<in> set (ch p)" for b p using D(6) [OF that] by auto
  have nep: "p \<noteq> a" if "ch p \<noteq> []" for p using that assms(2) by auto
  show ?thesis
    unfolding links_def
  proof (intro conjI allI impI ballI)
    show "\<not> lv' NULL" using assms(3) D(1) by simp
    show "finite {a. lv' a}" by (rule finite_subset [OF _ D(2)]) (auto simp: assms(3))
    show "lv' p" if "ch p \<noteq> []" for p using that D(3) nep assms(3) by auto
    show "lv' b" "b \<notin> X" if "b \<in> set (ch p)" for p b using that D(5,6) ne assms(3) by auto
    show "distinct (ch p)" for p by (rule D(7))
    show "p = p'" if "b \<in> set (ch p)" "b \<in> set (ch p')" for p p' b using that D(8) by blast
    show "cd' p = hdd (ch p) NULL" if "lv' p" for p using that assms(3,4) D(9) by auto
    show "dseg nx' pv' NULL (ch p) NULL" for p
      using D(10) [of p] ne by (subst dseg_cong [where nx' = nx and pv' = pv]) (auto simp: assms(4))
    show "pr' b = (if b = hd (ch p) then p else NULL)" if "b \<in> set (ch p)" for p b
      using D(11) [OF that] ne [OF that] assms(4) by simp
    show "pr' b = NULL" "nx' b = NULL" "pv' b = NULL"
      if "lv' b" "b \<notin> X" "\<forall>p. b \<notin> set (ch p)" for b
      using that assms(3,4) D(12) [of b] by auto
  qed
qed

lemma links_fresh:
  assumes "links X lv nx pv pr cd ch" and "\<not> lv a" and "a \<noteq> NULL"
    and "\<And>b. lv' b \<longleftrightarrow> b = a \<or> lv b"
    and "\<And>b. b \<noteq> a \<Longrightarrow> nx' b = nx b \<and> pv' b = pv b \<and> pr' b = pr b \<and> cd' b = cd b"
    and "nx' a = NULL" "pv' a = NULL" "pr' a = NULL" "cd' a = NULL"
  shows "links X lv' nx' pv' pr' cd' ch \<and> ch a = [] \<and> (\<forall>p. a \<notin> set (ch p))"
proof -
  note D = linksD [OF assms(1)]
  have ne: "b \<noteq> a" if "b \<in> set (ch p)" for b p using D(5) [OF that] assms(2) by auto
  have cha: "ch a = []" using D(3) assms(2) by auto
  have "links X lv' nx' pv' pr' cd' ch"
    unfolding links_def
  proof (intro conjI allI impI ballI)
    show "\<not> lv' NULL" using assms(3,4) D(1) by simp
    have "{b. lv' b} = insert a {b. lv b}" by (auto simp: assms(4))
    then show "finite {a. lv' a}" using D(2) by simp
    show "lv' p" if "ch p \<noteq> []" for p using that D(3) assms(4) by auto
    show "lv' b" "b \<notin> X" if "b \<in> set (ch p)" for p b using that D(5,6) assms(4) by auto
    show "distinct (ch p)" for p by (rule D(7))
    show "p = p'" if "b \<in> set (ch p)" "b \<in> set (ch p')" for p p' b using that D(8) by blast
    show "cd' p = hdd (ch p) NULL" if "lv' p" for p
      using that assms(4,5,9) D(9) cha by (cases "p = a") auto
    show "dseg nx' pv' NULL (ch p) NULL" for p
      using D(10) [of p] ne by (subst dseg_cong [where nx' = nx and pv' = pv]) (auto simp: assms(5))
    show "pr' b = (if b = hd (ch p) then p else NULL)" if "b \<in> set (ch p)" for p b
      using D(11) [OF that] ne [OF that] assms(5) by simp
    show "pr' b = NULL" "nx' b = NULL" "pv' b = NULL"
      if "lv' b" "b \<notin> X" "\<forall>p. b \<notin> set (ch p)" for b
      using that assms(4-8) D(12) [of b] by (cases "b = a"; auto)+
  qed
  then show ?thesis using cha ne by blast
qed

end
