(* ===== verification/Talloc_Ops.thy ===== *)
theory Talloc_Ops
  imports Talloc_Inv
begin

unbundle bit_operations_syntax

text \<open>
  Every operation that builds, moves or relinks chunks keeps the invariant of
  \<open>Talloc_Inv\<close> and has the effect of an abstract forest operation: allocation,
  names, destructors, references, \<open>steal\<close>.
\<close>

section \<open>Total views of the checked accesses\<close>

definition mod_chunk :: "tstate \<Rightarrow> addr \<Rightarrow> (talloc_chunk \<Rightarrow> talloc_chunk) \<Rightarrow> tstate" where
  "mod_chunk s a f = s\<lparr>chunks := (chunks s)(a := map_option f (chunks s a))\<rparr>"

named_theorems view \<open>how the accessors see a modified state\<close>

lemma upd_live [view]: "live s a \<Longrightarrow> upd s a f = Inr (mod_chunk s a f)"
  by (auto simp: acc mod_chunk_def)

lemma rd_live: "live s a \<Longrightarrow> rd s a = Inr (the (chunks s a))"
  by (auto simp: acc)

lemma bnd_rd [view]: "live s a \<Longrightarrow> bnd (rd s a) g = g (the (chunks s a))"
  by (auto simp: acc)

lemma fld_the: "live s a \<Longrightarrow> g (the (chunks s a)) = fld g d s a"
  by (auto simp: acc)

lemmas fields_the [view] =
  fld_the [where g = tc_next and d = NULL] fld_the [where g = tc_prev and d = NULL]
  fld_the [where g = tc_parent and d = NULL] fld_the [where g = tc_child and d = NULL]
  fld_the [where g = tc_refs and d = NULL] fld_the [where g = tc_destructor and d = DNull]
  fld_the [where g = tc_flags and d = 0] fld_the [where g = tc_name and d = NNull]
  fld_the [where g = tc_size and d = 0]

lemma live_mod [view]: "live (mod_chunk s a f) = live s"
  by (auto simp: acc mod_chunk_def fun_eq_iff)

lemma fld_mod_other [view]: "(\<And>c. g (f c) = g c) \<Longrightarrow> fld g d (mod_chunk s a f) = fld g d s"
  by (auto simp: acc mod_chunk_def fun_eq_iff split: option.splits)

lemma fld_mod_const [view]:
  "(\<And>c. g (f c) = v) \<Longrightarrow> live s a \<Longrightarrow> fld g d (mod_chunk s a f) = (fld g d s)(a := v)"
  by (auto simp: acc mod_chunk_def fun_eq_iff split: option.splits)

lemma mod_chunk_simps [view]:
  "handles (mod_chunk s a f) = handles s" "bytes (mod_chunk s a f) = bytes s"
  "null_context (mod_chunk s a f) = null_context s"
  "autofree_context (mod_chunk s a f) = autofree_context s"
  by (simp_all add: mod_chunk_def)

lemma hfld_mod [view]: "hfld g (mod_chunk s a f) = hfld g s" "hlive (mod_chunk s a f) = hlive s"
  by (simp_all add: acc mod_chunk_def fun_eq_iff)

section \<open>What the link operations do not touch\<close>

definition wipe :: "talloc_chunk \<Rightarrow> talloc_chunk" where
  "wipe c = c\<lparr>tc_next := NULL, tc_prev := NULL, tc_parent := NULL, tc_child := NULL\<rparr>"

definition strip_tree :: "tstate \<Rightarrow> tstate" where
  "strip_tree s = s\<lparr>chunks := (\<lambda>a. map_option wipe (chunks s a))\<rparr>"

lemma strip_tree_mod [view]: "(\<And>c. wipe (f c) = wipe c) \<Longrightarrow> strip_tree (mod_chunk s a f) = strip_tree s"
  by (auto simp: strip_tree_def mod_chunk_def fun_eq_iff option.map_comp o_def)

lemma wipe_simps [view]:
  "wipe (c\<lparr>tc_next := v\<rparr>) = wipe c" "wipe (c\<lparr>tc_prev := v\<rparr>) = wipe c"
  "wipe (c\<lparr>tc_parent := v\<rparr>) = wipe c" "wipe (c\<lparr>tc_child := v\<rparr>) = wipe c"
  by (simp_all add: wipe_def)

lemma strip_treeD:
  assumes "strip_tree s' = strip_tree s"
  shows "handles s' = handles s" "bytes s' = bytes s" "null_context s' = null_context s"
    "autofree_context s' = autofree_context s" "live s' = live s"
    "(\<And>c. g (wipe c) = g c) \<Longrightarrow> fld g d s' = fld g d s"
    "hlive s' = hlive s" "hfld k s' = hfld k s"
proof -
  have c: "map_option wipe (chunks s' a) = map_option wipe (chunks s a)" for a
    using arg_cong [OF assms, of chunks] by (simp add: strip_tree_def fun_eq_iff)
  have h: "handles s' = handles s"
    using arg_cong [OF assms, of handles] by (simp add: strip_tree_def)
  show "handles s' = handles s" "hlive s' = hlive s" "hfld k s' = hfld k s"
    using h by (simp_all add: acc fun_eq_iff)
  show "bytes s' = bytes s" "null_context s' = null_context s"
    "autofree_context s' = autofree_context s"
    using arg_cong [OF assms, of bytes] arg_cong [OF assms, of null_context]
      arg_cong [OF assms, of autofree_context] by (simp_all add: strip_tree_def)
  show "live s' = live s"
    unfolding live_def fun_eq_iff using c by (metis option.map_disc_iff)
  show "fld g d s' = fld g d s" if "\<And>c. g (wipe c) = g c"
  proof
    fix a
    have "map_option g (chunks s' a) = map_option g (chunks s a)"
      using arg_cong [OF c [of a], of "map_option g"] that by (simp add: option.map_comp comp_def)
    then show "fld g d s' a = fld g d s a"
      by (cases "chunks s a"; cases "chunks s' a") (auto simp: acc)
  qed
qed

lemma strip_tree_refs_inv:
  assumes "strip_tree s' = strip_tree s"
  shows "refs_inv X s' rf = refs_inv X s rf"
  unfolding refs_inv_def by (simp add: strip_treeD [OF assms] wipe_def)

lemma strip_tree_flags_ok:
  assumes "strip_tree s' = strip_tree s"
  shows "flags_ok X s' = flags_ok X s"
  unfolding flags_ok_def by (simp add: strip_treeD [OF assms] wipe_def)

lemma strip_childD:
  assumes "strip_child p s' = strip_child p s"
  shows "strip_tree s' = strip_tree s" "par s' = par s" "b \<noteq> p \<Longrightarrow> chd s' b = chd s b" "live s' = live s"
proof -
  have c: "map_option (\<lambda>c. c\<lparr>tc_next := NULL, tc_prev := NULL,
      tc_child := (if a = p then NULL else tc_child c)\<rparr>) (chunks s' a) =
    map_option (\<lambda>c. c\<lparr>tc_next := NULL, tc_prev := NULL,
      tc_child := (if a = p then NULL else tc_child c)\<rparr>) (chunks s a)" for a
    using arg_cong [OF assms, of chunks] by (simp add: strip_child_def fun_eq_iff)
  have t: "s'\<lparr>chunks := chunks s\<rparr> = s"
    using assms by (cases s; cases s') (simp add: strip_child_def)
  have w: "map_option wipe (chunks s' a) = map_option wipe (chunks s a)" for a
    using arg_cong [OF c [of a], of "map_option wipe"]
    by (simp add: option.map_comp comp_def wipe_def [abs_def])
  show st: "strip_tree s' = strip_tree s"
    unfolding strip_tree_def w using t by (cases s; cases s') simp
  show "par s' = par s"
  proof
    fix a show "par s' a = par s a"
      using arg_cong [OF c [of a], of "map_option tc_parent"]
      by (cases "chunks s a"; cases "chunks s' a") (auto simp: acc)
  qed
  show "chd s' b = chd s b" if "b \<noteq> p"
    using arg_cong [OF c [of b], of "map_option tc_child"] that
    by (cases "chunks s b"; cases "chunks s' b") (auto simp: acc)
  show "live s' = live s" by (rule strip_treeD(5) [OF st])
qed

section \<open>Consequences of the invariant\<close>

lemma heapD: "heap X s ch rf \<Longrightarrow> tree_inv X s ch" "heap X s ch rf \<Longrightarrow> refs_inv X s rf"
  "heap X s ch rf \<Longrightarrow> flags_ok X s"
  by (simp_all add: heap_def)

lemma magic_mask:
  "TALLOC_MAGIC AND (TALLOC_FLAG_FREE OR NOT 0xF) = TALLOC_MAGIC"
  "(TALLOC_MAGIC OR TALLOC_FLAG_LOOP) AND (TALLOC_FLAG_FREE OR NOT 0xF) = TALLOC_MAGIC"
  "TALLOC_MAGIC AND TALLOC_FLAG_LOOP = 0" "TALLOC_MAGIC AND TALLOC_FLAG_FREE = 0"
  "(TALLOC_MAGIC OR TALLOC_FLAG_FREE) AND NOT TALLOC_FLAG_FREE = TALLOC_MAGIC"
  by (simp_all add: TALLOC_MAGIC_def TALLOC_FLAG_FREE_def TALLOC_FLAG_LOOP_def)

text \<open>Every live chunk passes the check of its magic value.\<close>

lemma talloc_chunk_from_ptr_live:
  assumes "flags_ok X s" and "live s a"
  shows "talloc_chunk_from_ptr s (TC_PTR_FROM_CHUNK a) = Inr a"
proof -
  have "fld tc_flags 0 s a = (if a \<in> X then TALLOC_MAGIC OR TALLOC_FLAG_LOOP else TALLOC_MAGIC)"
    using assms by (simp add: flags_ok_def)
  then show ?thesis
    using assms(2) magic_mask(1,2)
    by (simp add: talloc_chunk_from_ptr_def view split: if_splits)
qed

lemma tree_inv_links: "tree_inv X s ch \<Longrightarrow> links X (live s) (nxt s) (prv s) (par s) (chd s) ch"
  by (simp add: tree_inv_def)

lemmas tree_invD = tree_inv_links [THEN linksD(1)] tree_inv_links [THEN linksD(2)]
  tree_inv_links [THEN linksD(3)] tree_inv_links [THEN linksD(4)]
  tree_inv_links [THEN linksD(5)] tree_inv_links [THEN linksD(6)]
  tree_inv_links [THEN linksD(7)] tree_inv_links [THEN linksD(8)]
  tree_inv_links [THEN linksD(9)] tree_inv_links [THEN linksD(10)]
  tree_inv_links [THEN linksD(11)] tree_inv_links [THEN linksD(12)]

section \<open>Unlinking\<close>

text \<open>A first child: the macro removes it and the new first child gets the parent.\<close>

lemma detach_first:
  assumes inv: "tree_inv X s ch" and dec: "ch q = a # ys"
  shows "\<exists>s'. detach s a = Inr s' \<and> tree_inv (insert a X) s' (fremove a ch) \<and>
    strip_tree s' = strip_tree s"
proof -
  note L = tree_inv_links [OF inv] and D = tree_invD [OF inv]
  have a: "a \<in> set (ch q)" and q: "live s q" "q \<noteq> NULL"
    using dec D(1) D(3) [of q] by auto
  have lst: "child.lst q s ([] @ a # ys)"
    using D(5) [of _ q] D(7) [of q] D(9) [of q] D(10) [of q] q dec by (auto simp: child.lst_def)
  obtain s1 where s1: "TLIST_REMOVE (child_ops q) s a = Inr s1" "child.lst q s1 ys"
      "child.frame q (set (a # ys)) s s1"
    using child.TLIST_REMOVE_correct [OF lst] by auto
  have st: "strip_child q s1 = strip_child q s"
    using s1(3) by (simp add: child.frame_def)
  note S = strip_childD [OF st]
  have h1: "chd s1 q = hdd ys NULL" and d1: "dseg (nxt s1) (prv s1) NULL ys NULL"
    and l1: "\<And>y. y \<in> set ys \<Longrightarrow> live s1 y"
    using s1(2) by (auto simp: child.lst_def)
  have cd: "chd s1 = (chd s)(q := hdd ys NULL)"
    using S(3) h1 by (auto simp: fun_eq_iff)
  have out: "nxt s1 b = nxt s b \<and> prv s1 b = prv s b" if "b \<notin> set (ch q)" for b
    using s1(3) that dec by (simp add: child.frame_def)
  have pa: "par s a = q" using D(11) [OF a] dec by simp
  define s2 where "s2 = (if ys = [] then s1 else mod_chunk s1 (hdd ys NULL) (\<lambda>k. k\<lparr>tc_parent := q\<rparr>))"
  have hl: "ys \<noteq> [] \<Longrightarrow> live s1 (hdd ys NULL)" "ys \<noteq> [] \<Longrightarrow> hdd ys NULL \<noteq> NULL"
    using l1 hdd_in [of ys NULL] D(1) S(4) by metis+
  have run: "detach s a = Inr s2"
    using D(5) [OF a] pa q h1 hl S(4)
    by (simp add: detach_def view s1(1) s2_def hdd_conv)
  have "links (insert a X) (live s) (nxt s1) (prv s1) (par s2) ((chd s)(q := hdd ys NULL)) (fremove a ch)"
  proof (rule links_detach [OF L, where xs = "[]" and ys = ys and q = q])
    show "ch q = [] @ a # ys" using dec by simp
    show "dseg (nxt s1) (prv s1) NULL ([] @ ys) NULL" using d1 by simp
    show "nxt s1 b = nxt s b \<and> prv s1 b = prv s b" if "b \<notin> set (ch q)" for b using out [OF that] .
    show "par s2 b = (if [] = [] \<and> ys \<noteq> [] \<and> b = hd ys then q else par s b)" if "b \<noteq> a" for b
      using hl S(2) by (simp add: s2_def view hdd_conv)
    show "(chd s)(q := hdd ys NULL) = (chd s)(q := hdd ([] @ ys) NULL)" by simp
  qed
  moreover have "live s2 = live s" "nxt s2 = nxt s1" "prv s2 = prv s1" "chd s2 = (chd s)(q := hdd ys NULL)"
    using S(4) cd by (simp_all add: s2_def view)
  ultimately have "tree_inv (insert a X) s2 (fremove a ch)"
    by (simp add: tree_inv_def)
  moreover have "strip_tree s2 = strip_tree s"
    using S(1) by (simp add: s2_def view)
  ultimately show ?thesis using run by blast
qed

text \<open>Any other child: its neighbours are linked to each other.\<close>

lemma detach_later:
  assumes inv: "tree_inv X s ch" and dec: "ch q = xs @ a # ys" and ne: "xs \<noteq> []"
  shows "\<exists>s'. detach s a = Inr s' \<and> tree_inv (insert a X) s' (fremove a ch) \<and>
    strip_tree s' = strip_tree s"
proof -
  note L = tree_inv_links [OF inv] and D = tree_invD [OF inv]
  have dist: "distinct (ch q)" and d: "dseg (nxt s) (prv s) NULL (xs @ a # ys) NULL"
    using D(7) [of q] D(10) [of q] dec by simp_all
  have a: "a \<in> set (ch q)" using dec by simp
  have "a \<noteq> hd (ch q)" using dist dec ne by (cases xs) auto
  then have pa: "par s a = NULL" using D(11) [OF a] by simp
  have lnk: "prv s a = lastd xs NULL" "nxt s a = hdd ys NULL"
    using d by (simp_all add: dseg_simps)
  have l: "lastd xs NULL \<in> set (ch q)" "lastd xs NULL \<noteq> NULL"
    using lastd_in [OF ne, of NULL] dseg_nonnull [OF d] dec by auto
  have h: "hdd ys NULL \<in> set (ch q)" "hdd ys NULL \<noteq> NULL" if "ys \<noteq> []"
    using hdd_in [OF that, of NULL] dseg_nonnull [OF d] dec by auto
  define s1 where "s1 = mod_chunk s (lastd xs NULL) (\<lambda>k. k\<lparr>tc_next := hdd ys NULL\<rparr>)"
  define s2 where "s2 = (if ys = [] then s1 else mod_chunk s1 (hdd ys NULL) (\<lambda>k. k\<lparr>tc_prev := lastd xs NULL\<rparr>))"
  have run: "detach s a = Inr s2"
    using D(5) [OF a] D(5) [OF l(1)] D(5) [OF h(1)] pa lnk l(2) h(2)
    by (cases ys) (simp_all add: detach_def view s1_def s2_def)
  have acc2: "live s2 = live s" "par s2 = par s" "chd s2 = chd s"
      "nxt s2 = unlink_nx (nxt s) (lastd xs NULL) (hdd ys NULL)"
      "prv s2 = unlink_nx (prv s) (hdd ys NULL) (lastd xs NULL)"
    using D(5) [OF l(1)] D(5) [OF h(1)] l(2) h(2)
    by (cases ys; simp add: s1_def s2_def view unlink_nx_def)+
  have "links (insert a X) (live s) (nxt s2) (prv s2) (par s) (chd s) (fremove a ch)"
  proof (rule links_detach [OF L dec])
    show "dseg (nxt s2) (prv s2) NULL (xs @ ys) NULL"
      unfolding acc2 using d dist dec by (intro dseg_unlink [where x = a]) auto
    show "nxt s2 b = nxt s b \<and> prv s2 b = prv s b" if "b \<notin> set (ch q)" for b
      using that l(1) h(1) by (cases ys) (auto simp: acc2 unlink_nx_def)
    show "par s b = (if xs = [] \<and> ys \<noteq> [] \<and> b = hd ys then q else par s b)" if "b \<noteq> a" for b
      using ne by simp
    show "chd s = (chd s)(q := hdd (xs @ ys) NULL)"
      using D(9) [of q] D(3) [of q] dec ne by (cases xs) (auto simp: fun_eq_iff)
  qed
  then have "tree_inv (insert a X) s2 (fremove a ch)"
    by (simp add: tree_inv_def acc2)
  moreover have "strip_tree s2 = strip_tree s"
    by (simp add: s1_def s2_def view)
  ultimately show ?thesis using run by blast
qed

lemma detach_root:
  assumes inv: "tree_inv X s ch" and a: "live s a" "a \<notin> X" and no: "\<And>p. a \<notin> set (ch p)"
  shows "detach s a = Inr s \<and> tree_inv (insert a X) s (fremove a ch)"
proof -
  have "par s a = NULL \<and> nxt s a = NULL \<and> prv s a = NULL"
    by (rule tree_invD(12) [OF inv a no])
  then have "detach s a = Inr s"
    using a by (simp add: detach_def view)
  moreover have "fremove a ch = ch"
    using no by (simp add: fremove_def remove1_idem)
  ultimately show ?thesis
    using links_weaken [OF tree_inv_links [OF inv] no] by (simp add: tree_inv_def)
qed

text \<open>The unlinking of any chunk that is not being freed already.\<close>

lemma detach_correct:
  assumes inv: "tree_inv X s ch" and a: "live s a" "a \<notin> X"
  shows "\<exists>s'. detach s a = Inr s' \<and> tree_inv (insert a X) s' (fremove a ch) \<and>
    strip_tree s' = strip_tree s"
proof (cases "\<exists>q. a \<in> set (ch q)")
  case True
  then obtain q xs ys where dec: "ch q = xs @ a # ys" by (meson split_list)
  show ?thesis
  proof (cases "xs = []")
    case True
    with dec detach_first [OF inv] show ?thesis by simp
  next
    case False
    with detach_later [OF inv dec] show ?thesis by simp
  qed
next
  case False
  with detach_root [OF inv a] show ?thesis by blast
qed

lemma notin_fremove: "tree_inv X s ch \<Longrightarrow> a \<notin> set (fremove a ch p)"
  using tree_invD(7) [of X s ch p] by (simp add: fremove_def)

section \<open>Linking below a parent\<close>

text \<open>The last part of \<open>_talloc_steal\<close>.\<close>

lemma attach_correct:
  assumes inv: "tree_inv (insert a X) s ch" and a: "live s a" "a \<notin> X" and q: "live s q"
    and out: "\<And>p. a \<notin> set (ch p)"
  shows "\<exists>s'. attach s a q = Inr s' \<and> tree_inv X s' (fadd q a ch) \<and> strip_tree s' = strip_tree s"
proof -
  note L = tree_inv_links [OF inv] and D = tree_invD [OF inv]
  have cq: "chd s q = hdd (ch q) NULL" using D(9) q by blast
  have a0: "a \<noteq> NULL" using a D(1) by metis
  have hd: "live s (hd (ch q))" "hd (ch q) \<noteq> NULL" "hd (ch q) \<noteq> a" if "ch q \<noteq> []"
    using that D(5) [of "hd (ch q)" q] D(1) out [of q] by (auto simp: acc)
  define s1 where "s1 = mod_chunk s a (\<lambda>c. c\<lparr>tc_parent := q\<rparr>)"
  define s2 where "s2 = (if ch q = [] then s1 else mod_chunk s1 (hd (ch q)) (\<lambda>k. k\<lparr>tc_parent := NULL\<rparr>))"
  have acc2: "live s2 = live s" "nxt s2 = nxt s" "prv s2 = prv s" "chd s2 = chd s"
      "strip_tree s2 = strip_tree s"
    by (simp_all add: s1_def s2_def view)
  have par2: "par s2 b = (if b = a then q else if ch q \<noteq> [] \<and> b = hd (ch q) then NULL else par s b)" for b
    using a hd by (simp add: s1_def s2_def view)
  have "child.lst q s2 (ch q)"
    using D(5) [of _ q] D(7) [of q] D(10) [of q] q cq by (auto simp: child.lst_def acc2)
  then obtain s3 where s3: "TLIST_ADD (child_ops q) s2 a = Inr s3" "child.lst q s3 (a # ch q)"
      "child.frame q (insert a (set (ch q))) s2 s3"
    using child.TLIST_ADD_correct [of q s2 "ch q" a] a out [of q] a0 by (auto simp: acc2)
  have st: "strip_child q s3 = strip_child q s2"
    using s3(3) by (simp add: child.frame_def)
  note S = strip_childD [OF st]
  have "links X (live s) (nxt s3) (prv s3) (par s3) ((chd s)(q := a)) (fadd q a ch)"
  proof (rule links_attach [OF L a q out])
    show "dseg (nxt s3) (prv s3) NULL (a # ch q) NULL"
      using s3(2) unfolding child.lst_def by blast
    show "nxt s3 b = nxt s b \<and> prv s3 b = prv s b" if "b \<notin> insert a (set (ch q))" for b
      using s3(3) that unfolding child.frame_def acc2 by blast
    show "par s3 b = (if b = a then q else if ch q \<noteq> [] \<and> b = hd (ch q) then NULL else par s b)" for b
      by (simp add: S(2) par2)
  qed simp
  moreover have "chd s3 = (chd s)(q := a)"
    using S(3) s3(2) by (auto simp: fun_eq_iff acc2 child.lst_def)
  ultimately have "tree_inv X s3 (fadd q a ch)"
    using S(4) by (simp add: tree_inv_def acc2)
  moreover have "strip_tree s3 = strip_tree s"
    using S(1) acc2 by simp
  moreover have "upd s a (\<lambda>c. c\<lparr>tc_parent := q\<rparr>) = Inr s1"
    using a by (simp add: s1_def view)
  moreover have l1: "live s1 q" using q by (simp add: s1_def view)
  moreover have "(if tc_child (the (chunks s1 q)) \<noteq> NULL
      then upd s1 (tc_child (the (chunks s1 q))) (\<lambda>k. k\<lparr>tc_parent := NULL\<rparr>) else Inr s1) = Inr s2"
    unfolding fields_the(4) [OF l1] using hd cq
    by (cases "ch q") (simp_all add: s1_def s2_def view)
  ultimately show ?thesis
    using s3(1) by (simp add: attach_def bnd_rd split del: if_split)
qed

end
