(* ===== verification/Talloc_Build.thy ===== *)
theory Talloc_Build
  imports Talloc_Ops
begin

unbundle bit_operations_syntax

text \<open>
  The operations that build and rearrange the tree of chunks, as a client sees them:
  \<open>_talloc_steal\<close>, the allocation functions, names, destructors and references keep
  the invariant and have the effect of their abstract forest operation.
\<close>

section \<open>Frames\<close>

definition core :: "talloc_chunk \<Rightarrow> talloc_chunk" where
  "core c = (wipe c)\<lparr>tc_refs := NULL\<rparr>"

text \<open>Outside \<open>A\<close> only links have changed.\<close>

definition same_but :: "addr set \<Rightarrow> tstate \<Rightarrow> tstate \<Rightarrow> bool" where
  "same_but A s s' \<longleftrightarrow>
     (\<forall>a. a \<notin> A \<longrightarrow> map_option core (chunks s' a) = map_option core (chunks s a)) \<and>
     (\<forall>a. a \<notin> A \<longrightarrow> bytes s' (TC_PTR_FROM_CHUNK a) = bytes s (TC_PTR_FROM_CHUNK a)) \<and>
     null_context s' = null_context s \<and> autofree_context s' = autofree_context s"

lemma same_but_refl [simp]: "same_but A s s"
  by (simp add: same_but_def)

lemma same_but_trans: "same_but A s s1 \<Longrightarrow> same_but B s1 s2 \<Longrightarrow> same_but (A \<union> B) s s2"
  by (simp add: same_but_def)

lemma same_but_mono: "same_but A s s' \<Longrightarrow> A \<subseteq> B \<Longrightarrow> same_but B s s'"
  by (auto simp: same_but_def)

lemma same_but_strip_tree:
  assumes "strip_tree s' = strip_tree s"
  shows "same_but A s s'"
proof -
  have "map_option wipe (chunks s' a) = map_option wipe (chunks s a)" for a
    using arg_cong [OF assms, of chunks] by (simp add: strip_tree_def fun_eq_iff)
  from arg_cong [OF this, of "map_option (\<lambda>c. c\<lparr>tc_refs := NULL\<rparr>)"]
  show ?thesis
    by (simp add: same_but_def strip_treeD [OF assms] option.map_comp comp_def core_def [abs_def])
qed

lemma same_but_mod: "same_but {a} s (mod_chunk s a f)"
  by (simp add: same_but_def mod_chunk_def)

lemma same_but_fld:
  assumes "same_but A s s'" and "a \<notin> A" and "\<And>c. g (core c) = g c"
  shows "fld g d s' a = fld g d s a"
proof -
  have "map_option core (chunks s' a) = map_option core (chunks s a)"
    using assms by (simp add: same_but_def)
  from arg_cong [OF this, of "map_option g"] assms(3)
  have "map_option g (chunks s' a) = map_option g (chunks s a)"
    by (simp add: option.map_comp comp_def)
  then show ?thesis
    by (cases "chunks s a"; cases "chunks s' a") (auto simp: acc)
qed

lemma same_but_live: "same_but A s s' \<Longrightarrow> a \<notin> A \<Longrightarrow> live s' a = live s a"
  unfolding same_but_def live_def by (metis option.map_disc_iff)

lemma core_simps [view]:
  "tc_destructor (core c) = tc_destructor c" "tc_name (core c) = tc_name c"
  "tc_size (core c) = tc_size c" "tc_flags (core c) = tc_flags c"
  by (simp_all add: core_def wipe_def)

section \<open>Stealing\<close>

text \<open>
  What \<open>talloc_steal\<close> does to the forest: nothing when the chunk is the new parent
  itself or already its first child, else it becomes the first child.
\<close>

definition fsteal :: "addr \<Rightarrow> addr \<Rightarrow> forest \<Rightarrow> forest" where
  "fsteal q a ch = (if a = q \<or> (ch q \<noteq> [] \<and> hd (ch q) = a) then ch else fadd q a (fremove a ch))"

lemma par_eq_first:
  assumes inv: "tree_inv X s ch" and a: "live s a" "a \<notin> X" and q: "q \<noteq> NULL"
  shows "par s a = q \<longleftrightarrow> ch q \<noteq> [] \<and> hd (ch q) = a"
proof
  assume par: "par s a = q"
  obtain p where p: "a \<in> set (ch p)"
    using tree_invD(12) [OF inv a] par q by blast
  with tree_invD(11) [OF inv p] par q have "p = q" "a = hd (ch p)"
    by (metis (full_types))+
  with p show "ch q \<noteq> [] \<and> hd (ch q) = a" by auto
next
  assume "ch q \<noteq> [] \<and> hd (ch q) = a"
  then show "par s a = q"
    using tree_invD(11) [OF inv, of a q] by (metis hd_in_set)
qed

lemma links_park:
  assumes l: "links (insert a X) lv nx pv pr cd ch" and a: "a \<notin> X" and no: "\<And>p. a \<notin> set (ch p)"
    and nul: "nx' = nx(a := NULL)" "pv' = pv(a := NULL)" "pr' = pr(a := NULL)"
  shows "links X lv nx' pv' pr' cd ch"
proof -
  have ne: "b \<noteq> a" if "b \<in> set (ch p)" for b p using that no by auto
  have "dseg nx' pv' NULL (ch p) NULL" for p
    using linksD(10) [OF l, of p] no [of p] by (simp add: nul dseg_simps)
  then show ?thesis
    using l ne unfolding links_def nul by simp
qed

lemma heap_steal_null:
  assumes h: "heap X s ch rf" and a: "live s a" "a \<notin> X" and null: "null_context s = NULL"
  shows "\<exists>s'. u_talloc_steal s NULL (TC_PTR_FROM_CHUNK a) = Inr (TC_PTR_FROM_CHUNK a, s') \<and>
    heap X s' (fremove a ch) rf \<and> same_but {} s s' \<and> live s' = live s"
proof -
  obtain s1 where s1: "detach s a = Inr s1" "tree_inv (insert a X) s1 (fremove a ch)"
      "strip_tree s1 = strip_tree s"
    using detach_correct [OF heapD(1) [OF h] a] by blast
  let ?f = "\<lambda>c. c\<lparr>tc_parent := NULL, tc_next := NULL, tc_prev := NULL\<rparr>"
  define s2 where "s2 = mod_chunk s1 a ?f"
  have lv: "live s1 = live s" by (rule strip_treeD(5) [OF s1(3)])
  have st: "strip_tree s2 = strip_tree s" by (simp add: s2_def view s1(3))
  have "links X (live s2) (nxt s2) (prv s2) (par s2) (chd s2) (fremove a ch)"
  proof -
    have "links (insert a X) (live s2) (nxt s1) (prv s1) (par s1) (chd s2) (fremove a ch)"
      using tree_inv_links [OF s1(2)] by (simp add: s2_def view)
    then show ?thesis
    proof (rule links_park [OF _ a(2)])
      show "a \<notin> set (fremove a ch p)" for p by (rule notin_fremove [OF heapD(1) [OF h]])
    qed (use a lv in \<open>simp_all add: s2_def view\<close>)
  qed
  then have "heap X s2 (fremove a ch) rf"
    using h strip_tree_refs_inv [OF st] strip_tree_flags_ok [OF st]
    by (simp add: heap_def tree_inv_def)
  moreover have "u_talloc_steal s NULL (TC_PTR_FROM_CHUNK a) = Inr (TC_PTR_FROM_CHUNK a, s2)"
    using a lv s1(1) by (simp add: u_talloc_steal_def null s2_def view
        talloc_chunk_from_ptr_live [OF heapD(3) [OF h]])
  ultimately show ?thesis
    using same_but_strip_tree [OF st] strip_treeD(5) [OF st] by blast
qed

lemma heap_steal:
  assumes h: "heap X s ch rf" and a: "live s a" "a \<notin> X" and q: "live s q"
    and ctx: "(if new_ctx = NULL then null_context s else new_ctx) = TC_PTR_FROM_CHUNK q"
  shows "\<exists>s'. u_talloc_steal s new_ctx (TC_PTR_FROM_CHUNK a) = Inr (TC_PTR_FROM_CHUNK a, s') \<and>
    heap X s' (fsteal q a ch) rf \<and> same_but {} s s' \<and> live s' = live s"
proof -
  have q0: "q \<noteq> NULL" using tree_invD(1) [OF heapD(1) [OF h]] q by auto
  note first = par_eq_first [OF heapD(1) [OF h] a q0]
  note ptr = talloc_chunk_from_ptr_live [OF heapD(3) [OF h]]
  show ?thesis
  proof (cases "a = q \<or> par s a = q")
    case True
    then have "u_talloc_steal s new_ctx (TC_PTR_FROM_CHUNK a) = Inr (TC_PTR_FROM_CHUNK a, s)"
      using a q by (auto simp: u_talloc_steal_def ctx ptr view)
    with True first h show ?thesis
      by (intro exI [of _ s]) (auto simp: fsteal_def)
  next
    case False
    obtain s1 where s1: "detach s a = Inr s1" "tree_inv (insert a X) s1 (fremove a ch)"
        "strip_tree s1 = strip_tree s"
      using detach_correct [OF heapD(1) [OF h] a] by blast
    have lv: "live s1 = live s" by (rule strip_treeD(5) [OF s1(3)])
    obtain s2 where s2: "attach s1 a q = Inr s2" "tree_inv X s2 (fadd q a (fremove a ch))"
        "strip_tree s2 = strip_tree s1"
      using attach_correct [OF s1(2)] a q lv notin_fremove [OF heapD(1) [OF h]] by metis
    have st: "strip_tree s2 = strip_tree s" using s2(3) s1(3) by simp
    have "heap X s2 (fsteal q a ch) rf"
      using s2(2) h False first strip_tree_refs_inv [OF st] strip_tree_flags_ok [OF st]
      by (auto simp: heap_def fsteal_def)
    moreover have "u_talloc_steal s new_ctx (TC_PTR_FROM_CHUNK a) = Inr (TC_PTR_FROM_CHUNK a, s2)"
      using a q False s1(1) s2(1) by (simp add: u_talloc_steal_def ctx ptr bnd_rd fields_the)
    ultimately show ?thesis
      using same_but_strip_tree [OF st] strip_treeD(5) [OF st] by blast
  qed
qed

text \<open>Stealing keeps the ancestry acyclic when the new parent is not below the chunk.\<close>

lemma ranked_fadd:
  assumes r: "ranked ch" and q: "q \<notin> sub ch a"
  shows "ranked (fadd q a ch)"
proof -
  obtain r where r: "\<And>p b. b \<in> set (ch p) \<Longrightarrow> r b < (r p :: nat)"
    using r by (auto simp: ranked_def)
  let ?r = "\<lambda>b. if b \<in> sub ch a then r b else r b + r a + 1"
  have "?r b < ?r p" if "b \<in> set (fadd q a ch p)" for b p
  proof (cases "p = q \<and> b = a")
    case True
    then show ?thesis using q by auto
  next
    case False
    then have b: "b \<in> set (ch p)" using that by (auto simp: fadd_def split: if_splits)
    then have "p \<in> sub ch a \<Longrightarrow> b \<in> sub ch a" by (rule sub_step [rotated])
    then show ?thesis using r [OF b] by auto
  qed
  then show ?thesis unfolding ranked_def by (intro exI [of _ ?r]) blast
qed

lemma ranked_fsteal:
  assumes "ranked ch" and "q \<notin> sub ch a"
  shows "ranked (fsteal q a ch)"
proof -
  have "q \<notin> sub (fremove a ch) a"
    using assms(2) sub_mono [of "fremove a ch" ch a] set_fremove_subset by blast
  then have "ranked (fadd q a (fremove a ch))"
    by (rule ranked_fadd [OF ranked_fremove [OF assms(1)]])
  then show ?thesis using assms(1) by (simp add: fsteal_def)
qed

section \<open>Allocation\<close>

text \<open>A fresh block is a root without children and without references.\<close>

lemma heap_init_block:
  assumes h: "heap X s ch rf" and a: "\<not> live s a" "a \<noteq> NULL" "a \<notin> X"
  shows "heap X (init_block s a n) ch rf" "ch a = []" "a \<notin> set (ch p)"
    "rf a = []" "same_but {a} s (init_block s a n)"
    "live (init_block s a n) = (\<lambda>b. b = a \<or> live s b)"
proof -
  let ?s = "init_block s a n"
  have lv: "live ?s = (\<lambda>b. b = a \<or> live s b)"
    by (auto simp: init_block_def acc fun_eq_iff)
  have other: "fld g d ?s b = fld g d s b" if "b \<noteq> a" for g :: "talloc_chunk \<Rightarrow> 'z" and d b
    using that by (simp add: init_block_def acc)
  have new: "nxt ?s a = NULL" "prv ?s a = NULL" "par ?s a = NULL" "chd ?s a = NULL" "rfs ?s a = NULL"
      "fld tc_destructor DNull ?s a = DNull" "fld tc_flags 0 ?s a = TALLOC_MAGIC"
    by (simp_all add: init_block_def acc new_chunk_def)
  have "links X (live ?s) (nxt ?s) (prv ?s) (par ?s) (chd ?s) ch \<and> ch a = [] \<and> (\<forall>p. a \<notin> set (ch p))"
    by (rule links_fresh [OF tree_inv_links [OF heapD(1) [OF h]] a(1,2)])
      (simp_all add: lv other new disj_commute)
  then have tree: "tree_inv X ?s ch" and ch: "ch a = []" "\<And>p. a \<notin> set (ch p)"
    by (simp_all add: tree_inv_def)
  note R = heapD(2) [OF h, unfolded refs_inv_def]
  have rfa: "rf a = []" using R a(1) by blast
  have no: "TC_PTR_FROM_CHUNK a \<notin> set (rf c)" for c using R a(1) by fastforce
  have dead: "handles s (TC_PTR_FROM_CHUNK a) = None"
  proof (rule ccontr)
    assume "handles s (TC_PTR_FROM_CHUNK a) \<noteq> None"
    then have "hlive s (TC_PTR_FROM_CHUNK a)" by (simp add: hlive_def)
    moreover have "TC_PTR_FROM_CHUNK a \<notin> TC_PTR_FROM_CHUNK ` X" using a(3) by auto
    ultimately show False using R no by blast
  qed
  have hs: "handles ?s = handles s"
    using dead by (auto simp: init_block_def fun_eq_iff)
  have hl: "hlive ?s = hlive s" "hfld g ?s = hfld g s" for g
    using hs by (simp_all add: acc fun_eq_iff)
  have dt: "fld tc_destructor DNull ?s b = fld tc_destructor DNull s b" for b
    using other [of b] new(6) a(1) by (cases "b = a") (simp_all add: acc)
  have rs: "rfs ?s c = hdd (rf c) NULL" if "live ?s c" for c
    using that R other [of c tc_refs NULL] rfa new(5) by (cases "c = a") (auto simp: lv)
  have refs: "refs_inv X ?s rf"
    unfolding refs_inv_def hl dt
  proof (intro conjI)
    show "\<forall>c. \<forall>h\<in>set (rf c). hlive s h \<and> hfld h_ptr s h = TC_PTR_FROM_CHUNK c \<and>
        (\<exists>a'. h = TC_PTR_FROM_CHUNK a' \<and> live ?s a' \<and> a' \<notin> X \<and> fld tc_destructor DNull s a' = DRef)"
      using R unfolding lv by blast
  qed (use R rs in \<open>simp_all add: lv\<close>)
  have flags: "flags_ok X ?s"
    using heapD(3) [OF h] other new(7) a(3) unfolding flags_ok_def lv by (metis (full_types))
  show "heap X ?s ch rf" using tree refs flags by (simp add: heap_def)
  show "ch a = []" "a \<notin> set (ch p)" "rf a = []" using ch rfa by simp_all
  show "same_but {a} s ?s" by (simp add: same_but_def init_block_def)
  show "live ?s = (\<lambda>b. b = a \<or> live s b)" by (rule lv)
qed

text \<open>The linking of a fresh chunk in \<open>__talloc\<close>.\<close>

lemma links_insert:
  assumes inv: "tree_inv X s ch" and a: "live s a" "a \<notin> X" and q: "live s q"
    and out: "\<And>p. a \<notin> set (ch p)"
    and acc': "live s' = live s" "chd s' = (chd s)(q := a)" "nxt s' = (nxt s)(a := hdd (ch q) NULL)"
      "prv s' = (unlink_nx (prv s) (hdd (ch q) NULL) a)(a := NULL)"
      "\<And>b. par s' b = (if b = a then q else if ch q \<noteq> [] \<and> b = hd (ch q) then NULL else par s b)"
  shows "tree_inv X s' (fadd q a ch)"
proof -
  note D = tree_invD [OF inv]
  have L: "links (insert a X) (live s) (nxt s) (prv s) (par s) (chd s) ch"
    by (rule links_weaken [OF tree_inv_links [OF inv] out])
  have "links X (live s) (nxt s') (prv s') (par s') ((chd s)(q := a)) (fadd q a ch)"
  proof (rule links_attach [OF L a q out _ _ acc'(5)])
    show "dseg (nxt s') (prv s') NULL (a # ch q) NULL"
      unfolding acc'(3,4) using D(7) [of q] D(10) [of q] out [of q] D(1) a
      by (intro dseg_push) auto
    show "nxt s' b = nxt s b \<and> prv s' b = prv s b" if "b \<notin> insert a (set (ch q))" for b
      using that hdd_in [of "ch q" NULL] by (cases "ch q") (auto simp: acc'(3,4) unlink_nx_def)
  qed simp
  then show ?thesis by (simp add: tree_inv_def acc')
qed

lemma uu_talloc_child:
  assumes h: "heap X s ch rf" and a: "live s a" "a \<notin> X" and q: "live s q" "q \<noteq> a"
    and out: "\<And>p. a \<notin> set (ch p)"
  shows "\<exists>s'. bnd (rd s q) (\<lambda>p.
        bnd (if tc_child p \<noteq> NULL then
               bnd (upd s (tc_child p) (\<lambda>c. c\<lparr>tc_parent := NULL\<rparr>)) (\<lambda>s.
               bnd (upd s a (\<lambda>c. c\<lparr>tc_next := tc_child p\<rparr>)) (\<lambda>s.
               upd s (tc_child p) (\<lambda>c. c\<lparr>tc_prev := a\<rparr>)))
             else upd s a (\<lambda>c. c\<lparr>tc_next := NULL\<rparr>)) (\<lambda>s.
        bnd (upd s a (\<lambda>c. c\<lparr>tc_parent := q, tc_prev := NULL\<rparr>)) (\<lambda>s.
        bnd (upd s q (\<lambda>c. c\<lparr>tc_child := a\<rparr>)) (\<lambda>s.
        Inr (TC_PTR_FROM_CHUNK a, s))))) = Inr (TC_PTR_FROM_CHUNK a, s') \<and>
      heap X s' (fadd q a ch) rf \<and> strip_tree s' = strip_tree s"
proof -
  note D = tree_invD [OF heapD(1) [OF h]]
  have cq: "chd s q = hdd (ch q) NULL" using D(9) q by blast
  have hd: "live s (hd (ch q))" "hd (ch q) \<noteq> NULL" "hd (ch q) \<noteq> a" if "ch q \<noteq> []"
    using that D(5) [of "hd (ch q)" q] D(1) out [of q] by (auto simp: acc)
  define s1 where "s1 = (if ch q = [] then mod_chunk s a (\<lambda>c. c\<lparr>tc_next := NULL\<rparr>) else
    mod_chunk (mod_chunk (mod_chunk s (hd (ch q)) (\<lambda>c. c\<lparr>tc_parent := NULL\<rparr>))
      a (\<lambda>c. c\<lparr>tc_next := hd (ch q)\<rparr>)) (hd (ch q)) (\<lambda>c. c\<lparr>tc_prev := a\<rparr>))"
  define s2 where "s2 = mod_chunk (mod_chunk s1 a (\<lambda>c. c\<lparr>tc_parent := q, tc_prev := NULL\<rparr>))
    q (\<lambda>c. c\<lparr>tc_child := a\<rparr>)"
  have v: "live s2 = live s" "chd s2 = (chd s)(q := a)" "nxt s2 = (nxt s)(a := hdd (ch q) NULL)"
      "prv s2 = (unlink_nx (prv s) (hdd (ch q) NULL) a)(a := NULL)" "strip_tree s2 = strip_tree s"
    using a q hd by (cases "ch q"; simp add: s1_def s2_def view unlink_nx_def)+
  have p: "par s2 b = (if b = a then q else if ch q \<noteq> [] \<and> b = hd (ch q) then NULL else par s b)" for b
    using a q hd by (cases "ch q") (simp_all add: s1_def s2_def view)
  have "tree_inv X s2 (fadd q a ch)"
    by (rule links_insert [OF heapD(1) [OF h] a q(1) out v(1-4) p])
  then have "heap X s2 (fadd q a ch) rf"
    using h strip_tree_refs_inv [OF v(5)] strip_tree_flags_ok [OF v(5)] by (simp add: heap_def)
  then show ?thesis
    using a q hd cq v(5) by (cases "ch q") (auto simp: view s1_def s2_def)
qed

text \<open>
  \<open>__talloc\<close> returns null and changes nothing, or returns a fresh chunk of the size asked
  for, first child of the context, whose bytes are not initialised.
\<close>

definition alloc_post :: "tstate \<Rightarrow> addr \<Rightarrow> nat \<Rightarrow> forest \<Rightarrow> reftab \<Rightarrow> addr \<Rightarrow> tstate \<Rightarrow> forest \<Rightarrow> bool" where
  "alloc_post s ctx n ch rf a s' ch' \<longleftrightarrow>
     \<not> live s a \<and> a \<noteq> NULL \<and> heap {} s' ch' rf \<and>
     ch' = (if ctx = NULL then ch else fadd (ctx - TC_HDR_SIZE) a ch) \<and>
     live s' = (\<lambda>b. b = a \<or> live s b) \<and> same_but {a} s s' \<and>
     fld tc_size 0 s' a = n \<and> fld tc_destructor DNull s' a = DNull \<and> ch a = [] \<and> rf a = [] \<and>
     (\<forall>p. a \<notin> set (ch p))"

definition ctx_ok :: "tstate \<Rightarrow> addr \<Rightarrow> bool" where
  "ctx_ok s ctx \<longleftrightarrow> ctx = NULL \<or> (\<exists>q. ctx = TC_PTR_FROM_CHUNK q \<and> live s q)"

definition eff_ctx :: "tstate \<Rightarrow> addr \<Rightarrow> addr" where
  "eff_ctx s ctx = (if ctx = NULL then null_context s else ctx)"

lemma heap_uu_talloc:
  assumes h: "heap {} s ch rf" and E: "malloc_ok E" and ctx: "ctx_ok s (eff_ctx s ctx)"
  shows "uu_talloc E s ctx n = Inr (NULL, s) \<or>
    (\<exists>a s'. uu_talloc E s ctx n = Inr (TC_PTR_FROM_CHUNK a, s') \<and> n < MAX_TALLOC_SIZE \<and>
       bytes s' (TC_PTR_FROM_CHUNK a) = Some (replicate n None) \<and> fld tc_name NMagicRef s' a = NNull \<and>
       (\<exists>ch'. alloc_post s (eff_ctx s ctx) n ch rf a s' ch'))"
proof (cases "n \<ge> MAX_TALLOC_SIZE \<or> malloc E s (TC_HDR_SIZE + n) = NULL")
  case True
  then show ?thesis by (auto simp: uu_talloc_def Let_def)
next
  case False
  define a where "a = malloc E s (TC_HDR_SIZE + n)"
  have a: "\<not> live s a" "a \<noteq> NULL" "n < MAX_TALLOC_SIZE"
    using False E by (auto simp: a_def malloc_ok_def)
  let ?s = "init_block s a n"
  have "a \<notin> {}" by simp
  note I = heap_init_block [OF h a(1,2) this]
  have la: "live ?s a" by (simp add: I)
  have new: "fld tc_size 0 ?s a = n" "fld tc_destructor DNull ?s a = DNull"
    "fld tc_name NMagicRef ?s a = NNull" "bytes ?s (TC_PTR_FROM_CHUNK a) = Some (replicate n None)"
    by (simp_all add: init_block_def acc new_chunk_def)
  show ?thesis
  proof (cases "eff_ctx s ctx = NULL")
    case True
    let ?f = "\<lambda>c. c\<lparr>tc_parent := NULL, tc_prev := NULL, tc_next := NULL\<rparr>"
    have "mod_chunk ?s a ?f = ?s"
      by (simp add: mod_chunk_def init_block_def new_chunk_def fun_upd_idem)
    then have run: "uu_talloc E s ctx n = Inr (TC_PTR_FROM_CHUNK a, ?s)"
      using True a la unfolding eff_ctx_def a_def
      by (simp add: uu_talloc_def Let_def view flip: a_def split: if_splits)
    show ?thesis
      using run a I new True by (intro disjI2 exI [of _ a] exI [of _ ?s])
        (simp add: alloc_post_def)
  next
    case False
    then obtain q where q: "eff_ctx s ctx = TC_PTR_FROM_CHUNK q" "live s q"
      using ctx by (auto simp: ctx_ok_def)
    have qa: "live ?s q" "q \<noteq> a" using q a by (auto simp: I)
    note ptr = talloc_chunk_from_ptr_live [OF heapD(3) [OF I(1)] qa(1)]
    obtain s' where s': "uu_talloc E s ctx n = Inr (TC_PTR_FROM_CHUNK a, s')"
        "heap {} s' (fadd q a ch) rf" "strip_tree s' = strip_tree ?s"
      using uu_talloc_child [OF I(1) la _ qa I(3)] q(1) a
      unfolding uu_talloc_def Let_def eff_ctx_def a_def by (auto simp: ptr [unfolded a_def])
    note S = strip_treeD [OF s'(3)]
    have "same_but {a} s s'"
      using same_but_trans [OF I(5) same_but_strip_tree [OF s'(3), of "{a}"]] by simp
    then have "alloc_post s (eff_ctx s ctx) n ch rf a s' (fadd q a ch)"
      using s' a I new q by (simp add: alloc_post_def S wipe_def)
    then show ?thesis
      using s'(1) a(3) new by (intro disjI2 exI [of _ a] exI [of _ s']) (auto simp: S wipe_def)
  qed
qed

end
