(* ===== verification/Talloc_Refs.thy ===== *)
theory Talloc_Refs
  imports Talloc_Build
begin

unbundle bit_operations_syntax

text \<open>
  Reference handles: how the invariant of the reference lists moves when a handle is
  added by \<open>_talloc_reference\<close> and removed by \<open>talloc_reference_destructor\<close>, and what
  the destructor stage of \<open>_talloc_free\<close> does for a chunk without client destructor.
\<close>

section \<open>States that differ in one reference list\<close>

lemma strip_refsD:
  assumes "strip_refs p s' = strip_refs p s"
  shows "(\<And>c v. g (c\<lparr>tc_refs := v\<rparr>) = g c) \<Longrightarrow> fld g d s' = fld g d s"
    and "live s' = live s" and "hlive s' = hlive s" and "hfld h_ptr s' = hfld h_ptr s"
    and "b \<noteq> p \<Longrightarrow> rfs s' b = rfs s b" and "same_but {} s s'"
proof -
  let ?f = "\<lambda>a c. c\<lparr>tc_refs := (if a = p then NULL else tc_refs c)\<rparr>"
  have c: "map_option (?f a) (chunks s' a) = map_option (?f a) (chunks s a)" for a
    using arg_cong [OF assms, of chunks] by (simp add: strip_refs_def fun_eq_iff)
  have h: "map_option (\<lambda>r. r\<lparr>h_next := NULL, h_prev := NULL\<rparr>) (handles s' x) =
      map_option (\<lambda>r. r\<lparr>h_next := NULL, h_prev := NULL\<rparr>) (handles s x)" for x
    using arg_cong [OF assms, of handles] by (simp add: strip_refs_def fun_eq_iff)
  show lv: "live s' = live s"
    using arg_cong [OF c, of "\<lambda>x. x = None"] by (simp add: live_def fun_eq_iff)
  show "hlive s' = hlive s"
    using arg_cong [OF h, of "\<lambda>x. x = None"] by (simp add: hlive_def fun_eq_iff)
  show "hfld h_ptr s' = hfld h_ptr s"
  proof
    fix x show "hfld h_ptr s' x = hfld h_ptr s x"
      using arg_cong [OF h [of x], of "map_option h_ptr"]
      by (cases "handles s x"; cases "handles s' x") (auto simp: acc)
  qed
  show "fld g d s' = fld g d s" if "\<And>c v. g (c\<lparr>tc_refs := v\<rparr>) = g c"
  proof
    fix a show "fld g d s' a = fld g d s a"
      using arg_cong [OF c [of a], of "map_option g"] that
      by (cases "chunks s a"; cases "chunks s' a") (auto simp: acc)
  qed
  show "rfs s' b = rfs s b" if "b \<noteq> p"
    using arg_cong [OF c [of b], of "map_option tc_refs"] that
    by (cases "chunks s b"; cases "chunks s' b") (auto simp: acc)
  have "map_option core (chunks s' a) = map_option core (chunks s a)" for a
    using arg_cong [OF c [of a], of "map_option core"]
    by (simp add: option.map_comp comp_def core_def [abs_def] wipe_def)
  moreover have "bytes s' = bytes s" "null_context s' = null_context s"
      "autofree_context s' = autofree_context s"
    using arg_cong [OF assms, of bytes] arg_cong [OF assms, of null_context]
      arg_cong [OF assms, of autofree_context] by (simp_all add: strip_refs_def)
  ultimately show "same_but {} s s'" by (simp add: same_but_def)
qed

lemma refs_invD:
  assumes "refs_inv X s rf"
  shows "rf c \<noteq> [] \<Longrightarrow> live s c" "live s c \<Longrightarrow> rfs s c = hdd (rf c) NULL"
    "dseg (hfld h_next s) (hfld h_prev s) NULL (rf c) NULL" "distinct (rf c)"
    "h \<in> set (rf c) \<Longrightarrow> hlive s h" "h \<in> set (rf c) \<Longrightarrow> hfld h_ptr s h = TC_PTR_FROM_CHUNK c"
    "h \<in> set (rf c) \<Longrightarrow> \<exists>a. h = TC_PTR_FROM_CHUNK a \<and> live s a \<and> a \<notin> X \<and>
       fld tc_destructor DNull s a = DRef"
    "hlive s h \<Longrightarrow> h \<notin> TC_PTR_FROM_CHUNK ` X \<Longrightarrow> \<exists>c. h \<in> set (rf c)"
    "fld tc_destructor DNull s a = DRef \<Longrightarrow> a \<notin> X \<Longrightarrow> hlive s (TC_PTR_FROM_CHUNK a)"
    "h \<in> set (rf c) \<Longrightarrow> h \<in> set (rf c') \<Longrightarrow> c = c'"
proof -
  note R = assms [unfolded refs_inv_def]
  show "rf c \<noteq> [] \<Longrightarrow> live s c" "live s c \<Longrightarrow> rfs s c = hdd (rf c) NULL"
    "dseg (hfld h_next s) (hfld h_prev s) NULL (rf c) NULL" "distinct (rf c)"
    "h \<in> set (rf c) \<Longrightarrow> hlive s h" "h \<in> set (rf c) \<Longrightarrow> hfld h_ptr s h = TC_PTR_FROM_CHUNK c"
    "fld tc_destructor DNull s a = DRef \<Longrightarrow> a \<notin> X \<Longrightarrow> hlive s (TC_PTR_FROM_CHUNK a)"
    using R by simp_all
  show "h \<in> set (rf c) \<Longrightarrow> \<exists>a. h = TC_PTR_FROM_CHUNK a \<and> live s a \<and> a \<notin> X \<and>
       fld tc_destructor DNull s a = DRef"
    "hlive s h \<Longrightarrow> h \<notin> TC_PTR_FROM_CHUNK ` X \<Longrightarrow> \<exists>c. h \<in> set (rf c)"
    using R by blast+
  show "h \<in> set (rf c) \<Longrightarrow> h \<in> set (rf c') \<Longrightarrow> c = c'"
    using R by (metis TC_PTR_FROM_CHUNK_inject)
qed

section \<open>Adding and removing a handle\<close>

lemma refs_inv_add:
  assumes R: "refs_inv X s rf" and b: "live s b" "b \<notin> X" and t: "live s t"
    and h: "h = TC_PTR_FROM_CHUNK b" "\<And>c. h \<notin> set (rf c)"
    and old: "fld tc_destructor DNull s b \<noteq> DRef"
    and lv: "live s' = live s" and hl: "hlive s' = (\<lambda>x. x = h \<or> hlive s x)"
    and rf': "rfs s' t = h" "\<And>c. c \<noteq> t \<Longrightarrow> rfs s' c = rfs s c"
    and ptr: "hfld h_ptr s' = (hfld h_ptr s)(h := TC_PTR_FROM_CHUNK t)"
    and dt: "fld tc_destructor DNull s' = (fld tc_destructor DNull s)(b := DRef)"
    and seg: "dseg (hfld h_next s') (hfld h_prev s') NULL (h # rf t) NULL"
    and other: "\<And>x. x \<notin> insert h (set (rf t)) \<Longrightarrow>
      hfld h_next s' x = hfld h_next s x \<and> hfld h_prev s' x = hfld h_prev s x"
  shows "refs_inv X s' (rf(t := h # rf t))"
proof -
  note D = refs_invD [OF R]
  have seg': "dseg (hfld h_next s') (hfld h_prev s') NULL (rf c) NULL" if "c \<noteq> t" for c
  proof -
    have "x \<notin> insert h (set (rf t))" if "x \<in> set (rf c)" for x
      using D(10) that \<open>c \<noteq> t\<close> h by blast
    then show ?thesis
      using D(3) [of c] other
      by (subst dseg_cong [where nx' = "hfld h_next s" and pv' = "hfld h_prev s"]) auto
  qed
  show ?thesis
    unfolding refs_inv_def
  proof (intro conjI allI ballI impI)
    show "live s' c" if "(rf(t := h # rf t)) c \<noteq> []" for c
      using that D(1) t by (auto simp: lv split: if_splits)
    show "rfs s' c = hdd ((rf(t := h # rf t)) c) NULL" if "live s' c" for c
      using that rf' D(2) by (simp add: lv)
    show "dseg (hfld h_next s') (hfld h_prev s') NULL ((rf(t := h # rf t)) c) NULL" for c
      using seg seg' by simp
    show "distinct ((rf(t := h # rf t)) c)" for c
      using D(4) h by simp
    show "hlive s' x" "hfld h_ptr s' x = TC_PTR_FROM_CHUNK c"
      if "x \<in> set ((rf(t := h # rf t)) c)" for c x
      using that D(5,6) h by (auto simp: hl ptr split: if_splits)
    show "\<exists>a. x = TC_PTR_FROM_CHUNK a \<and> live s' a \<and> a \<notin> X \<and> fld tc_destructor DNull s' a = DRef"
      if "x \<in> set ((rf(t := h # rf t)) c)" for c x
    proof (cases "x = h")
      case True
      then show ?thesis using b h by (auto simp: lv dt)
    next
      case False
      then have "\<exists>c. x \<in> set (rf c)" using that by (auto split: if_splits)
      then show ?thesis using D(7) by (auto simp: lv dt) metis+
    qed
    show "\<exists>c. x \<in> set ((rf(t := h # rf t)) c)" if x: "hlive s' x" "x \<notin> TC_PTR_FROM_CHUNK ` X" for x
    proof (cases "x = h")
      case False
      then obtain c where "x \<in> set (rf c)" using x D(8) [of x] by (auto simp: hl)
      then show ?thesis by (cases "c = t") (auto intro: exI [of _ c])
    qed (auto intro: exI [of _ t])
    show "hlive s' (TC_PTR_FROM_CHUNK a)" if "fld tc_destructor DNull s' a = DRef" "a \<notin> X" for a
      using that D(9) h by (cases "a = b") (auto simp: hl dt)
  qed
qed

lemma refs_inv_remove:
  assumes R: "refs_inv X s rf" and b: "b \<notin> X" and h: "h = TC_PTR_FROM_CHUNK b"
    and dec: "rf t = xs @ h # ys"
    and lv: "live s' = live s" and hl: "hlive s' = hlive s"
    and rf': "rfs s' t = hdd (xs @ ys) NULL" "\<And>c. c \<noteq> t \<Longrightarrow> rfs s' c = rfs s c"
    and ptr: "hfld h_ptr s' = hfld h_ptr s"
    and dt: "\<And>a. a \<noteq> b \<Longrightarrow> fld tc_destructor DNull s' a = fld tc_destructor DNull s a"
    and seg: "dseg (hfld h_next s') (hfld h_prev s') NULL (xs @ ys) NULL"
    and other: "\<And>x. x \<notin> set (rf t) \<Longrightarrow>
      hfld h_next s' x = hfld h_next s x \<and> hfld h_prev s' x = hfld h_prev s x"
  shows "refs_inv (insert b X) s' (rf(t := xs @ ys))"
proof -
  note D = refs_invD [OF R]
  have ht: "h \<in> set (rf t)" and hno: "h \<notin> set (xs @ ys)"
    using dec D(4) [of t] by auto
  have old: "x \<in> set (rf c) \<and> x \<noteq> h" if "x \<in> set ((rf(t := xs @ ys)) c)" for x c
    using that dec hno D(10) ht by (auto split: if_splits)
  have seg': "dseg (hfld h_next s') (hfld h_prev s') NULL (rf c) NULL" if "c \<noteq> t" for c
  proof -
    have "x \<notin> set (rf t)" if "x \<in> set (rf c)" for x
      using D(10) that \<open>c \<noteq> t\<close> by blast
    then show ?thesis
      using D(3) [of c] other
      by (subst dseg_cong [where nx' = "hfld h_next s" and pv' = "hfld h_prev s"]) auto
  qed
  show ?thesis
    unfolding refs_inv_def
  proof (intro conjI allI ballI impI)
    show "live s' c" if "(rf(t := xs @ ys)) c \<noteq> []" for c
      using that D(1) dec by (auto simp: lv split: if_splits)
    show "rfs s' c = hdd ((rf(t := xs @ ys)) c) NULL" if "live s' c" for c
      using that rf' D(2) by (simp add: lv)
    show "dseg (hfld h_next s') (hfld h_prev s') NULL ((rf(t := xs @ ys)) c) NULL" for c
      using seg seg' by simp
    show "distinct ((rf(t := xs @ ys)) c)" for c
      using D(4) [of t] D(4) [of c] dec by auto
    show "hlive s' x" "hfld h_ptr s' x = TC_PTR_FROM_CHUNK c" if "x \<in> set ((rf(t := xs @ ys)) c)" for c x
      using old [OF that] D(5,6) unfolding hl ptr by blast+
    show "\<exists>a. x = TC_PTR_FROM_CHUNK a \<and> live s' a \<and> a \<notin> insert b X \<and> fld tc_destructor DNull s' a = DRef"
      if x: "x \<in> set ((rf(t := xs @ ys)) c)" for c x
    proof -
      obtain a where "x = TC_PTR_FROM_CHUNK a" "live s a" "a \<notin> X" "fld tc_destructor DNull s a = DRef"
        using old [OF x] D(7) by blast
      moreover have "a \<noteq> b" using x old calculation(1) h by blast
      ultimately show ?thesis by (auto simp: lv dt)
    qed
    show "\<exists>c. x \<in> set ((rf(t := xs @ ys)) c)"
      if x: "hlive s' x" "x \<notin> TC_PTR_FROM_CHUNK ` insert b X" for x
    proof -
      obtain c where c: "x \<in> set (rf c)" using x D(8) [of x] by (auto simp: hl)
      have "x \<noteq> h" using x h by auto
      then show ?thesis using c dec by (intro exI [of _ c]) auto
    qed
    show "hlive s' (TC_PTR_FROM_CHUNK a)"
      if "fld tc_destructor DNull s' a = DRef" "a \<notin> insert b X" for a
      using that D(9) dt by (simp add: hl)
  qed
qed

section \<open>Fields that are not links\<close>

lemma heap_mod_data:
  assumes h: "heap X s ch rf"
    and w: "\<And>c. tc_next (f c) = tc_next c" "\<And>c. tc_prev (f c) = tc_prev c"
      "\<And>c. tc_parent (f c) = tc_parent c" "\<And>c. tc_child (f c) = tc_child c"
      "\<And>c. tc_refs (f c) = tc_refs c" "\<And>c. tc_flags (f c) = tc_flags c"
    and d: "fld tc_destructor DNull s a \<noteq> DRef"
      "fld tc_destructor DNull (mod_chunk s a f) a \<noteq> DRef"
  shows "heap X (mod_chunk s a f) ch rf"
proof -
  have dt: "fld tc_destructor DNull (mod_chunk s a f) b = DRef \<longleftrightarrow> fld tc_destructor DNull s b = DRef" for b
    using d by (cases "b = a") (simp_all add: acc mod_chunk_def)
  show ?thesis
    using h unfolding heap_def tree_inv_def refs_inv_def flags_ok_def
    by (simp add: view w dt)
qed

lemma heap_set_name:
  assumes h: "heap X s ch rf" and a: "live s a"
  shows "u_talloc_set_name_const s (TC_PTR_FROM_CHUNK a) nm =
      Inr (mod_chunk s a (\<lambda>c. c\<lparr>tc_name := nm\<rparr>)) \<and>
    heap X (mod_chunk s a (\<lambda>c. c\<lparr>tc_name := nm\<rparr>)) ch rf"
proof -
  have "heap X (mod_chunk s a (\<lambda>c. c\<lparr>tc_name := nm\<rparr>)) ch rf"
    using h unfolding heap_def tree_inv_def refs_inv_def flags_ok_def by (simp add: view)
  then show ?thesis
    using a by (simp add: u_talloc_set_name_const_def talloc_chunk_from_ptr_live [OF heapD(3) [OF h]] view)
qed

lemma heap_set_destructor:
  assumes h: "heap X s ch rf" and a: "live s a" "fld tc_destructor DNull s a \<noteq> DRef" and d: "d \<noteq> DRef"
  shows "u_talloc_set_destructor s (TC_PTR_FROM_CHUNK a) d =
      Inr (mod_chunk s a (\<lambda>c. c\<lparr>tc_destructor := d\<rparr>)) \<and>
    heap X (mod_chunk s a (\<lambda>c. c\<lparr>tc_destructor := d\<rparr>)) ch rf"
proof -
  have "heap X (mod_chunk s a (\<lambda>c. c\<lparr>tc_destructor := d\<rparr>)) ch rf"
    using a d by (intro heap_mod_data [OF h]) (simp_all add: view)
  then show ?thesis
    using a by (simp add: u_talloc_set_destructor_def talloc_chunk_from_ptr_live [OF heapD(3) [OF h]] view)
qed

lemma alloc_post_mod:
  assumes p: "alloc_post s ctx n ch rf a s' ch'"
    and h: "heap {} (mod_chunk s' a f) ch' rf"
    and f: "\<And>c. tc_size (f c) = tc_size c" "\<And>c. tc_destructor (f c) = tc_destructor c"
  shows "alloc_post s ctx n ch rf a (mod_chunk s' a f) ch'"
proof -
  have "same_but ({a} \<union> {a}) s (mod_chunk s' a f)"
    using p by (intro same_but_trans [OF _ same_but_mod]) (simp add: alloc_post_def)
  then show ?thesis
    using p h by (simp add: alloc_post_def view f)
qed

lemma heap_named_const:
  assumes h: "heap {} s ch rf" and E: "malloc_ok E" and ctx: "ctx_ok s (eff_ctx s ctx)"
  shows "u_talloc_named_const E s ctx n nm = Inr (NULL, s) \<or>
    (\<exists>a s'. u_talloc_named_const E s ctx n nm = Inr (TC_PTR_FROM_CHUNK a, s') \<and> n < MAX_TALLOC_SIZE \<and>
       bytes s' (TC_PTR_FROM_CHUNK a) = Some (replicate n None) \<and> fld tc_name NNull s' a = nm \<and>
       (\<exists>ch'. alloc_post s (eff_ctx s ctx) n ch rf a s' ch'))"
  using heap_uu_talloc [OF h E ctx, of n]
proof (elim disjE exE conjE)
  assume "uu_talloc E s ctx n = Inr (NULL, s)"
  then show ?thesis by (simp add: u_talloc_named_const_def)
next
  fix a s1 ch'
  assume run: "uu_talloc E s ctx n = Inr (TC_PTR_FROM_CHUNK a, s1)" and n: "n < MAX_TALLOC_SIZE"
    and b: "bytes s1 (TC_PTR_FROM_CHUNK a) = Some (replicate n None)"
    and p: "alloc_post s (eff_ctx s ctx) n ch rf a s1 ch'"
  have a: "live s1 a" and h1: "heap {} s1 ch' rf" using p unfolding alloc_post_def by metis+
  note N = heap_set_name [OF h1 a, of nm]
  let ?s = "mod_chunk s1 a (\<lambda>c. c\<lparr>tc_name := nm\<rparr>)"
  have "u_talloc_named_const E s ctx n nm = Inr (TC_PTR_FROM_CHUNK a, ?s)"
    using N by (simp add: u_talloc_named_const_def run)
  moreover have "alloc_post s (eff_ctx s ctx) n ch rf a ?s ch'"
    by (rule alloc_post_mod [OF p]) (use N in simp_all)
  moreover have "fld tc_name NNull ?s a = nm" using a by (simp add: view)
  ultimately show ?thesis
    using n b by (intro disjI2 exI [of _ a] exI [of _ ?s]) (auto simp: view)
qed

section \<open>The destructor stage of \<open>_talloc_free\<close>\<close>

lemma rdrop_single:
  assumes R: "refs_inv X s rf" and b: "rf b = []" and dec: "rf t = xs @ TC_PTR_FROM_CHUNK b # ys"
  shows "rdrop {b} rf = rf(t := xs @ ys)"
proof
  fix p
  have "filter (\<lambda>h. h \<noteq> TC_PTR_FROM_CHUNK b) (xs @ TC_PTR_FROM_CHUNK b # ys) = xs @ ys"
    using refs_invD(4) [OF R, of t] dec by (auto intro!: arg_cong2 [of _ _ _ _ append] filter_True)
  moreover have "TC_PTR_FROM_CHUNK b \<notin> set (rf p)" if "p \<noteq> t"
    using refs_invD(10) [OF R] that dec by (metis in_set_conv_decomp)
  ultimately show "rdrop {b} rf p = (rf(t := xs @ ys)) p"
    using b dec by (auto simp: rdrop_def filter_id_conv)
qed

lemma rdrop_none:
  "refs_inv X s rf \<Longrightarrow> rf b = [] \<Longrightarrow> fld tc_destructor DNull s b \<noteq> DRef \<Longrightarrow> rdrop {b} rf = rf"
  using refs_invD(7) [of X s rf "TC_PTR_FROM_CHUNK b"]
  by (auto simp: rdrop_def fun_eq_iff filter_id_conv)

text \<open>The lvalue \<open>ptr_tc->refs\<close> holds the list of the invariant.\<close>

lemma refs_lst:
  assumes "refs_inv X s rf" and "live s t"
  shows "refs.lst t s (rf t)"
  using refs_invD(2) [OF assms] refs_invD(3,4) [OF assms(1), of t] refs_invD(5) [OF assms(1)] assms(2)
  by (auto simp: refs.lst_def)

lemma destructor_of_reference:
  assumes h: "heap X s ch rf" and c: "live s c" "c \<notin> X" and rc: "rf c = []"
    and d: "fld tc_destructor DNull s c = DRef"
  shows "\<exists>s'. destructor_stage E s c (TC_PTR_FROM_CHUNK c) = Inr (True, s') \<and> tree_inv X s' ch \<and>
    refs_inv (insert c X) s' (rdrop {c} rf) \<and> flags_ok X s' \<and> same_but {c} s s' \<and> live s' = live s"
proof -
  note R = heapD(2) [OF h] and D = refs_invD [OF heapD(2) [OF h]]
  define h where "h = TC_PTR_FROM_CHUNK c"
  have hl: "hlive s h" unfolding h_def by (rule D(9) [OF d c(2)])
  moreover have "h \<notin> TC_PTR_FROM_CHUNK ` X" using c(2) by (auto simp: h_def)
  ultimately obtain t where t: "h \<in> set (rf t)" using D(8) by blast
  then obtain xs ys where dec: "rf t = xs @ h # ys" by (meson split_list)
  have lt: "live s t" using dec D(1) by auto
  have ptr: "hfld h_ptr s h = TC_PTR_FROM_CHUNK t" by (rule D(6) [OF t])
  let ?f = "\<lambda>c. c\<lparr>tc_destructor := DBusy\<rparr>"
  define s1 where "s1 = mod_chunk s c ?f"
  have "refs.lst t s1 (xs @ h # ys)"
    using refs_lst [OF R lt] dec by (simp add: refs.lst_def s1_def view)
  then obtain s2 where s2: "TLIST_REMOVE (refs_ops t) s1 h = Inr s2" "refs.lst t s2 (xs @ ys)"
      "refs.frame t (set (xs @ h # ys)) s1 s2"
    using refs.TLIST_REMOVE_correct by blast
  have st: "strip_refs t s2 = strip_refs t s1"
    using s2(3) by (simp add: refs.frame_def)
  note S = strip_refsD [OF st]
  define s3 where "s3 = mod_chunk s2 c (\<lambda>c. c\<lparr>tc_destructor := DNull\<rparr>)"
  have lv: "live s1 = live s" "live s2 = live s" "live s3 = live s"
    using S(2) by (simp_all add: s1_def s3_def view)
  have flags1: "flags_ok X s1"
    using heapD(3) [OF \<open>heap X s ch rf\<close>] by (simp add: flags_ok_def s1_def view)
  obtain r where r: "rdh s1 h = Inr r" "h_ptr r = TC_PTR_FROM_CHUNK t"
    using ptr hl by (auto simp: s1_def rdh_def hfld_def hlive_def view)
  have "talloc_reference_destructor s1 h = Inr (0, s2)"
    using lt s2(1) lv(1)
    by (simp add: talloc_reference_destructor_def r talloc_chunk_from_ptr_live [OF flags1])
  then have run: "destructor_stage E s c h = Inr (True, s3)"
    using c d lv by (simp add: destructor_stage_def view call_destructor_def s3_def s1_def [symmetric])
  have same: "fld g e s3 = fld g e s"
    if "\<And>c v. g (c\<lparr>tc_refs := v\<rparr>) = g c" "\<And>c v. g (c\<lparr>tc_destructor := v\<rparr>) = g c"
    for g :: "talloc_chunk \<Rightarrow> 'z" and e
    using S(1) [of g] that by (simp add: s3_def s1_def view)
  have "tree_inv X s3 ch"
    using heapD(1) [OF \<open>heap X s ch rf\<close>] by (simp add: tree_inv_def same lv)
  moreover have "flags_ok X s3"
    using heapD(3) [OF \<open>heap X s ch rf\<close>] by (simp add: flags_ok_def same lv)
  moreover have "refs_inv (insert c X) s3 (rf(t := xs @ ys))"
  proof (rule refs_inv_remove [OF R c(2) h_def dec lv(3)])
    show "hlive s3 = hlive s" "hfld h_ptr s3 = hfld h_ptr s"
      using S(3,4) by (simp_all add: s3_def s1_def view)
    show "rfs s3 t = hdd (xs @ ys) NULL"
      using s2(2) by (simp add: refs.lst_def s3_def view)
    show "rfs s3 b = rfs s b" if "b \<noteq> t" for b
      using S(5) [OF that] by (simp add: s3_def s1_def view)
    show "fld tc_destructor DNull s3 a = fld tc_destructor DNull s a" if "a \<noteq> c" for a
      using S(1) [of tc_destructor DNull] that c lv by (simp add: s3_def s1_def view)
    show "dseg (hfld h_next s3) (hfld h_prev s3) NULL (xs @ ys) NULL"
      using s2(2) by (simp add: refs.lst_def s3_def view)
    show "hfld h_next s3 x = hfld h_next s x \<and> hfld h_prev s3 x = hfld h_prev s x" if "x \<notin> set (rf t)" for x
      using s2(3) that dec by (simp add: refs.frame_def s3_def s1_def view)
  qed
  moreover have "same_but {c} s s3"
    using same_but_trans [OF same_but_trans [OF same_but_mod [of c s ?f] S(6) [unfolded s1_def]]
        same_but_mod [of c s2 "\<lambda>c. c\<lparr>tc_destructor := DNull\<rparr>"]]
    by (simp add: s3_def)
  ultimately show ?thesis
    using run lv(3) rdrop_single [OF R rc dec [unfolded h_def]] unfolding h_def by auto
qed

lemma destructor_stage_plain:
  assumes h: "heap X s ch rf" and c: "live s c" "c \<notin> X" and rc: "rf c = []"
    and d: "fld tc_destructor DNull s c \<in> {DNull, DRef}"
  shows "\<exists>s'. destructor_stage E s c (TC_PTR_FROM_CHUNK c) = Inr (True, s') \<and> tree_inv X s' ch \<and>
    refs_inv (insert c X) s' (rdrop {c} rf) \<and> flags_ok X s' \<and> same_but {c} s s' \<and> live s' = live s"
proof (cases "fld tc_destructor DNull s c = DRef")
  case True
  then show ?thesis by (rule destructor_of_reference [OF h c rc])
next
  case False
  have "destructor_stage E s c (TC_PTR_FROM_CHUNK c) = Inr (True, s)"
    using c(1) d False by (simp add: destructor_stage_def view)
  moreover have "refs_inv (insert c X) s rf"
    unfolding refs_inv_def
  proof (intro conjI)
    show "\<forall>b. \<forall>h\<in>set (rf b). hlive s h \<and> hfld h_ptr s h = TC_PTR_FROM_CHUNK b \<and>
        (\<exists>a. h = TC_PTR_FROM_CHUNK a \<and> live s a \<and> a \<notin> insert c X \<and> fld tc_destructor DNull s a = DRef)"
      using refs_invD(5-7) [OF heapD(2) [OF h]] False by (metis insertE)
  qed (use heapD(2) [OF h, unfolded refs_inv_def] in simp_all)
  ultimately show ?thesis
    using h rdrop_none [OF heapD(2) [OF h] rc False] by (auto simp: heap_def)
qed

end
