(* ===== verification/Talloc_Free.thy ===== *)
theory Talloc_Free
  imports Talloc_Refs
begin

unbundle bit_operations_syntax

text \<open>
  \<open>_talloc_free\<close> on a subtree whose chunks are not referenced from anywhere and whose client
  destructors, if any, accept and leave the memory of the allocator alone: it terminates with
  the stated fuel, returns 0, releases exactly the subtree, drops the handles that live in
  it, and keeps the invariant.
\<close>

definition harmless :: "libc \<Rightarrow> talloc_destructor_t \<Rightarrow> bool" where
  "harmless E d \<longleftrightarrow> d \<in> {DNull, DRef} \<or>
     (\<exists>k. d = DUser k \<and> (\<forall>p s. \<exists>r. r \<noteq> -1 \<and> user_dtor E k p s = Inr (r, s)))"

lemma harmless_simps [simp]: "harmless E DNull" "harmless E DRef"
  by (simp_all add: harmless_def)

definition plain :: "libc \<Rightarrow> tstate \<Rightarrow> reftab \<Rightarrow> addr set \<Rightarrow> bool" where
  "plain E s rf S \<longleftrightarrow> (\<forall>a\<in>S. rf a = [] \<and> harmless E (fld tc_destructor DNull s a))"

definition released :: "addr set \<Rightarrow> addr set \<Rightarrow> tstate \<Rightarrow> forest \<Rightarrow> reftab \<Rightarrow> tstate \<Rightarrow> bool" where
  "released X S s ch rf s' \<longleftrightarrow> heap X s' (prune S ch) (rdrop S rf) \<and> same_but S s s' \<and>
     live s' = (\<lambda>a. live s a \<and> a \<notin> S)"

lemma released_trans:
  assumes "released X A s ch rf s1" and "released X B s1 (prune A ch) (rdrop A rf) s2"
  shows "released X (A \<union> B) s ch rf s2"
  using assms same_but_trans [of A s s1 B s2]
  by (auto simp: released_def prune_prune rdrop_rdrop Un_commute fun_eq_iff)

lemma released_none: "heap X s ch rf \<Longrightarrow> released X {} s ch rf s"
  by (simp add: released_def prune_def rdrop_def)

lemma sub_live:
  assumes "tree_inv X s ch" and "live s c"
  shows "sub ch c \<subseteq> {a. live s a}"
proof
  fix a assume "a \<in> sub ch c"
  then show "a \<in> {a. live s a}"
    by (induction rule: sub_induct) (use assms tree_invD(5) [OF assms(1)] in auto)
qed

lemma sub_finite: "tree_inv X s ch \<Longrightarrow> live s c \<Longrightarrow> finite (sub ch c)"
  using finite_subset [OF sub_live] tree_invD(2) by blast

lemma tree_inv_mod:
  "(\<And>c. tc_next (f c) = tc_next c) \<Longrightarrow> (\<And>c. tc_prev (f c) = tc_prev c) \<Longrightarrow>
   (\<And>c. tc_parent (f c) = tc_parent c) \<Longrightarrow> (\<And>c. tc_child (f c) = tc_child c) \<Longrightarrow>
   tree_inv X (mod_chunk s a f) ch = tree_inv X s ch"
  by (simp add: tree_inv_def view)

lemma refs_inv_mod:
  "(\<And>c. tc_refs (f c) = tc_refs c) \<Longrightarrow> (\<And>c. tc_destructor (f c) = tc_destructor c) \<Longrightarrow>
   refs_inv X (mod_chunk s a f) rf = refs_inv X s rf"
  by (simp add: refs_inv_def view)

section \<open>The destructor\<close>

text \<open>Without the chunk, whose destructor is not that of a handle, the references are as before.\<close>

lemma refs_inv_insert:
  assumes r: "refs_inv X s rf" and d: "fld tc_destructor DNull s c \<noteq> DRef"
  shows "refs_inv (insert c X) s rf"
  unfolding refs_inv_def
proof (intro conjI)
  show "\<forall>b. \<forall>h\<in>set (rf b). hlive s h \<and> hfld h_ptr s h = TC_PTR_FROM_CHUNK b \<and>
      (\<exists>a. h = TC_PTR_FROM_CHUNK a \<and> live s a \<and> a \<notin> insert c X \<and> fld tc_destructor DNull s a = DRef)"
    using refs_invD(5-7) [OF r] d by (metis insertE)
qed (use r [unfolded refs_inv_def] in simp_all)

lemma refs_inv_destructor:
  assumes r: "refs_inv (insert c X) s rf"
  shows "refs_inv (insert c X) (mod_chunk s c (\<lambda>c. c\<lparr>tc_destructor := d\<rparr>)) rf"
proof -
  let ?s = "mod_chunk s c (\<lambda>c. c\<lparr>tc_destructor := d\<rparr>)"
  have other: "fld tc_destructor DNull ?s a = fld tc_destructor DNull s a" if "a \<noteq> c" for a
    using that by (simp add: mod_chunk_def acc)
  show ?thesis
    unfolding refs_inv_def
  proof (intro conjI)
    show "\<forall>b. \<forall>h\<in>set (rf b). hlive ?s h \<and> hfld h_ptr ?s h = TC_PTR_FROM_CHUNK b \<and>
        (\<exists>a. h = TC_PTR_FROM_CHUNK a \<and> live ?s a \<and> a \<notin> insert c X \<and> fld tc_destructor DNull ?s a = DRef)"
      using refs_invD(5-7) [OF r] other unfolding view by (metis insertI1)
    show "\<forall>a. fld tc_destructor DNull ?s a = DRef \<longrightarrow> a \<notin> insert c X \<longrightarrow> hlive ?s (TC_PTR_FROM_CHUNK a)"
      using refs_invD(9) [OF r] other unfolding view by (metis insertI1)
  qed (use r [unfolded refs_inv_def] in \<open>simp_all add: view\<close>)
qed

text \<open>\<open>destructor_stage_plain\<close>, with client destructors.\<close>

lemma destructor_stage_harmless:
  assumes h: "heap X s ch rf" and c: "live s c" "c \<notin> X" and rc: "rf c = []"
    and d: "harmless E (fld tc_destructor DNull s c)"
  shows "\<exists>s'. destructor_stage E s c (TC_PTR_FROM_CHUNK c) = Inr (True, s') \<and> tree_inv X s' ch \<and>
    refs_inv (insert c X) s' (rdrop {c} rf) \<and> flags_ok X s' \<and> same_but {c} s s' \<and> live s' = live s"
proof (cases "fld tc_destructor DNull s c \<in> {DNull, DRef}")
  case True
  then show ?thesis by (rule destructor_stage_plain [OF h c rc])
next
  case False
  then obtain k where k: "fld tc_destructor DNull s c = DUser k"
      "\<And>p s. \<exists>r. r \<noteq> -1 \<and> user_dtor E k p s = Inr (r, s)"
    using d by (auto simp: harmless_def)
  let ?s1 = "mod_chunk s c (\<lambda>c. c\<lparr>tc_destructor := DBusy\<rparr>)"
  let ?s2 = "mod_chunk ?s1 c (\<lambda>c. c\<lparr>tc_destructor := DNull\<rparr>)"
  obtain r where r: "r \<noteq> -1" "user_dtor E k (TC_PTR_FROM_CHUNK c) ?s1 = Inr (r, ?s1)" using k(2) by blast
  have "destructor_stage E s c (TC_PTR_FROM_CHUNK c) = Inr (True, ?s2)"
    using c(1) k(1) r by (simp add: destructor_stage_def call_destructor_def view)
  moreover have "refs_inv (insert c X) ?s2 (rdrop {c} rf)"
    using refs_inv_destructor [OF refs_inv_destructor [OF refs_inv_insert [OF heapD(2) [OF h]]]] k(1)
      rdrop_none [OF heapD(2) [OF h] rc] by simp
  moreover have "tree_inv X ?s2 ch" "flags_ok X ?s2"
    using heapD(1,3) [OF h] by (simp_all add: tree_inv_mod flags_ok_def view)
  moreover have "same_but {c} s ?s2"
    using same_but_trans [OF same_but_mod [of c s] same_but_mod [of c ?s1]] by simp
  ultimately show ?thesis by (auto simp: view)
qed

section \<open>Releasing one block\<close>

lemma free_block_correct:
  assumes t: "tree_inv (insert c X) s ch" and ch: "ch c = []"
    and r: "refs_inv (insert c X) s rf" and rc: "rf c = []"
    and f: "\<And>a. live s a \<Longrightarrow> a \<noteq> c \<Longrightarrow>
      fld tc_flags 0 s a = (if a \<in> X then TALLOC_MAGIC OR TALLOC_FLAG_LOOP else TALLOC_MAGIC)"
    and c: "live s c"
  shows "\<exists>s'. free_block s c = Inr s' \<and> heap X s' ch rf \<and> same_but {c} s s' \<and>
    live s' = (\<lambda>a. live s a \<and> a \<noteq> c)"
proof -
  define s' where "s' = s\<lparr>chunks := (chunks s)(c := None),
    handles := (handles s)(TC_PTR_FROM_CHUNK c := None), bytes := (bytes s)(TC_PTR_FROM_CHUNK c := None)\<rparr>"
  have run: "free_block s c = Inr s'"
    using c by (simp add: free_block_def view s'_def)
  have lv: "live s' = (\<lambda>a. live s a \<and> a \<noteq> c)"
    by (auto simp: s'_def live_def fun_eq_iff)
  have other: "fld g d s' a = fld g d s a" if "a \<noteq> c" for g :: "talloc_chunk \<Rightarrow> 'z" and d a
    using that by (simp add: s'_def fld_def)
  have hother: "hfld k s' x = hfld k s x" "hlive s' x = hlive s x" if "x \<noteq> TC_PTR_FROM_CHUNK c" for k x
    using that by (simp_all add: s'_def acc)
  have gone: "\<not> hlive s' (TC_PTR_FROM_CHUNK c)" "fld tc_destructor DNull s' c = DNull"
    by (simp_all add: s'_def acc)
  have "tree_inv X s' ch"
    unfolding tree_inv_def
    by (rule links_release [OF tree_inv_links [OF t] ch]) (auto simp: lv other)
  moreover have "refs_inv X s' rf"
  proof -
    note D = refs_invD [OF r]
    have ne: "x \<noteq> TC_PTR_FROM_CHUNK c" if "x \<in> set (rf p)" for x p
      using D(7) [OF that] by auto
    have nep: "p \<noteq> c" if "rf p \<noteq> []" for p using that rc by auto
    show ?thesis
      unfolding refs_inv_def
    proof (intro conjI allI ballI impI)
      show "live s' p" if "rf p \<noteq> []" for p using D(1) [OF that] nep [OF that] by (simp add: lv)
      show "rfs s' p = hdd (rf p) NULL" if "live s' p" for p using that D(2) by (simp add: lv other)
      show "dseg (hfld h_next s') (hfld h_prev s') NULL (rf p) NULL" for p
        using D(3) [of p] ne [of _ p]
        by (subst dseg_cong [where nx' = "hfld h_next s" and pv' = "hfld h_prev s"]) (auto simp: hother)
      show "distinct (rf p)" for p by (rule D(4))
      show "hlive s' x" "hfld h_ptr s' x = TC_PTR_FROM_CHUNK p" if "x \<in> set (rf p)" for x p
        using D(5,6) [OF that] ne [OF that] by (simp_all add: hother)
      show "\<exists>a. x = TC_PTR_FROM_CHUNK a \<and> live s' a \<and> a \<notin> X \<and> fld tc_destructor DNull s' a = DRef"
        if "x \<in> set (rf p)" for x p
        using D(7) [OF that] by (auto simp: lv other)
      show "\<exists>p. x \<in> set (rf p)" if "hlive s' x" "x \<notin> TC_PTR_FROM_CHUNK ` X" for x
      proof -
        have "x \<noteq> TC_PTR_FROM_CHUNK c" using that gone by auto
        then show ?thesis using that D(8) [of x] hother by auto
      qed
      show "hlive s' (TC_PTR_FROM_CHUNK a)" if "fld tc_destructor DNull s' a = DRef" "a \<notin> X" for a
        using that D(9) [of a] gone(2) by (cases "a = c") (simp_all add: hother other)
    qed
  qed
  moreover have "flags_ok X s'"
    using f other unfolding flags_ok_def lv by (metis (full_types))
  moreover have "same_but {c} s s'"
    by (simp add: same_but_def s'_def)
  ultimately show ?thesis
    using run lv by (auto simp: heap_def)
qed

section \<open>The recursion\<close>

text \<open>What \<open>_talloc_free\<close> does before the loop over the children.\<close>

lemma free_prologue:
  assumes h: "heap X s ch rf" and c: "live s c" "c \<notin> X" and p: "plain E s rf {c}"
  shows "\<exists>s1. u_talloc_free E (Suc n) s (TC_PTR_FROM_CHUNK c) =
        bnd (free_children_loop E n s1 c (TC_PTR_FROM_CHUNK c)) (\<lambda>s.
        bnd (upd s c (\<lambda>c. c\<lparr>tc_flags := tc_flags c OR TALLOC_FLAG_FREE\<rparr>)) (\<lambda>s.
        bnd (free_block s c) (\<lambda>s. Inr (0, s)))) \<and>
      heap (insert c X) s1 (fremove c ch) (rdrop {c} rf) \<and> same_but {c} s s1 \<and> live s1 = live s"
proof -
  have rc: "rf c = []" and d: "harmless E (fld tc_destructor DNull s c)"
    using p by (simp_all add: plain_def)
  have r0: "rfs s c = NULL" using refs_invD(2) [OF heapD(2) [OF h] c(1)] rc by simp
  have f0: "fld tc_flags 0 s c = TALLOC_MAGIC"
    using heapD(3) [OF h] c by (simp add: flags_ok_def)
  obtain s1 where s1: "destructor_stage E s c (TC_PTR_FROM_CHUNK c) = Inr (True, s1)" "tree_inv X s1 ch"
      "refs_inv (insert c X) s1 (rdrop {c} rf)" "flags_ok X s1" "same_but {c} s s1" "live s1 = live s"
    using destructor_stage_harmless [OF h c rc d] by blast
  obtain s2 where s2: "detach s1 c = Inr s2" "tree_inv (insert c X) s2 (fremove c ch)"
      "strip_tree s2 = strip_tree s1"
    using detach_correct [OF s1(2)] c s1(6) by metis
  let ?f = "\<lambda>c. c\<lparr>tc_flags := tc_flags c OR TALLOC_FLAG_LOOP\<rparr>"
  define s3 where "s3 = mod_chunk s2 c ?f"
  have lv: "live s2 = live s" "live s3 = live s"
    using strip_treeD(5) [OF s2(3)] s1(6) by (simp_all add: s3_def view)
  have "flags_ok X s2" using s1(4) strip_tree_flags_ok [OF s2(3)] by simp
  then have "flags_ok (insert c X) s3"
    using c(2) by (auto simp: flags_ok_def s3_def acc mod_chunk_def)
  moreover have "refs_inv (insert c X) s3 (rdrop {c} rf)"
    using s1(3) strip_tree_refs_inv [OF s2(3)] by (simp add: s3_def refs_inv_mod)
  moreover have "tree_inv (insert c X) s3 (fremove c ch)"
    using s2(2) by (simp add: s3_def tree_inv_mod)
  ultimately have "heap (insert c X) s3 (fremove c ch) (rdrop {c} rf)"
    by (simp add: heap_def)
  moreover have "same_but {c} s s3"
    using same_but_trans [OF same_but_trans [OF s1(5) same_but_strip_tree [OF s2(3), of "{}"]]
        same_but_mod [of c s2 ?f]] by (simp add: s3_def)
  moreover have "u_talloc_free E (Suc n) s (TC_PTR_FROM_CHUNK c) =
        bnd (free_children_loop E n s3 c (TC_PTR_FROM_CHUNK c)) (\<lambda>s.
        bnd (upd s c (\<lambda>c. c\<lparr>tc_flags := tc_flags c OR TALLOC_FLAG_FREE\<rparr>)) (\<lambda>s.
        bnd (free_block s c) (\<lambda>s. Inr (0, s))))"
    using c(1) lv by (simp add: talloc_chunk_from_ptr_live [OF heapD(3) [OF h]] bnd_rd fields_the
        r0 f0 magic_mask s1(1) s2(1) upd_live s3_def)
  ultimately show ?thesis using lv(2) by blast
qed

text \<open>And after it.\<close>

lemma free_epilogue:
  assumes h: "heap (insert c X) s ch rf" and c: "live s c" "c \<notin> X" and ch: "ch c = []" and rc: "rf c = []"
  shows "\<exists>s'. bnd (upd s c (\<lambda>c. c\<lparr>tc_flags := tc_flags c OR TALLOC_FLAG_FREE\<rparr>)) (\<lambda>s.
        bnd (free_block s c) (\<lambda>s. Inr (0 :: int, s))) = Inr (0, s') \<and> heap X s' ch rf \<and>
      same_but {c} s s' \<and> live s' = (\<lambda>a. live s a \<and> a \<noteq> c)"
proof -
  let ?f = "\<lambda>c. c\<lparr>tc_flags := tc_flags c OR TALLOC_FLAG_FREE\<rparr>"
  define s1 where "s1 = mod_chunk s c ?f"
  have t: "tree_inv (insert c X) s1 ch" and r: "refs_inv (insert c X) s1 rf"
    using heapD(1,2) [OF h] by (simp_all add: s1_def tree_inv_mod refs_inv_mod)
  have f: "fld tc_flags 0 s1 a = (if a \<in> X then TALLOC_MAGIC OR TALLOC_FLAG_LOOP else TALLOC_MAGIC)"
    if "live s1 a" "a \<noteq> c" for a
    using heapD(3) [OF h] that by (auto simp: flags_ok_def s1_def acc mod_chunk_def)
  obtain s' where s': "free_block s1 c = Inr s'" "heap X s' ch rf" "same_but {c} s1 s'"
      "live s' = (\<lambda>a. live s1 a \<and> a \<noteq> c)"
    using free_block_correct [OF t ch r rc f] c by (auto simp: s1_def view)
  have "same_but {c} s s'"
    using same_but_trans [OF same_but_mod [of c s ?f] s'(3) [unfolded s1_def]] by simp
  then show ?thesis
    using s' c by (auto simp: upd_live s1_def view)
qed

lemma plain_mono: "plain E s rf S \<Longrightarrow> T \<subseteq> S \<Longrightarrow> plain E s rf T"
  by (auto simp: plain_def)

lemma plain_after:
  assumes "plain E s rf T" and "same_but S s s'" and "T \<inter> S = {}"
  shows "plain E s' (rdrop S rf) T"
  using assms same_but_fld [OF assms(2), of _ tc_destructor DNull]
  by (auto simp: plain_def rdrop_def core_simps)

lemma free_main:
  "heap X s ch rf \<Longrightarrow> ranked ch \<Longrightarrow> live s c \<Longrightarrow> c \<notin> X \<Longrightarrow> plain E s rf (sub ch c) \<Longrightarrow>
     2 * card (sub ch c) \<le> n \<Longrightarrow>
     \<exists>s'. u_talloc_free E n s (TC_PTR_FROM_CHUNK c) = Inr (0, s') \<and> released X (sub ch c) s ch rf s'"
  "heap X s ch rf \<Longrightarrow> ranked ch \<Longrightarrow> live s c \<Longrightarrow> plain E s rf (sub ch c - {c}) \<Longrightarrow>
     2 * card (sub ch c - {c}) + 1 \<le> n \<Longrightarrow>
     \<exists>s'. free_children_loop E n s c ptr = Inr s' \<and> released X (sub ch c - {c}) s ch rf s'"
proof (induction n arbitrary: X s ch rf c ptr)
  case 0
  {
    case 1
    then show ?case
      using sub_finite [OF heapD(1) [OF 1(1)] 1(3)] by (auto simp: card_eq_0_iff)
  next
    case 2
    then show ?case by simp
  }
next
  case (Suc n)
  {
    case 1
    note h = 1(1) and rk = 1(2) and c = 1(3,4) and pl = 1(5) and fuel = 1(6)
    define S where "S = sub ch c - {c}"
    have sub: "sub ch c = insert c S" "c \<notin> S" by (auto simp: S_def)
    have fin: "finite S" using sub_finite [OF heapD(1) [OF h] c(1)] by (simp add: S_def)
    obtain s1 where s1: "u_talloc_free E (Suc n) s (TC_PTR_FROM_CHUNK c) =
          bnd (free_children_loop E n s1 c (TC_PTR_FROM_CHUNK c)) (\<lambda>s.
          bnd (upd s c (\<lambda>c. c\<lparr>tc_flags := tc_flags c OR TALLOC_FLAG_FREE\<rparr>)) (\<lambda>s.
          bnd (free_block s c) (\<lambda>s. Inr (0, s))))"
        "heap (insert c X) s1 (fremove c ch) (rdrop {c} rf)" "same_but {c} s s1" "live s1 = live s"
      using free_prologue [OF h c plain_mono [OF pl], of n] by auto
    have S': "sub (fremove c ch) c - {c} = S" by (simp add: sub_fremove_self [OF rk] S_def)
    have "plain E s1 (rdrop {c} rf) S"
      by (rule plain_after [OF plain_mono [OF pl] s1(3)]) (auto simp: S_def)
    then obtain s2 where s2: "free_children_loop E n s1 c (TC_PTR_FROM_CHUNK c) = Inr s2"
        "released (insert c X) S s1 (fremove c ch) (rdrop {c} rf) s2"
      using Suc.IH(2) [OF s1(2) ranked_fremove [OF rk], of c "TC_PTR_FROM_CHUNK c"] c fuel fin sub s1(4)
      by (auto simp: S')
    have chc: "prune S (fremove c ch) = prune (sub ch c) ch"
      unfolding sub(1)
    proof (rule prune_fremove)
      show "distinct (ch p)" for p by (rule tree_invD(7) [OF heapD(1) [OF h]])
      show "set (ch c) \<subseteq> S"
        using sub_ranked [OF rk, of c c] sub_step [OF sub_refl] by (auto simp: S_def)
    qed
    have rfc: "rdrop S (rdrop {c} rf) = rdrop (sub ch c) rf"
      using sub(1) by (simp add: rdrop_rdrop)
    note R = s2(2) [unfolded released_def chc rfc]
    have "live s2 c" using R s1(4) c sub(2) by simp
    moreover have "prune (sub ch c) ch c = []" "rdrop (sub ch c) rf c = []"
      by (simp_all add: prune_def rdrop_def)
    ultimately obtain s3 where s3: "bnd (upd s2 c (\<lambda>c. c\<lparr>tc_flags := tc_flags c OR TALLOC_FLAG_FREE\<rparr>)) (\<lambda>s.
          bnd (free_block s c) (\<lambda>s. Inr (0 :: int, s))) = Inr (0, s3)"
        "heap X s3 (prune (sub ch c) ch) (rdrop (sub ch c) rf)" "same_but {c} s2 s3"
        "live s3 = (\<lambda>a. live s2 a \<and> a \<noteq> c)"
      using free_epilogue [of c X s2] R c(2) by blast
    have "same_but (sub ch c) s s3"
      using same_but_trans [OF same_but_trans [OF s1(3)] s3(3)] R sub(1)
      by (metis Un_commute Un_insert_right insert_absorb2 insert_is_Un sup_bot_right)
    then have "released X (sub ch c) s ch rf s3"
      using s3 R s1(4) sub by (auto simp: released_def fun_eq_iff)
    then show ?case using s1(1) s2(1) s3(1) by simp
  next
    case 2
    note h = 2(1) and rk = 2(2) and c = 2(3) and pl = 2(4) and fuel = 2(5)
    note D = tree_invD [OF heapD(1) [OF h]]
    show ?case
    proof (cases "ch c")
      case Nil
      then have "free_children_loop E (Suc n) s c ptr = Inr s"
        using c D(9) [OF c] by (simp add: bnd_rd fields_the)
      moreover have none: "sub ch c - {c} = {}" using sub_leaf [of ch c] Nil by simp
      ultimately show ?thesis using released_none [OF h] unfolding none by blast
    next
      case (Cons d ds)
      have d: "d \<in> set (ch c)" "live s d" "d \<notin> X" using Cons D(5,6) [of d c] by auto
      have dc: "c \<notin> sub ch d" by (rule sub_ranked [OF rk d(1)])
      have dS: "sub ch d \<subseteq> sub ch c - {c}"
        using dc sub_trans [OF sub_step [where b = c and a = c and ch = ch and c = d]] d(1) by auto
      have fin: "finite (sub ch c)" by (rule sub_finite [OF heapD(1) [OF h] c])
      have hd: "chd s c = d" "d \<noteq> NULL" using D(9) [OF c] Cons D(1) d(2) by auto
      have r0: "rfs s d = NULL"
        using refs_invD(2) [OF heapD(2) [OF h] d(2)] plain_mono [OF pl dS] sub_refl [of d ch]
        by (simp add: plain_def)
      define B where "B = sub ch c - {c} - sub ch d"
      have B: "sub ch d \<union> B = sub ch c - {c}" "sub ch d \<inter> B = {}" using dS by (auto simp: B_def)
      have fB: "finite (sub ch d)" "finite B" using fin dS by (auto simp: B_def intro: finite_subset)
      have card: "card (sub ch c - {c}) = card (sub ch d) + card B"
        using card_Un_disjoint [OF fB B(2)] B(1) by simp
      have pos: "0 < card (sub ch d)"
        using fB(1) by (auto simp: card_gt_0_iff)
      obtain s1 where s1: "u_talloc_free E n s (TC_PTR_FROM_CHUNK d) = Inr (0, s1)"
          "released X (sub ch d) s ch rf s1"
        using Suc.IH(1) [OF h rk d(2,3) plain_mono [OF pl dS]] fuel card by auto
      note R = s1(2) [unfolded released_def]
      have S2: "sub (prune (sub ch d) ch) c - {c} = B"
        by (auto simp: sub_prune [OF dc] B_def)
      have "plain E s1 (rdrop (sub ch d) rf) B"
        using R B by (intro plain_after [OF plain_mono [OF pl]]) auto
      then obtain s2 where s2: "free_children_loop E n s1 c ptr = Inr s2"
          "released X B s1 (prune (sub ch d) ch) (rdrop (sub ch d) rf) s2"
        using Suc.IH(2) [of X s1 "prune (sub ch d) ch" "rdrop (sub ch d) rf" c ptr] R c dc
          ranked_prune [OF rk] fuel card pos by (auto simp: S2)
      have "released X (sub ch c - {c}) s ch rf s2"
        using released_trans [OF s1(2) s2(2)] B(1) by simp
      moreover have "free_children_loop E (Suc n) s c ptr = Inr s2"
        using c d(2) hd s1(1) s2(1) by (simp add: bnd_rd fields_the r0)
      ultimately show ?thesis by blast
    qed
  }
qed

end
