(* ===== verification/Talloc_Walk.thy ===== *)
theory Talloc_Walk
  imports Talloc_Free
begin

unbundle bit_operations_syntax

text \<open>
  The walks towards the root: \<open>talloc_parent_chunk\<close> finds the parent of the invariant's
  forest, \<open>talloc_is_parent\<close> decides reachability in it, with fuel linear in the number
  of live chunks.
\<close>

section \<open>To the first sibling\<close>

lemma first_sibling_root:
  "live s a \<Longrightarrow> prv s a = NULL \<Longrightarrow> 0 < n \<Longrightarrow> first_sibling n s a = Inr a"
  by (cases n) (simp_all add: view)

lemma first_sibling_seg:
  assumes "dseg (nxt s) (prv s) NULL (xs @ a # ys) NULL" and "\<And>x. x \<in> set (xs @ [a]) \<Longrightarrow> live s x"
    and "length xs < n"
  shows "first_sibling n s a = Inr (hd (xs @ [a]))"
  using assms
proof (induction n arbitrary: xs a ys)
  case 0
  then show ?case by simp
next
  case (Suc n)
  have a: "live s a" and p: "prv s a = lastd xs NULL" using Suc.prems by (simp_all add: dseg_simps)
  show ?case
  proof (cases xs rule: rev_exhaust)
    case Nil
    then show ?thesis using a p by (simp add: view)
  next
    case (snoc zs z)
    have "first_sibling n s z = Inr (hd (zs @ [z]))"
      by (rule Suc.IH [of zs z "a # ys"]) (use Suc.prems snoc in auto)
    moreover have "z \<noteq> NULL" using Suc.prems(1) snoc by (simp add: dseg_simps)
    ultimately show ?thesis using a p snoc by (cases zs) (simp_all add: view)
  qed
qed

lemma children_le_live:
  assumes "tree_inv X s ch"
  shows "length (ch p) \<le> card {a. live s a}"
  using card_mono [OF tree_invD(2) [OF assms], of "set (ch p)"] tree_invD(5) [OF assms]
    distinct_card [OF tree_invD(7) [OF assms, of p]] by auto

lemma first_sibling_child:
  assumes t: "tree_inv X s ch" and a: "a \<in> set (ch p)" and n: "card {a. live s a} \<le> n"
  shows "first_sibling n s a = Inr (hd (ch p))"
proof -
  obtain xs ys where dec: "ch p = xs @ a # ys" using split_list [OF a] by blast
  have "first_sibling n s a = Inr (hd (xs @ [a]))"
  proof (rule first_sibling_seg)
    show "dseg (nxt s) (prv s) NULL (xs @ a # ys) NULL" using tree_invD(10) [OF t, of p] dec by simp
    show "live s x" if "x \<in> set (xs @ [a])" for x using tree_invD(5) [OF t, of x p] that dec by auto
    show "length xs < n" using children_le_live [OF t, of p] dec n by simp
  qed
  then show ?thesis using dec by (cases xs) simp_all
qed

section \<open>The parent\<close>

lemma parent_step:
  assumes t: "tree_inv X s ch" and a: "live s a" "a \<notin> X" and n: "card {a. live s a} \<le> n"
  shows "\<exists>b. first_sibling n s a = Inr b \<and> live s b \<and>
    (\<forall>p. a \<in> set (ch p) \<longrightarrow> par s b = p) \<and> ((\<forall>p. a \<notin> set (ch p)) \<longrightarrow> par s b = NULL)"
proof (cases "\<exists>p. a \<in> set (ch p)")
  case True
  then obtain p where p: "a \<in> set (ch p)" by blast
  then have h: "hd (ch p) \<in> set (ch p)" by (cases "ch p") simp_all
  have "par s (hd (ch p)) = p" using tree_invD(11) [OF t h] by simp
  moreover have "q = p" if "a \<in> set (ch q)" for q by (rule tree_invD(8) [OF t that p])
  ultimately show ?thesis
    using first_sibling_child [OF t p n] tree_invD(5) [OF t h] p
    by (intro exI [of _ "hd (ch p)"]) blast
next
  case False
  then have r: "\<And>p. a \<notin> set (ch p)" by blast
  have "0 < card {a. live s a}" using tree_invD(2) [OF t] a(1) by (auto simp: card_gt_0_iff)
  then show ?thesis
    using first_sibling_root [OF a(1), of n] tree_invD(12) [OF t a r] r n a(1) by auto
qed

lemma talloc_parent_chunk_tree:
  assumes h: "heap X s ch rf" and a: "live s a" "a \<notin> X" and n: "card {a. live s a} \<le> n"
  shows "(\<forall>p. a \<in> set (ch p) \<longrightarrow> talloc_parent_chunk n s (TC_PTR_FROM_CHUNK a) = Inr p) \<and>
    ((\<forall>p. a \<notin> set (ch p)) \<longrightarrow> talloc_parent_chunk n s (TC_PTR_FROM_CHUNK a) = Inr NULL)"
proof -
  obtain b where b: "first_sibling n s a = Inr b" "live s b"
      "\<And>p. a \<in> set (ch p) \<Longrightarrow> par s b = p" "(\<And>p. a \<notin> set (ch p)) \<Longrightarrow> par s b = NULL"
    using parent_step [OF heapD(1) [OF h] a n] by blast
  have "talloc_parent_chunk n s (TC_PTR_FROM_CHUNK a) = Inr (par s b)"
    using b(1,2) by (simp add: talloc_parent_chunk_def talloc_chunk_from_ptr_live [OF heapD(3) [OF h] a(1)] view)
  then show ?thesis using b(3,4) by auto
qed

section \<open>Ancestors\<close>

definition ancestors :: "tstate \<Rightarrow> forest \<Rightarrow> addr \<Rightarrow> addr set" where
  "ancestors s ch a = {q. live s q \<and> a \<in> sub ch q}"

lemma sub_last: "a \<in> sub ch q \<Longrightarrow> q = a \<or> (\<exists>x\<in>sub ch q. a \<in> set (ch x))"
  unfolding sub_def mem_Collect_eq by (erule rtranclE) auto

lemma sub_child_cases:
  assumes "tree_inv X s ch" and "a \<in> set (ch p)"
  shows "a \<in> sub ch q \<longleftrightarrow> q = a \<or> p \<in> sub ch q"
proof
  assume "a \<in> sub ch q"
  from sub_last [OF this] show "q = a \<or> p \<in> sub ch q"
    using tree_invD(8) [OF assms(1) _ assms(2)] by blast
next
  assume "q = a \<or> p \<in> sub ch q"
  then show "a \<in> sub ch q" using sub_step [where b = p and c = a and ch = ch] assms(2) by auto
qed

lemma sub_root_cases:
  "(\<And>p. a \<notin> set (ch p)) \<Longrightarrow> a \<in> sub ch q \<longleftrightarrow> q = a"
  using sub_last [of a ch q] by auto

lemma is_parent_loop_tree:
  assumes t: "heap {} s ch rf" and rk: "ranked ch"
  shows "live s a \<Longrightarrow> card {a. live s a} + card (ancestors s ch a) + 1 \<le> n \<Longrightarrow>
    is_parent_loop n s a ptr = Inr (of_truth (\<exists>q. ptr = TC_PTR_FROM_CHUNK q \<and> a \<in> sub ch q))"
proof (induction n arbitrary: a)
  case 0
  then show ?case by simp
next
  case (Suc n)
  note T = tree_invD [OF heapD(1) [OF t]]
  have fin: "finite (ancestors s ch a)" for a
    by (rule finite_subset [OF _ T(2)]) (auto simp: ancestors_def)
  have a0: "a \<noteq> NULL" using T(1) Suc.prems(1) by auto
  have fuel: "card {a. live s a} \<le> n" using Suc.prems(2) by simp
  obtain b where b: "first_sibling n s a = Inr b" "live s b"
      "\<And>p. a \<in> set (ch p) \<Longrightarrow> par s b = p" "(\<And>p. a \<notin> set (ch p)) \<Longrightarrow> par s b = NULL"
    using parent_step [OF heapD(1) [OF t] Suc.prems(1) _ fuel] by blast
  show ?case
  proof (cases "ptr = TC_PTR_FROM_CHUNK a")
    case True
    then show ?thesis using a0 by (auto simp: of_truth_def)
  next
    case False
    have run: "is_parent_loop (Suc n) s a ptr = is_parent_loop n s (par s b) ptr"
      using False a0 b(1,2) by (simp add: view)
    show ?thesis
    proof (cases "\<exists>p. a \<in> set (ch p)")
      case True
      then obtain p where p: "a \<in> set (ch p)" by blast
      note S = sub_child_cases [OF heapD(1) [OF t] p]
      have lp: "live s p" using T(4) [OF p] .
      have "a \<notin> ancestors s ch p"
        using sub_ranked [OF rk p] by (simp add: ancestors_def)
      moreover have "insert a (ancestors s ch p) = ancestors s ch a"
        using S Suc.prems(1) by (auto simp: ancestors_def)
      ultimately have "card (ancestors s ch a) = Suc (card (ancestors s ch p))"
        using card_insert_disjoint [OF fin [of p]] by metis
      then have "is_parent_loop n s p ptr = Inr (of_truth (\<exists>q. ptr = TC_PTR_FROM_CHUNK q \<and> p \<in> sub ch q))"
        using Suc.IH [OF lp] Suc.prems(2) by simp
      moreover have "(\<exists>q. ptr = TC_PTR_FROM_CHUNK q \<and> a \<in> sub ch q) \<longleftrightarrow>
          (\<exists>q. ptr = TC_PTR_FROM_CHUNK q \<and> p \<in> sub ch q)"
        using S False by metis
      ultimately show ?thesis using run b(3) [OF p] by simp
    next
      case none: False
      have "0 < card (ancestors s ch a)" using fin [of a] Suc.prems(1)
        by (auto simp: card_gt_0_iff ancestors_def)
      then have "0 < n" using Suc.prems(2) by simp
      then have "is_parent_loop n s NULL ptr = Inr 0" by (cases n) simp_all
      then show ?thesis
        using run b(4) none sub_root_cases [of a ch] False by (auto simp: of_truth_def)
    qed
  qed
qed

lemma ancestors_le_live: "tree_inv X s ch \<Longrightarrow> card (ancestors s ch a) \<le> card {a. live s a}"
  by (rule card_mono [OF tree_invD(2)]) (auto simp: ancestors_def)

lemma talloc_is_parent_tree:
  assumes h: "heap {} s ch rf" and rk: "ranked ch" and a: "live s a"
    and n: "2 * card {a. live s a} + 1 \<le> n"
  shows "talloc_is_parent n s (TC_PTR_FROM_CHUNK a) ptr =
    Inr (of_truth (\<exists>q. ptr = TC_PTR_FROM_CHUNK q \<and> a \<in> sub ch q))"
  using is_parent_loop_tree [OF h rk a, of n ptr] ancestors_le_live [OF heapD(1) [OF h], of a] n
  by (simp add: talloc_is_parent_def talloc_chunk_from_ptr_live [OF heapD(3) [OF h] a])

end
