(* ===== verification/Talloc_Share.thy ===== *)
theory Talloc_Share
  imports Talloc_Walk
begin

unbundle bit_operations_syntax

text \<open>
  Shared ownership: \<open>_talloc_reference\<close> adds a handle at the front of the reference
  list, \<open>_talloc_free\<close> of a referenced chunk gives up the most recent reference and
  fails, \<open>talloc_unreference\<close> gives up the reference of one parent.
\<close>

section \<open>Adding a reference\<close>

definition with_handle :: "addr \<Rightarrow> addr \<Rightarrow> tstate \<Rightarrow> tstate" where
  "with_handle h ptr s =
     s\<lparr>handles := (handles s)(h \<mapsto> \<lparr>h_next = NULL, h_prev = NULL, h_ptr = ptr\<rparr>)\<rparr>"

lemma with_handle_simps [view]:
  "fld g d (with_handle h ptr s) = fld g d s" "live (with_handle h ptr s) = live s"
  "hlive (with_handle h ptr s) = (\<lambda>x. x = h \<or> hlive s x)"
  "hfld h_ptr (with_handle h ptr s) = (hfld h_ptr s)(h := ptr)"
  "hfld h_next (with_handle h ptr s) = (hfld h_next s)(h := NULL)"
  "hfld h_prev (with_handle h ptr s) = (hfld h_prev s)(h := NULL)"
  "same_but {} s (with_handle h ptr s)"
  by (auto simp: with_handle_def acc fun_eq_iff same_but_def)

lemma link_handle:
  assumes h: "heap {} s ch rf" and b: "live s b" "fld tc_destructor DNull s b = DNull"
    and t: "live s t" and new: "\<And>c. TC_PTR_FROM_CHUNK b \<notin> set (rf c)"
  defines "s1 \<equiv> with_handle (TC_PTR_FROM_CHUNK b) (TC_PTR_FROM_CHUNK t)
      (mod_chunk s b (\<lambda>c. c\<lparr>tc_destructor := DRef\<rparr>))"
  shows "\<exists>s'. TLIST_ADD (refs_ops t) s1 (TC_PTR_FROM_CHUNK b) = Inr s' \<and>
    rdh s' (TC_PTR_FROM_CHUNK b) = Inr (the (handles s' (TC_PTR_FROM_CHUNK b))) \<and>
    h_ptr (the (handles s' (TC_PTR_FROM_CHUNK b))) = TC_PTR_FROM_CHUNK t \<and>
    heap {} s' ch (rf(t := TC_PTR_FROM_CHUNK b # rf t)) \<and> same_but {b} s s' \<and> live s' = live s"
proof -
  define k where "k = TC_PTR_FROM_CHUNK b"
  note D = refs_invD [OF heapD(2) [OF h]]
  have "refs.lst t s1 (rf t)"
    using refs_lst [OF heapD(2) [OF h] t] new [of t] dseg_nonnull [OF D(3) [of t]]
    by (simp add: refs.lst_def s1_def view dseg_upd_nx dseg_upd_pv)
  then obtain s' where s': "TLIST_ADD (refs_ops t) s1 k = Inr s'" "refs.lst t s' (k # rf t)"
      "refs.frame t (insert k (set (rf t))) s1 s'"
    using refs.TLIST_ADD_correct [of t s1 "rf t" k] new [of t] by (auto simp: s1_def k_def view)
  have st: "strip_refs t s' = strip_refs t s1" using s'(3) by (simp add: refs.frame_def)
  note S = strip_refsD [OF st]
  have v: "live s1 = live s" "hlive s1 = (\<lambda>x. x = k \<or> hlive s x)"
      "hfld h_ptr s1 = (hfld h_ptr s)(k := TC_PTR_FROM_CHUNK t)"
      "fld tc_destructor DNull s1 = (fld tc_destructor DNull s)(b := DRef)"
      "rfs s1 = rfs s" "same_but {b} s s1"
    using b(1) same_but_trans [OF same_but_mod [of b s "\<lambda>c. c\<lparr>tc_destructor := DRef\<rparr>"]
        with_handle_simps(7) [of _ k "TC_PTR_FROM_CHUNK t"]]
    by (simp_all add: s1_def k_def view)
  have same: "fld g d s' = fld g d s"
    if "\<And>c v. g (c\<lparr>tc_refs := v\<rparr>) = g c" "\<And>c v. g (c\<lparr>tc_destructor := v\<rparr>) = g c"
    for g :: "talloc_chunk \<Rightarrow> 'z" and d
    using S(1) [of g] that by (simp add: s1_def view)
  have lv: "live s' = live s" using S(2) v(1) by simp
  have "tree_inv {} s' ch" "flags_ok {} s'"
    using heapD(1,3) [OF h] by (simp_all add: tree_inv_def flags_ok_def same lv)
  moreover have "refs_inv {} s' (rf(t := k # rf t))"
  proof (rule refs_inv_add [OF heapD(2) [OF h] b(1) _ t k_def])
    show "dseg (hfld h_next s') (hfld h_prev s') NULL (k # rf t) NULL" "rfs s' t = k"
      using s'(2) by (simp_all add: refs.lst_def)
    show "hfld h_next s' x = hfld h_next s x \<and> hfld h_prev s' x = hfld h_prev s x"
      if "x \<notin> insert k (set (rf t))" for x
    proof -
      have "x \<noteq> k" using that by simp
      moreover have "hfld h_next s' x = hfld h_next s1 x" "hfld h_prev s' x = hfld h_prev s1 x"
        using s'(3) that by (simp_all add: refs.frame_def)
      ultimately show ?thesis by (simp add: s1_def k_def view)
    qed
    show "fld tc_destructor DNull s' = (fld tc_destructor DNull s)(b := DRef)"
      using S(1) [of tc_destructor DNull] v(4) by simp
  qed (use new b S v lv in \<open>simp_all add: k_def\<close>)
  moreover have "same_but {b} s s'"
    using same_but_trans [OF v(6) S(6)] by simp
  moreover have "hlive s' k" "hfld h_ptr s' k = TC_PTR_FROM_CHUNK t" using S(3,4) v(2,3) by simp_all
  then have "rdh s' k = Inr (the (handles s' k))" "h_ptr (the (handles s' k)) = TC_PTR_FROM_CHUNK t"
    by (auto simp: acc)
  ultimately show ?thesis
    using s'(1) lv by (auto simp: heap_def k_def)
qed

definition shared_post :: "tstate \<Rightarrow> addr \<Rightarrow> addr \<Rightarrow> forest \<Rightarrow> reftab \<Rightarrow> addr \<Rightarrow> tstate \<Rightarrow> bool" where
  "shared_post s ctx t ch rf b s' \<longleftrightarrow>
     \<not> live s b \<and> b \<noteq> NULL \<and>
     heap {} s' (if ctx = NULL then ch else fadd (ctx - TC_HDR_SIZE) b ch)
       (rf(t := TC_PTR_FROM_CHUNK b # rf t)) \<and>
     live s' = (\<lambda>a. a = b \<or> live s a) \<and> same_but {b} s s'"

lemma heap_reference:
  assumes h: "heap {} s ch rf" and E: "malloc_ok E" and ctx: "ctx_ok s (eff_ctx s ctx)" and t: "live s t"
  shows "u_talloc_reference E s ctx (TC_PTR_FROM_CHUNK t) = Inr (NULL, s) \<or>
    (\<exists>b s'. u_talloc_reference E s ctx (TC_PTR_FROM_CHUNK t) = Inr (TC_PTR_FROM_CHUNK t, s') \<and>
       shared_post s (eff_ctx s ctx) t ch rf b s')"
  using heap_named_const [OF h E ctx, of sizeof_reference_handle NMagicRef]
proof (elim disjE exE conjE)
  assume "u_talloc_named_const E s ctx sizeof_reference_handle NMagicRef = Inr (NULL, s)"
  then show ?thesis
    by (simp add: u_talloc_reference_def talloc_chunk_from_ptr_live [OF heapD(3) [OF h] t])
next
  fix b s1 ch'
  assume run: "u_talloc_named_const E s ctx sizeof_reference_handle NMagicRef =
      Inr (TC_PTR_FROM_CHUNK b, s1)"
    and p: "alloc_post s (eff_ctx s ctx) sizeof_reference_handle ch rf b s1 ch'"
  note P = p [unfolded alloc_post_def]
  have lv: "live s1 = (\<lambda>a. a = b \<or> live s a)" and h1: "heap {} s1 ch' rf" using P by blast+
  have new: "TC_PTR_FROM_CHUNK b \<notin> set (rf c)" for c
    using refs_invD(7) [OF heapD(2) [OF h], of "TC_PTR_FROM_CHUNK b" c] P by auto
  have b: "live s1 b" "fld tc_destructor DNull s1 b = DNull" "live s1 t" using P t by simp_all
  obtain s' where s': "TLIST_ADD (refs_ops t) (with_handle (TC_PTR_FROM_CHUNK b) (TC_PTR_FROM_CHUNK t)
      (mod_chunk s1 b (\<lambda>c. c\<lparr>tc_destructor := DRef\<rparr>))) (TC_PTR_FROM_CHUNK b) = Inr s'"
      "rdh s' (TC_PTR_FROM_CHUNK b) = Inr (the (handles s' (TC_PTR_FROM_CHUNK b)))"
      "h_ptr (the (handles s' (TC_PTR_FROM_CHUNK b))) = TC_PTR_FROM_CHUNK t"
      "heap {} s' ch' (rf(t := TC_PTR_FROM_CHUNK b # rf t))" "same_but {b} s1 s'" "live s' = live s1"
    using link_handle [OF h1 b new] by blast
  have "u_talloc_reference E s ctx (TC_PTR_FROM_CHUNK t) = Inr (TC_PTR_FROM_CHUNK t, s')"
    using s'(1-3) b
    by (simp add: u_talloc_reference_def talloc_chunk_from_ptr_live [OF heapD(3) [OF h] t] run
        u_talloc_set_destructor_def talloc_chunk_from_ptr_live [OF heapD(3) [OF h1]] upd_live
        with_handle_def Let_def)
  moreover have "same_but {b} s s'"
    using same_but_trans [of "{b}" s s1 "{b}" s'] P s'(5) by simp
  ultimately show ?thesis
    using P s'(4,6) by (auto simp: shared_post_def)
qed

section \<open>Freeing a referenced chunk\<close>

text \<open>
  The handle of the most recent reference is released like any chunk; it is plain as
  long as nobody references the handle itself and nothing hangs below it.
\<close>

lemma free_referenced:
  assumes h: "heap {} s ch rf" and rk: "ranked ch" and t: "live s t" and r: "rf t = TC_PTR_FROM_CHUNK b # hs"
    and leaf: "ch b = []" "rf b = []" and out: "b \<notin> sub ch t"
    and n: "2 * card {a. live s a} + 1 \<le> n"
  shows "\<exists>s'. u_talloc_free E (Suc n) s (TC_PTR_FROM_CHUNK t) = Inr (-1, s') \<and>
    released {} {b} s ch rf s' \<and> live s' t \<and> rdrop {b} rf t = hs"
proof -
  note D = refs_invD [OF heapD(2) [OF h]]
  have hb: "TC_PTR_FROM_CHUNK b \<in> set (rf t)" using r by simp
  have lb: "live s b" and db: "fld tc_destructor DNull s b = DRef" using D(7) [OF hb] by auto
  have rt: "rfs s t = TC_PTR_FROM_CHUNK b" using D(2) [OF t] r by simp
  have "0 < card {a. live s a}" using tree_invD(2) [OF heapD(1) [OF h]] lb by (auto simp: card_gt_0_iff)
  then have n2: "2 * card (sub ch b) \<le> n" using n sub_leaf [where ch = ch and a = b, OF leaf(1)] by simp
  have "plain E s rf (sub ch b)" using sub_leaf [where ch = ch and a = b, OF leaf(1)] leaf db by (simp add: plain_def)
  then obtain s' where s': "u_talloc_free E n s (TC_PTR_FROM_CHUNK b) = Inr (0, s')"
      "released {} (sub ch b) s ch rf s'"
    using free_main(1) [OF h rk lb _ _ n2] by blast
  have rel: "released {} {b} s ch rf s'" using s'(2) sub_leaf [where ch = ch and a = b, OF leaf(1)] by simp
  have bt: "b \<noteq> t" using out by auto
  have par: "talloc_is_parent n s (TC_PTR_FROM_CHUNK b) (TC_PTR_FROM_CHUNK t) = Inr 0"
    using talloc_is_parent_tree [OF h rk lb n] out by (auto simp: of_truth_def)
  have "u_talloc_free E (Suc n) s (TC_PTR_FROM_CHUNK t) = Inr (-1, s')"
    using t s'(1) par rt by (simp add: talloc_chunk_from_ptr_live [OF heapD(3) [OF h] t] view)
  moreover have "live s' t" using rel t bt by (simp add: released_def)
  moreover have "rdrop {b} rf t = hs"
    using bt r D(4) [of t] by (auto simp: rdrop_def filter_id_conv)
  ultimately show ?thesis using rel by blast
qed

text \<open>
  The handle of the only reference lies below the chunk itself: it is released, and then the
  chunk is freed after all.
\<close>

lemma free_referenced_child:
  assumes h: "heap {} s ch rf" and rk: "ranked ch" and t: "live s t" and r: "rf t = [TC_PTR_FROM_CHUNK b]"
    and leaf: "ch b = []" "rf b = []" and below: "b \<in> sub ch t"
    and rest: "\<And>a. a \<in> sub ch t \<Longrightarrow> (a \<noteq> t \<longrightarrow> rf a = []) \<and> harmless E (fld tc_destructor DNull s a)"
    and n: "2 * card {a. live s a} + 1 \<le> n"
  shows "\<exists>s'. u_talloc_free E (Suc n) s (TC_PTR_FROM_CHUNK t) = Inr (0, s') \<and> released {} (sub ch t) s ch rf s'"
proof -
  note D = refs_invD [OF heapD(2) [OF h]]
  have lb: "live s b" and db: "fld tc_destructor DNull s b = DRef" using D(7) [of _ t] r by auto
  have rt: "rfs s t = TC_PTR_FROM_CHUNK b" using D(2) [OF t] r by simp
  have sb: "sub ch b = {b}" by (rule sub_leaf [where ch = ch and a = b, OF leaf(1)])
  have fin: "finite {a. live s a}" using tree_invD(2) [OF heapD(1) [OF h]] .
  have sl: "sub ch t \<subseteq> {a. live s a}" by (rule sub_live [OF heapD(1) [OF h] t])
  have "0 < card {a. live s a}" using fin lb by (auto simp: card_gt_0_iff)
  then have n2: "2 * card (sub ch b) \<le> n" using n sb by simp
  have "plain E s rf (sub ch b)" using sb leaf db by (simp add: plain_def)
  then obtain s1 where s1: "u_talloc_free E n s (TC_PTR_FROM_CHUNK b) = Inr (0, s1)"
      "released {} {b} s ch rf s1"
    using free_main(1) [OF h rk lb _ _ n2] sb by auto
  note R = s1(2) [unfolded released_def]
  have tb: "t \<notin> sub ch b" using sb leaf(2) r by auto
  have st: "sub (prune {b} ch) t = sub ch t - {b}" using sub_prune [OF tb] sb by simp
  have "plain E s1 (rdrop {b} rf) (sub (prune {b} ch) t)"
    unfolding plain_def st
  proof
    fix a assume a: "a \<in> sub ch t - {b}"
    then have "fld tc_destructor DNull s1 a = fld tc_destructor DNull s a"
      using same_but_fld [of "{b}" s s1 a tc_destructor DNull] R by (simp add: core_simps)
    moreover have "rdrop {b} rf a = []" using rest [of a] a r by (cases "a = t") (auto simp: rdrop_def)
    ultimately show "rdrop {b} rf a = [] \<and> harmless E (fld tc_destructor DNull s1 a)" using rest [of a] a by simp
  qed
  moreover have "live s1 t" using R t tb sb by auto
  moreover have "2 * card (sub (prune {b} ch) t) \<le> n"
    unfolding st using n card_mono [OF fin, of "sub ch t - {b}"] sl by force
  ultimately obtain s2 where s2: "u_talloc_free E n s1 (TC_PTR_FROM_CHUNK t) = Inr (0, s2)"
      "released {} (sub ch t - {b}) s1 (prune {b} ch) (rdrop {b} rf) s2"
    using free_main(1) [of "{}" s1 "prune {b} ch" "rdrop {b} rf" t E n] R ranked_prune [OF rk] st by auto
  have "released {} (sub ch t) s ch rf s2"
    using released_trans [OF s1(2) s2(2)] below by (simp add: insert_absorb)
  moreover have "talloc_is_parent n s (TC_PTR_FROM_CHUNK b) (TC_PTR_FROM_CHUNK t) = Inr 1"
    using talloc_is_parent_tree [OF h rk lb n] below by (auto simp: of_truth_def)
  then have "u_talloc_free E (Suc n) s (TC_PTR_FROM_CHUNK t) = Inr (0, s2)"
    using t s1(1) s2(1) rt by (simp add: talloc_chunk_from_ptr_live [OF heapD(3) [OF h] t] view)
  ultimately show ?thesis by blast
qed

end
