(* ===== verification/Talloc_Demo.thy ===== *)
theory Talloc_Demo
  imports Talloc_Share
begin

unbundle bit_operations_syntax

text \<open>
  A small memory and a concrete \<open>malloc\<close>, on which the theorems about the allocator are
  evaluated.  Chunk 1000 is the root; its children are the reference handle 4000 and the
  chunk 2000; below 2000 hangs 3000, below that 5000.  The handle refers to 2000.
\<close>

definition arena :: "tstate \<Rightarrow> nat \<Rightarrow> addr" where
  "arena s n = (case filter (\<lambda>a. chunks s a = None) [6000, 7000, 8000] of [] \<Rightarrow> NULL | a # _ \<Rightarrow> a)"

definition arena_env :: libc where
  "arena_env = \<lparr>malloc = arena, realloc = (\<lambda>s a n. if n < 200 then a else arena s n),
     user_dtor = (\<lambda>k p s. Inr (if k = 0 then -1 else 0, s))\<rparr>"

lemma arena_free: "arena s n = NULL \<or> \<not> live s (arena s n)"
  by (simp add: arena_def live_def split: list.split)

lemma arena_ok: "malloc_ok arena_env" "realloc_ok arena_env"
  using arena_free by (auto simp: malloc_ok_def realloc_ok_def arena_env_def)

definition demo :: tstate where
  "demo = \<lparr>chunks = [
     1000 \<mapsto> (new_chunk 16)\<lparr>tc_child := 4000, tc_name := NConst ''root''\<rparr>,
     4000 \<mapsto> (new_chunk 24)\<lparr>tc_next := 2000, tc_parent := 1000, tc_destructor := DRef,
               tc_name := NMagicRef\<rparr>,
     2000 \<mapsto> (new_chunk 8)\<lparr>tc_prev := 4000, tc_child := 3000, tc_refs := 4080\<rparr>,
     3000 \<mapsto> (new_chunk 4)\<lparr>tc_parent := 2000, tc_child := 5000\<rparr>,
     5000 \<mapsto> (new_chunk 2)\<lparr>tc_parent := 3000\<rparr>],
   handles = [4080 \<mapsto> \<lparr>h_next = NULL, h_prev = NULL, h_ptr = 2080\<rparr>],
   bytes = [1080 \<mapsto> replicate 16 None, 4080 \<mapsto> replicate 24 None, 2080 \<mapsto> replicate 8 None,
     3080 \<mapsto> replicate 4 None, 5080 \<mapsto> replicate 2 None],
   null_context = NULL, autofree_context = NULL\<rparr>"

definition demo_forest :: forest where
  "demo_forest = (\<lambda>_. [])(1000 := [4000, 2000], 2000 := [3000], 3000 := [5000])"

definition demo_refs :: reftab where
  "demo_refs = (\<lambda>_. [])(2000 := [4080])"

lemma demo_live: "live demo = (\<lambda>a. a \<in> {1000, 2000, 3000, 4000, 5000})"
  by (auto simp: live_def demo_def fun_eq_iff)

lemma demo_live_set: "{a. live demo a} = {1000, 2000, 3000, 4000, 5000}"
  by (auto simp: demo_live)

lemma demo_card: "card {a. live demo a} = 5"
  by (simp add: demo_live_set)

lemma demo_ranked: "ranked demo_forest"
  unfolding ranked_def
  by (rule exI [of _ "\<lambda>a. if a = 1000 then 3 else if a = 2000 then 2 else if a = 3000 then 1 else 0"])
    (simp add: demo_forest_def)

lemma demo_fields:
  "nxt demo = (\<lambda>_. NULL)(4000 := 2000)" "prv demo = (\<lambda>_. NULL)(2000 := 4000)"
  "par demo = (\<lambda>_. NULL)(4000 := 1000, 3000 := 2000, 5000 := 3000)"
  "chd demo = (\<lambda>_. NULL)(1000 := 4000, 2000 := 3000, 3000 := 5000)"
  "rfs demo = (\<lambda>_. NULL)(2000 := 4080)"
  "fld tc_destructor DNull demo = (\<lambda>_. DNull)(4000 := DRef)"
  "hlive demo = (\<lambda>h. h = 4080)" "hfld h_ptr demo = (\<lambda>_. NULL)(4080 := 2080)"
  "hfld h_next demo = (\<lambda>_. NULL)" "hfld h_prev demo = (\<lambda>_. NULL)"
  by (auto simp: demo_def acc fun_eq_iff new_chunk_def)

lemma demo_heap: "heap {} demo demo_forest demo_refs"
proof -
  have ptr: "TC_PTR_FROM_CHUNK 2000 = 2080" "TC_PTR_FROM_CHUNK 4000 = 4080"
    by (simp_all add: TC_PTR_FROM_CHUNK_def TC_HDR_SIZE_eq)
  have "tree_inv {} demo demo_forest"
    unfolding tree_inv_def links_def demo_fields demo_live demo_forest_def
    by (intro conjI) (simp_all, auto intro: exI [of _ 1000] exI [of _ 3000])
  moreover have "refs_inv {} demo demo_refs"
    unfolding refs_inv_def demo_fields demo_live demo_refs_def
    by (intro conjI) (auto simp: ptr intro: exI [of _ 4000])
  moreover have "flags_ok {} demo"
    unfolding flags_ok_def demo_live by (simp add: demo_def acc new_chunk_def)
  ultimately show ?thesis by (simp add: heap_def)
qed

lemma demo_sub: "sub demo_forest 3000 = {3000, 5000}" "sub demo_forest 2000 = {2000, 3000, 5000}"
    "sub demo_forest 4000 = {4000}"
proof -
  have c: "demo_forest 2000 = [3000]" "demo_forest 3000 = [5000]" "demo_forest 4000 = []"
      "demo_forest 5000 = []"
    by (simp_all add: demo_forest_def)
  have 5: "sub demo_forest 5000 = {5000}" by (rule sub_leaf) (rule c)
  show "sub demo_forest 4000 = {4000}" by (rule sub_leaf) (rule c)
  show 3: "sub demo_forest 3000 = {3000, 5000}"
    by (subst sub_unfold) (simp add: c 5)
  show "sub demo_forest 2000 = {2000, 3000, 5000}"
    by (subst sub_unfold) (simp add: c 3)
qed

end
