(* ===== verification/Talloc_Props.thy ===== *)
theory Talloc_Props
  imports Talloc_Demo
begin

unbundle bit_operations_syntax

text \<open>
  What a client of the tree operations of \<open>lib/talloc/talloc.c\<close> can rely on, each with
  an instance on the memory of \<open>Talloc_Demo\<close>.
\<close>

lemma demo_addr: "TC_PTR_FROM_CHUNK 1000 = 1080" "TC_PTR_FROM_CHUNK 2000 = 2080"
    "TC_PTR_FROM_CHUNK 3000 = 3080" "TC_PTR_FROM_CHUNK 4000 = 4080" "TC_PTR_FROM_CHUNK 5000 = 5080"
  by (simp_all add: TC_PTR_FROM_CHUNK_def TC_HDR_SIZE_eq)

lemma demo_plain: "plain E demo demo_refs {3000, 5000}" "plain E demo demo_refs {4000}"
  by (simp_all add: plain_def demo_refs_def demo_fields)

lemma demo_ctx: "ctx_ok demo (eff_ctx demo 1080)" "ctx_ok demo (eff_ctx demo 0)"
proof -
  show "ctx_ok demo (eff_ctx demo 1080)"
    unfolding ctx_ok_def by (intro disjI2 exI [of _ 1000]) (simp add: eff_ctx_def demo_addr demo_live)
  show "ctx_ok demo (eff_ctx demo 0)"
    by (simp add: ctx_ok_def eff_ctx_def demo_def)
qed

section \<open>Freeing\<close>

text \<open>
  C1.  \<open>talloc_free\<close> on a chunk whose subtree holds no chunk that is referenced, and whose
  client destructors return anything but -1 and do not touch the memory of the allocator: it
  terminates within fuel linear in the number of chunks of the subtree, returns 0, releases exactly that subtree, takes it out of the sibling list it
  was in, drops the handles that live in it from the reference lists of the survivors,
  leaves everything else as it was and keeps the heap invariant.  The code asks whether a destructor returned -1, where
  the comment above \<open>talloc_free\<close> promises that any result but 0 keeps the memory.
\<close>

theorem talloc_free_subtree:
  assumes "heap {} s ch rf" and "ranked ch" and "live s c" and "plain E s rf (sub ch c)"
    and "2 * card (sub ch c) \<le> n"
  shows "\<exists>s'. talloc_free E n s (TC_PTR_FROM_CHUNK c) = Inr (0, s') \<and>
    heap {} s' (prune (sub ch c) ch) (rdrop (sub ch c) rf) \<and>
    live s' = (\<lambda>a. live s a \<and> a \<notin> sub ch c) \<and> same_but (sub ch c) s s'"
  using free_main(1) [OF assms(1-3) _ assms(4,5)] by (auto simp: talloc_free_def released_def)

theorem talloc_free_subtree_witness:
  "\<exists>s'. talloc_free arena_env 4 demo 3080 = Inr (0, s') \<and>
    live s' = (\<lambda>a. live demo a \<and> a \<notin> {3000, 5000})"
  using talloc_free_subtree [OF demo_heap demo_ranked, of 3000 arena_env 4]
  by (auto simp: demo_live demo_sub demo_plain demo_addr)

text \<open>
  C2.  A client destructor can refuse.  While it runs, the chunk is marked, and a nested
  \<open>talloc_free\<close> of it returns -1 and does nothing; when the destructor returns -1 and has not
  changed the memory itself, so does the call as a whole: the memory is exactly what it was,
  and the destructor is asked again the next time.
\<close>

theorem talloc_free_refused:
  assumes h: "heap {} s ch rf" and c: "live s c" and rc: "rf c = []" and d: "fld tc_destructor DNull s c = DUser k"
    and busy: "busy = mod_chunk s c (\<lambda>k. k\<lparr>tc_destructor := DBusy\<rparr>)"
    and refuse: "user_dtor E k (TC_PTR_FROM_CHUNK c) busy = Inr (-1, busy)"
  shows "talloc_free E (Suc n) busy (TC_PTR_FROM_CHUNK c) = Inr (-1, busy) \<and>
    talloc_free E (Suc n) s (TC_PTR_FROM_CHUNK c) = Inr (-1, s)"
proof
  have fl: "flags_ok {} s" "flags_ok {} busy" using heapD(3) [OF h] by (simp_all add: busy flags_ok_def view)
  have r0: "rfs s c = NULL" using refs_invD(2) [OF heapD(2) [OF h] c] rc by simp
  have f0: "fld tc_flags 0 s c = TALLOC_MAGIC" using heapD(3) [OF h] c by (simp add: flags_ok_def)
  have lb: "live busy c" using c by (simp add: busy view)
  have b: "rfs busy c = NULL" "fld tc_flags 0 busy c = TALLOC_MAGIC" "fld tc_destructor DNull busy c = DBusy"
    using c r0 f0 by (simp_all add: busy view)
  obtain k0 where k0: "chunks s c = Some k0" "tc_destructor k0 = DUser k"
    using c d by (auto simp: acc)
  then have undo: "mod_chunk busy c (\<lambda>x. x\<lparr>tc_destructor := DUser k\<rparr>) = s"
    by (simp add: busy mod_chunk_def fun_upd_idem)
  show "talloc_free E (Suc n) busy (TC_PTR_FROM_CHUNK c) = Inr (-1, busy)"
    using lb b by (simp add: talloc_free_def talloc_chunk_from_ptr_live [OF fl(2)] destructor_stage_def view magic_mask)
  show "talloc_free E (Suc n) s (TC_PTR_FROM_CHUNK c) = Inr (-1, s)"
    using c r0 f0 d lb undo refuse
    by (simp add: talloc_free_def talloc_chunk_from_ptr_live [OF fl(1)] destructor_stage_def call_destructor_def
        view magic_mask flip: busy)
qed

theorem talloc_free_refused_witness:
  "\<exists>s. u_talloc_set_destructor demo 5080 (DUser 0) = Inr s \<and> talloc_free arena_env 1 s 5080 = Inr (-1, s)"
proof -
  let ?s = "mod_chunk demo 5000 (\<lambda>c. c\<lparr>tc_destructor := DUser 0\<rparr>)"
  have l: "live demo 5000" by (simp add: demo_live)
  have nd: "fld tc_destructor DNull demo 5000 \<noteq> DRef" by (simp add: demo_fields)
  have run: "u_talloc_set_destructor demo 5080 (DUser 0) = Inr ?s" and h: "heap {} ?s demo_forest demo_refs"
    using heap_set_destructor [OF demo_heap l nd, of "DUser 0"] by (auto simp: demo_addr)
  have "live ?s 5000" "demo_refs 5000 = []" "fld tc_destructor DNull ?s 5000 = DUser 0"
    using l by (simp_all add: view demo_refs_def)
  from talloc_free_refused [OF h this refl, of arena_env 0] run show ?thesis
    by (auto simp: demo_addr arena_env_def)
qed

text \<open>
  \<open>talloc_free_children\<close> empties a chunk: everything below it is released, the chunk
  itself stays, with no children.
\<close>

theorem talloc_free_children_empties:
  assumes "heap {} s ch rf" and "ranked ch" and "live s c" and "plain E s rf (sub ch c - {c})"
    and "2 * card (sub ch c - {c}) + 1 \<le> n"
  shows "\<exists>s'. talloc_free_children E n s (TC_PTR_FROM_CHUNK c) = Inr s' \<and>
    heap {} s' (prune (sub ch c - {c}) ch) (rdrop (sub ch c - {c}) rf) \<and>
    live s' = (\<lambda>a. live s a \<and> a \<notin> sub ch c - {c}) \<and> same_but (sub ch c - {c}) s s' \<and>
    prune (sub ch c - {c}) ch c = []"
proof -
  have "set (ch c) \<subseteq> sub ch c - {c}"
    using sub_ranked [OF assms(2), of c c] sub_step [where b = c and a = c and ch = ch] by auto
  then have "prune (sub ch c - {c}) ch c = []" by (auto simp: prune_def filter_empty_conv)
  then show ?thesis
    using free_main(2) [OF assms, of "TC_PTR_FROM_CHUNK c"] assms(3)
    by (auto simp: talloc_free_children_def released_def talloc_chunk_from_ptr_live [OF heapD(3) [OF assms(1)]])
qed

theorem talloc_free_children_empties_witness:
  "\<exists>s'. talloc_free_children arena_env 5 demo 2080 = Inr s' \<and>
    live s' = (\<lambda>a. live demo a \<and> a \<notin> {3000, 5000})"
proof -
  have s: "sub demo_forest 2000 - {2000} = {3000, 5000}" by (auto simp: demo_sub)
  show ?thesis
    using talloc_free_children_empties [OF demo_heap demo_ranked, of 2000 arena_env 5]
    by (auto simp: demo_live s demo_plain demo_addr)
qed

text \<open>
  C3.  What \<open>talloc_free\<close> does to a chunk that is referenced, when the handle of the most
  recent reference is a leaf that nobody references.  When the handle lies outside the subtree of
  the chunk, only the handle is released: the call returns -1 and the chunk lives on with one
  reference fewer.  When it lies inside, it is the only reference, and nothing else in the subtree
  is referenced or has a destructor that refuses, the chunk is freed with its whole subtree and
  the call returns 0.
\<close>

theorem talloc_free_referenced:
  assumes "heap {} s ch rf" and "ranked ch" and "live s t" and "rf t = TC_PTR_FROM_CHUNK b # hs"
    and "ch b = []" and "rf b = []" and "2 * card {a. live s a} + 2 \<le> n"
  shows "(b \<notin> sub ch t \<longrightarrow>
     (\<exists>s'. talloc_free E n s (TC_PTR_FROM_CHUNK t) = Inr (-1, s') \<and>
        heap {} s' (prune {b} ch) (rdrop {b} rf) \<and> rdrop {b} rf t = hs \<and> live s' t \<and>
        live s' = (\<lambda>a. live s a \<and> a \<notin> {b}) \<and> same_but {b} s s')) \<and>
    (b \<in> sub ch t \<and> hs = [] \<and>
       (\<forall>a\<in>sub ch t. (a \<noteq> t \<longrightarrow> rf a = []) \<and> harmless E (fld tc_destructor DNull s a)) \<longrightarrow>
     (\<exists>s'. talloc_free E n s (TC_PTR_FROM_CHUNK t) = Inr (0, s') \<and>
        heap {} s' (prune (sub ch t) ch) (rdrop (sub ch t) rf) \<and>
        live s' = (\<lambda>a. live s a \<and> a \<notin> sub ch t) \<and> same_but (sub ch t) s s'))"
proof -
  obtain m where m: "n = Suc m" using assms(7) by (cases n) simp_all
  then have fuel: "2 * card {a. live s a} + 1 \<le> m" using assms(7) by simp
  show ?thesis
    unfolding talloc_free_def m
  proof (intro conjI impI; (elim conjE)?)
    assume "b \<notin> sub ch t"
    from free_referenced [OF assms(1-6) this fuel, of E]
    show "\<exists>s'. u_talloc_free E (Suc m) s (TC_PTR_FROM_CHUNK t) = Inr (-1, s') \<and>
        heap {} s' (prune {b} ch) (rdrop {b} rf) \<and> rdrop {b} rf t = hs \<and> live s' t \<and>
        live s' = (\<lambda>a. live s a \<and> a \<notin> {b}) \<and> same_but {b} s s'"
      unfolding released_def by blast
  next
    assume b: "b \<in> sub ch t" "hs = []"
      and rest: "\<forall>a\<in>sub ch t. (a \<noteq> t \<longrightarrow> rf a = []) \<and> harmless E (fld tc_destructor DNull s a)"
    from free_referenced_child [OF assms(1-4) [unfolded b(2)] assms(5,6) b(1) bspec [OF rest] fuel]
    show "\<exists>s'. u_talloc_free E (Suc m) s (TC_PTR_FROM_CHUNK t) = Inr (0, s') \<and>
        heap {} s' (prune (sub ch t) ch) (rdrop (sub ch t) rf) \<and>
        live s' = (\<lambda>a. live s a \<and> a \<notin> sub ch t) \<and> same_but (sub ch t) s s'"
      unfolding released_def by blast
  qed
qed

theorem talloc_free_referenced_witness:
  "(\<exists>s'. talloc_free arena_env 12 demo 2080 = Inr (-1, s') \<and>
      live s' 2000 \<and> live s' = (\<lambda>a. live demo a \<and> a \<notin> {4000})) \<and>
   (\<exists>s s'. u_talloc_steal demo 2080 4080 = Inr (4080, s) \<and> talloc_free arena_env 12 s 2080 = Inr (0, s') \<and>
      live s' = (\<lambda>a. a = 1000))"
proof
  show "\<exists>s'. talloc_free arena_env 12 demo 2080 = Inr (-1, s') \<and>
      live s' 2000 \<and> live s' = (\<lambda>a. live demo a \<and> a \<notin> {4000})"
    using talloc_free_referenced [OF demo_heap demo_ranked, of 2000 4000 "[]" 12 arena_env]
    by (simp add: demo_live demo_card demo_sub demo_refs_def demo_forest_def demo_addr flip: demo_live)
       (auto simp: demo_live demo_sub [unfolded demo_forest_def])
next
  let ?ch = "fsteal 2000 4000 demo_forest"
  obtain s where s: "u_talloc_steal demo 2080 4080 = Inr (4080, s)" "heap {} s ?ch demo_refs"
      "same_but {} demo s" "live s = live demo"
    using heap_steal [OF demo_heap, of 4000 2000 2080] by (auto simp: demo_live demo_addr)
  have ch: "?ch = (\<lambda>_. [])(1000 := [2000], 2000 := [4000, 3000], 3000 := [5000])"
    by (auto simp: fsteal_def fadd_def fremove_def demo_forest_def fun_eq_iff)
  have leaf: "sub ?ch 4000 = {4000}" "sub ?ch 5000 = {5000}" by (rule sub_leaf, simp add: ch)+
  have 3: "sub ?ch 3000 = {3000, 5000}" using leaf by (subst sub_unfold) (simp add: ch)
  have 2: "sub ?ch 2000 = {2000, 4000, 3000, 5000}" using leaf 3 by (subst sub_unfold) (auto simp: ch)
  have rk: "ranked ?ch" by (rule ranked_fsteal [OF demo_ranked]) (simp add: demo_sub)
  have pre: "live s 2000" "demo_refs 2000 = TC_PTR_FROM_CHUNK 4000 # []" "?ch 4000 = []" "demo_refs 4000 = []"
      "2 * card {a. live s a} + 2 \<le> 12"
    by (simp_all add: s(4) demo_card) (simp_all add: demo_live demo_refs_def demo_addr ch)
  have "harmless arena_env (fld tc_destructor DNull s a)" for a
    using same_but_fld [OF s(3), of a tc_destructor DNull] by (simp add: core_simps demo_fields)
  then have "4000 \<in> sub ?ch 2000 \<and> [] = ([] :: addr list) \<and>
      (\<forall>a\<in>sub ?ch 2000. (a \<noteq> 2000 \<longrightarrow> demo_refs a = []) \<and> harmless arena_env (fld tc_destructor DNull s a))"
    by (simp add: 2 demo_refs_def)
  from conjunct2 [OF talloc_free_referenced [OF s(2) rk pre], THEN mp, OF this]
  obtain s' where "talloc_free arena_env 12 s 2080 = Inr (0, s')" "live s' = (\<lambda>a. live s a \<and> a \<notin> sub ?ch 2000)"
    by (auto simp: demo_addr)
  moreover have "(\<lambda>a. live s a \<and> a \<notin> sub ?ch 2000) = (\<lambda>a. a = 1000)"
    unfolding s(4) demo_live 2 by (rule ext) auto
  ultimately show "\<exists>s s'. u_talloc_steal demo 2080 4080 = Inr (4080, s) \<and> talloc_free arena_env 12 s 2080 = Inr (0, s') \<and>
      live s' = (\<lambda>a. a = 1000)"
    using s(1) by metis
qed

section \<open>Building\<close>

text \<open>
  C4.  An allocation fails without any effect, or returns a chunk that was not in use,
  with the size and the name asked for and uninitialised bytes, as the first child of the
  context (of the null context when none is given, if that is tracked); nothing else
  changes.
\<close>

theorem talloc_named_const_allocates:
  assumes "heap {} s ch rf" and "malloc_ok E" and "ctx_ok s (eff_ctx s ctx)"
  shows "talloc_named_const E s ctx n nm = Inr (NULL, s) \<or>
    (\<exists>a s'. talloc_named_const E s ctx n nm = Inr (TC_PTR_FROM_CHUNK a, s') \<and> n < MAX_TALLOC_SIZE \<and>
       \<not> live s a \<and> live s' = (\<lambda>b. b = a \<or> live s b) \<and> same_but {a} s s' \<and>
       heap {} s' (if eff_ctx s ctx = NULL then ch else fadd (eff_ctx s ctx - TC_HDR_SIZE) a ch) rf \<and>
       fld tc_size 0 s' a = n \<and> fld tc_name NNull s' a = nm \<and>
       bytes s' (TC_PTR_FROM_CHUNK a) = Some (replicate n None))"
  using heap_named_const [OF assms, of n nm]
  unfolding talloc_named_const_def alloc_post_def by blast

theorem talloc_named_const_allocates_witness:
  "\<exists>a s'. talloc_named_const arena_env demo 1080 32 (NConst ''x'') = Inr (TC_PTR_FROM_CHUNK a, s') \<and>
     heap {} s' (fadd 1000 a demo_forest) demo_refs"
proof -
  have "talloc_named_const arena_env demo 1080 32 (NConst ''x'') \<noteq> Inr (NULL, demo)"
    by (simp add: talloc_named_const_def u_talloc_named_const_def uu_talloc_def MAX_TALLOC_SIZE_def
        arena_env_def arena_def demo_def init_block_def talloc_chunk_from_ptr_def acc
        TC_HDR_SIZE_eq new_chunk_def TC_PTR_FROM_CHUNK_def magic_mask u_talloc_set_name_const_def
        Let_def)
  then show ?thesis
    using talloc_named_const_allocates [OF demo_heap arena_ok(1) demo_ctx(1), of 32 "NConst ''x''"]
    by (auto simp: eff_ctx_def TC_HDR_SIZE_eq)
qed

text \<open>
  C6.  \<open>talloc_steal\<close> makes the chunk, with its whole subtree, the first child of the new
  parent; it does nothing when the chunk is the new parent or its first child already.
  Without a new parent the chunk becomes a root.
\<close>

theorem talloc_steal_moves:
  assumes "heap {} s ch rf" and "live s a" and "ctx_ok s (eff_ctx s ctx)"
  shows "\<exists>s'. u_talloc_steal s ctx (TC_PTR_FROM_CHUNK a) = Inr (TC_PTR_FROM_CHUNK a, s') \<and>
    heap {} s' (if eff_ctx s ctx = NULL then fremove a ch else fsteal (eff_ctx s ctx - TC_HDR_SIZE) a ch) rf \<and>
    same_but {} s s' \<and> live s' = live s"
proof (cases "eff_ctx s ctx = NULL")
  case True
  then have "ctx = NULL" "null_context s = NULL" by (simp_all add: eff_ctx_def split: if_splits)
  then show ?thesis using heap_steal_null [OF assms(1,2)] True by simp
next
  case False
  then obtain q where "eff_ctx s ctx = TC_PTR_FROM_CHUNK q" "live s q"
    using assms(3) by (auto simp: ctx_ok_def)
  then show ?thesis
    using heap_steal [OF assms(1,2), of q ctx] False by (simp add: eff_ctx_def)
qed

theorem talloc_steal_moves_witness:
  "\<exists>s'. u_talloc_steal demo 1080 5080 = Inr (5080, s') \<and> heap {} s' (fsteal 1000 5000 demo_forest) demo_refs"
  using talloc_steal_moves [OF demo_heap _ demo_ctx(1), of 5000]
  by (auto simp: eff_ctx_def demo_live demo_addr TC_HDR_SIZE_eq)

text \<open>
  C7.  \<open>talloc_reference\<close> returns the pointer it was given and puts a fresh handle, a
  child of the context, in front of the references of the chunk; or it fails without any
  effect.
\<close>

theorem talloc_reference_shares:
  assumes "heap {} s ch rf" and "malloc_ok E" and "ctx_ok s (eff_ctx s ctx)" and "live s t"
  shows "u_talloc_reference E s ctx (TC_PTR_FROM_CHUNK t) = Inr (NULL, s) \<or>
    (\<exists>b s'. u_talloc_reference E s ctx (TC_PTR_FROM_CHUNK t) = Inr (TC_PTR_FROM_CHUNK t, s') \<and>
       \<not> live s b \<and> live s' = (\<lambda>a. a = b \<or> live s a) \<and> same_but {b} s s' \<and>
       heap {} s' (if eff_ctx s ctx = NULL then ch else fadd (eff_ctx s ctx - TC_HDR_SIZE) b ch)
         (rf(t := TC_PTR_FROM_CHUNK b # rf t)))"
  using heap_reference [OF assms] unfolding shared_post_def by blast

theorem talloc_reference_shares_witness:
  "\<exists>r s'. u_talloc_reference arena_env demo 1080 3080 = Inr (r, s') \<and> (r = NULL \<or> r = 3080)"
  using talloc_reference_shares [OF demo_heap arena_ok(1) demo_ctx(1), of 3000]
  by (auto simp: demo_live demo_addr)

section \<open>Looking up\<close>

text \<open>
  C8.  \<open>talloc_is_parent\<close> returns 1 exactly when its second argument is the chunk itself
  or one of its ancestors, and terminates with fuel linear in the number of chunks.
\<close>

theorem talloc_is_parent_decides:
  assumes "heap {} s ch rf" and "ranked ch" and "live s a" and "2 * card {a. live s a} + 1 \<le> n"
  shows "talloc_is_parent n s (TC_PTR_FROM_CHUNK a) ptr =
    Inr (if \<exists>q. ptr = TC_PTR_FROM_CHUNK q \<and> a \<in> sub ch q then 1 else 0)"
  using talloc_is_parent_tree [OF assms] by (simp add: of_truth_def)

theorem talloc_is_parent_decides_witness:
  "talloc_is_parent 11 demo 5080 2080 = Inr 1"
proof -
  have "talloc_is_parent 11 demo (TC_PTR_FROM_CHUNK 5000) (TC_PTR_FROM_CHUNK 2000) = Inr 1"
    by (subst talloc_is_parent_decides [OF demo_heap demo_ranked])
      (simp_all add: demo_card demo_sub, simp_all add: demo_live)
  then show ?thesis by (simp add: demo_addr)
qed

end
