(* ===== verification/Talloc_Resize.thy ===== *)
theory Talloc_Resize
  imports Talloc_Share
begin

unbundle bit_operations_syntax

text \<open>
  \<open>_talloc_realloc\<close>: when the block moves, its neighbours are redirected and the forest is
  the old one with the chunk renamed; when it stays or \<open>realloc\<close> fails, the forest does not
  change.
\<close>

section \<open>Renaming a chunk\<close>

definition ren :: "addr \<Rightarrow> addr \<Rightarrow> addr \<Rightarrow> addr" where
  "ren a b x = (if x = a then b else x)"

definition frename :: "addr \<Rightarrow> addr \<Rightarrow> forest \<Rightarrow> forest" where
  "frename a b ch = (\<lambda>p. if p = b then map (ren a b) (ch a)
     else if p = a then [] else map (ren a b) (ch p))"

lemma frename_same: "frename a a ch = ch"
  by (auto simp: frename_def ren_def fun_eq_iff map_idI)

lemma hdd_map: "f NULL = NULL \<Longrightarrow> hdd (map f xs) NULL = f (hdd xs NULL)"
  by (cases xs) simp_all

lemma dseg_ren:
  assumes "dseg nx pv q xs NULL" and "\<And>x. x \<in> set xs \<Longrightarrow> f x \<noteq> NULL" and "f NULL = NULL"
    and "\<And>x. x \<in> set xs \<Longrightarrow> nx' (f x) = f (nx x) \<and> pv' (f x) = f (pv x)"
  shows "dseg nx' pv' (f q) (map f xs) NULL"
  using assms by (induction xs arbitrary: q) (auto simp: hdd_map)

lemma links_rename:
  assumes l: "links {} lv nx pv pr cd ch" and a: "lv a" and b: "\<not> lv b" "b \<noteq> NULL"
    and lv': "\<And>x. lv' x \<longleftrightarrow> x = b \<or> (lv x \<and> x \<noteq> a)"
    and acc': "\<And>x. lv x \<Longrightarrow> nx' (ren a b x) = ren a b (nx x) \<and> pv' (ren a b x) = ren a b (pv x) \<and>
      pr' (ren a b x) = ren a b (pr x) \<and> cd' (ren a b x) = ren a b (cd x)"
  shows "links {} lv' nx' pv' pr' cd' (frename a b ch)"
proof -
  note D = linksD [OF l]
  let ?f = "ren a b"
  have a0: "a \<noteq> NULL" using D(1) a by metis
  have f0: "?f NULL = NULL" using a0 by (simp add: ren_def)
  have ab: "a \<noteq> b" using a b by auto
  have inj: "x = y" if "?f x = ?f y" "x \<noteq> b" "y \<noteq> b" for x y
    using that by (auto simp: ren_def split: if_splits)
  have f_eq0: "?f x = NULL \<longleftrightarrow> x = NULL" for x using a0 b(2) by (auto simp: ren_def)
  have nb: "x \<noteq> b" if "x \<in> set (ch p)" for x p using D(5) [OF that] b by auto
  have ch_dead: "ch b = []" using D(3) b(1) by auto
  have ch': "frename a b ch (?f p) = map ?f (ch p)" if "p \<noteq> b" for p
    using that by (auto simp: frename_def ren_def)
  have dec: "\<exists>p. q = ?f p \<and> p \<noteq> b \<and> frename a b ch q = map ?f (ch p)" if "frename a b ch q \<noteq> []" for q
  proof (cases "q = b")
    case True
    then show ?thesis using ab by (intro exI [of _ a]) (simp add: frename_def ren_def)
  next
    case False
    then show ?thesis using that by (intro exI [of _ q]) (auto simp: frename_def ren_def split: if_splits)
  qed
  have mem: "\<exists>p x. q = ?f p \<and> p \<noteq> b \<and> y = ?f x \<and> x \<in> set (ch p) \<and> frename a b ch q = map ?f (ch p)"
    if y: "y \<in> set (frename a b ch q)" for y q
  proof -
    have "frename a b ch q \<noteq> []" using y by auto
    then obtain p where p: "q = ?f p" "p \<noteq> b" "frename a b ch q = map ?f (ch p)" using dec by blast
    then obtain x where "y = ?f x" "x \<in> set (ch p)" using y by auto
    then show ?thesis using p by blast
  qed
  have live': "lv' (?f x)" if "lv x" for x using that by (auto simp: lv' ren_def)
  show ?thesis
    unfolding links_def
  proof (intro conjI allI impI ballI)
    show "\<not> lv' NULL" using b D(1) by (simp add: lv')
    show "finite {a. lv' a}"
      by (rule finite_subset [of _ "insert b {a. lv a}"]) (use D(2) in \<open>auto simp: lv'\<close>)
    show "lv' q" if "frename a b ch q \<noteq> []" for q
      using dec [OF that] that D(3) live' by (metis list.map_disc_iff)
    show "lv' y" if "y \<in> set (frename a b ch q)" for y q
      using mem [OF that] D(5) live' by metis
    show "y \<notin> {}" for y :: addr by simp
    show "distinct (frename a b ch q)" for q
    proof (cases "frename a b ch q = []")
      case False
      then obtain p where p: "frename a b ch q = map ?f (ch p)" using dec by blast
      have "inj_on ?f (set (ch p))" using inj nb by (meson inj_onI)
      then show ?thesis using D(7) [of p] by (simp add: p distinct_map)
    qed simp
    show "q = q'" if q: "y \<in> set (frename a b ch q)" "y \<in> set (frename a b ch q')" for q q' y
    proof -
      obtain p x where p: "q = ?f p" "y = ?f x" "x \<in> set (ch p)" using mem [OF q(1)] by blast
      obtain p' x' where p': "q' = ?f p'" "y = ?f x'" "x' \<in> set (ch p')" using mem [OF q(2)] by blast
      have "x = x'" by (rule inj) (use p p' nb in auto)
      then show ?thesis using D(8) [OF p(3)] p' p(1) by simp
    qed
    show "cd' q = hdd (frename a b ch q) NULL" if q: "lv' q" for q
    proof -
      obtain p where p: "lv p" "q = ?f p" "p \<noteq> b"
        using q a b ab by (auto simp: lv' ren_def intro: that [of a] that [of q])
      then show ?thesis
        using D(9) [OF p(1)] acc' [OF p(1)] ch' [OF p(3)] by (simp add: hdd_map f0)
    qed
    show "dseg nx' pv' NULL (frename a b ch q) NULL" for q
    proof (cases "frename a b ch q = []")
      case False
      then obtain p where p: "frename a b ch q = map ?f (ch p)" using dec by blast
      have "dseg nx' pv' (?f NULL) (map ?f (ch p)) NULL"
      proof (rule dseg_ren [OF D(10)])
        show "?f x \<noteq> NULL" if "x \<in> set (ch p)" for x
          using dseg_nonnull [OF D(10) [of p]] that f_eq0 by auto
        show "nx' (?f x) = ?f (nx x) \<and> pv' (?f x) = ?f (pv x)" if "x \<in> set (ch p)" for x
          using acc' [OF D(5) [OF that]] by simp
      qed (rule f0)
      then show ?thesis by (simp add: p f0)
    qed simp
    show "pr' y = (if y = hd (frename a b ch q) then q else NULL)"
      if y: "y \<in> set (frename a b ch q)" for y q
    proof -
      obtain p x where p: "q = ?f p" "y = ?f x" "x \<in> set (ch p)" "frename a b ch q = map ?f (ch p)"
        using mem [OF y] by blast
      have ne: "ch p \<noteq> []" using p(3) by auto
      then have "y = hd (frename a b ch q) \<longleftrightarrow> x = hd (ch p)"
        using p inj [of x "hd (ch p)"] nb hd_in_set [OF ne] by (auto simp: hd_map)
      then show ?thesis
        using acc' [OF D(5) [OF p(3)]] D(11) [OF p(3)] p f0 by simp
    qed
    show "pr' y = NULL" "nx' y = NULL" "pv' y = NULL"
      if y: "lv' y" "\<forall>q. y \<notin> set (frename a b ch q)" for y
    proof -
      obtain x where x: "lv x" "y = ?f x" "x \<noteq> b"
        using y(1) a b ab by (auto simp: lv' ren_def intro: that [of a] that [of y])
      have "x \<notin> set (ch p)" for p
      proof (cases "p = b")
        case False
        then show ?thesis using y(2) ch' [OF False] x(2) by (metis image_eqI list.set_map)
      qed (simp add: ch_dead)
      then show "pr' y = NULL" "nx' y = NULL" "pv' y = NULL"
        using D(12) [of x] acc' [OF x(1)] x f0 by simp_all
    qed
  qed
qed

section \<open>Neighbours\<close>

text \<open>The links between neighbours come in pairs.\<close>

lemma child_parent:
  assumes l: "tree_inv {} s ch" and a: "live s a" and x: "live s x"
  shows "par s a = x \<longleftrightarrow> chd s x = a"
proof -
  note D = tree_invD [OF l]
  have n: "x \<noteq> NULL" "a \<noteq> NULL" using D(1) a x by metis+
  show ?thesis
  proof
    assume p: "par s a = x"
    obtain q where q: "a \<in> set (ch q)" using D(12) [OF a] p n by blast
    with D(11) [OF q] p n have "q = x" "a = hd (ch x)" by (metis (full_types))+
    then show "chd s x = a" using D(9) [OF x] q by (cases "ch x") simp_all
  next
    assume "chd s x = a"
    then have "ch x \<noteq> [] \<and> a = hd (ch x)" using D(9) [OF x] n by (cases "ch x") auto
    then show "par s a = x" using D(11) [of a x] by (cases "ch x") simp_all
  qed
qed

lemma next_prev:
  assumes l: "tree_inv {} s ch" and a: "live s a" and x: "live s x"
  shows "nxt s a = x \<longleftrightarrow> prv s x = a"
proof -
  note D = tree_invD [OF l]
  have n: "x \<noteq> NULL" "a \<noteq> NULL" using D(1) a x by metis+
  show ?thesis
  proof
    assume p: "nxt s a = x"
    obtain q where "a \<in> set (ch q)" using D(12) [OF a] p n by blast
    then obtain us vs where dec: "ch q = us @ a # vs" by (meson split_list)
    then have "hdd vs NULL = x" using D(10) [of q] p by (simp add: dseg_simps)
    then obtain ws where "vs = x # ws" using n by (cases vs) simp_all
    then show "prv s x = a" using D(10) [of q] dec by (simp add: dseg_simps)
  next
    assume p: "prv s x = a"
    obtain q where "x \<in> set (ch q)" using D(12) [OF x] p n by blast
    then obtain us vs where dec: "ch q = us @ x # vs" by (meson split_list)
    then have "lastd us NULL = a" using D(10) [of q] p by (simp add: dseg_simps)
    then obtain ws where "us = ws @ [a]" using n by (cases us rule: rev_exhaust) simp_all
    then show "nxt s a = x" using D(10) [of q] dec by (simp add: dseg_simps)
  qed
qed

lemma neighbours_live:
  assumes l: "tree_inv {} s ch" and rk: "ranked ch" and a: "live s a"
  shows "par s a \<noteq> NULL \<Longrightarrow> live s (par s a)" "chd s a \<noteq> NULL \<Longrightarrow> live s (chd s a)"
    "prv s a \<noteq> NULL \<Longrightarrow> live s (prv s a)" "nxt s a \<noteq> NULL \<Longrightarrow> live s (nxt s a)"
    "par s a \<noteq> a" "chd s a \<noteq> a" "prv s a \<noteq> a" "nxt s a \<noteq> a"
proof -
  note D = tree_invD [OF l]
  show c: "live s (chd s a)" if "chd s a \<noteq> NULL"
    using that D(9) [OF a] D(5) [of "hd (ch a)" a] by (cases "ch a") simp_all
  show "live s (par s a)" if p: "par s a \<noteq> NULL"
  proof -
    obtain q where q: "a \<in> set (ch q)" using D(12) [OF a] p by blast
    then show ?thesis using D(11) [OF q] D(4) [OF q] p by (simp split: if_splits)
  qed
  show "chd s a \<noteq> a"
  proof
    assume e: "chd s a = a"
    have "a \<noteq> NULL" using D(1) a by metis
    then have "a \<in> set (ch a)" using D(9) [OF a] e by (cases "ch a") auto
    then show False using sub_ranked [OF rk] by blast
  qed
  then show "par s a \<noteq> a" using child_parent [OF l a a] by simp
  have dec: "\<exists>q us vs. ch q = us @ a # vs \<and> prv s a = lastd us NULL \<and> nxt s a = hdd vs NULL"
    if no: "\<not> (prv s a = NULL \<and> nxt s a = NULL)"
  proof -
    obtain q where "a \<in> set (ch q)" using D(12) [OF a] no by auto
    then obtain us vs where u: "ch q = us @ a # vs" by (meson split_list)
    then show ?thesis using D(10) [of q] by (intro exI [of _ q] exI) (auto simp: dseg_simps)
  qed
  show "live s (prv s a)" if p: "prv s a \<noteq> NULL"
  proof -
    obtain q us vs where "ch q = us @ a # vs" "prv s a = lastd us NULL" using dec p by blast
    then show ?thesis using p D(5) [of "lastd us NULL" q] lastd_in [of us NULL] by (cases "us = []") auto
  qed
  show "live s (nxt s a)" if p: "nxt s a \<noteq> NULL"
  proof -
    obtain q us vs where "ch q = us @ a # vs" "nxt s a = hdd vs NULL" using dec p by blast
    then show ?thesis using p D(5) [of "hdd vs NULL" q] hdd_in [of vs NULL] by (cases "vs = []") auto
  qed
  show "nxt s a \<noteq> a"
  proof
    assume e: "nxt s a = a"
    have n: "a \<noteq> NULL" using D(1) a by metis
    then obtain q us vs where u: "ch q = us @ a # vs" "nxt s a = hdd vs NULL" using dec e by metis
    then have "a \<in> set vs" using e n hdd_in [of vs NULL] by (cases "vs = []") auto
    then show False using D(7) [of q] u by simp
  qed
  then show "prv s a \<noteq> a" using next_prev [OF l a a] by simp
qed

section \<open>The moved block\<close>

lemma mod_chunk_dead: "\<not> live s x \<Longrightarrow> mod_chunk s x f = s"
  by (cases s) (simp add: live_def mod_chunk_def fun_upd_idem)

lemma upd_opt:
  "(x \<noteq> NULL \<Longrightarrow> live s x) \<Longrightarrow> \<not> live s NULL \<Longrightarrow>
   (if x \<noteq> NULL then upd s x f else Inr s) = Inr (mod_chunk s x f)"
  by (simp add: upd_live mod_chunk_dead)

lemma fld_mod_opt:
  "(\<And>c. g (f c) = v) \<Longrightarrow> fld g d (mod_chunk s x f) y = (if y = x \<and> live s x then v else fld g d s y)"
  by (auto simp: acc mod_chunk_def split: option.splits)

text \<open>The state once the block is at its new place, before the neighbours are redirected.\<close>

definition moved :: "tstate \<Rightarrow> addr \<Rightarrow> addr \<Rightarrow> nat \<Rightarrow> tstate" where
  "moved s a b n = mod_chunk (move_block (mod_chunk s a (\<lambda>c. c\<lparr>tc_flags := tc_flags c OR TALLOC_FLAG_FREE\<rparr>)) a b n)
     b (\<lambda>c. c\<lparr>tc_flags := tc_flags c AND NOT TALLOC_FLAG_FREE\<rparr>)"

lemma free_flag_restored:
  assumes "fld tc_flags 0 s a = TALLOC_MAGIC" and "chunks s a = Some c"
  shows "c\<lparr>tc_flags := (tc_flags c OR TALLOC_FLAG_FREE) AND NOT TALLOC_FLAG_FREE\<rparr> = c"
  using assms magic_mask(5) by (cases c) (simp add: fld_def)

lemma moved_chunks:
  assumes "fld tc_flags 0 s a = TALLOC_MAGIC" and "live s a"
  shows "chunks (moved s a b n) = (chunks s)(a := None, b := chunks s a)"
proof -
  obtain c where c: "chunks s a = Some c" using assms(2) by (auto simp: live_def)
  show ?thesis
    using free_flag_restored [OF assms(1) c] c
    by (cases "b = a") (auto simp: moved_def move_block_def mod_chunk_def Let_def fun_eq_iff)
qed

lemma moved_other:
  "bytes (moved s a b n) (TC_PTR_FROM_CHUNK b) =
     Some (let z = (case bytes s (TC_PTR_FROM_CHUNK a) of None \<Rightarrow> [] | Some z \<Rightarrow> z)
       in take n z @ replicate (n - length z) None)"
  "x \<noteq> a \<Longrightarrow> x \<noteq> b \<Longrightarrow> bytes (moved s a b n) (TC_PTR_FROM_CHUNK x) = bytes s (TC_PTR_FROM_CHUNK x)"
  "null_context (moved s a b n) = null_context s" "autofree_context (moved s a b n) = autofree_context s"
  "handles s (TC_PTR_FROM_CHUNK a) = None \<Longrightarrow> handles s (TC_PTR_FROM_CHUNK b) = None \<Longrightarrow>
     handles (moved s a b n) = handles s"
  by (auto simp: moved_def move_block_def mod_chunk_def Let_def fun_eq_iff)

text \<open>The redirection of the neighbours, of size and name.\<close>

definition redirected :: "tstate \<Rightarrow> addr \<Rightarrow> addr \<Rightarrow> nat \<Rightarrow> cname \<Rightarrow> tstate" where
  "redirected s a b n nm =
     (let s1 = mod_chunk (moved s a b n) (par s a) (\<lambda>p. p\<lparr>tc_child := b\<rparr>);
          s2 = mod_chunk s1 (chd s a) (\<lambda>k. k\<lparr>tc_parent := b\<rparr>);
          s3 = mod_chunk s2 (prv s a) (\<lambda>k. k\<lparr>tc_next := b\<rparr>);
          s4 = mod_chunk s3 (nxt s a) (\<lambda>k. k\<lparr>tc_prev := b\<rparr>);
          s5 = mod_chunk s4 b (\<lambda>c. c\<lparr>tc_size := n\<rparr>)
      in mod_chunk s5 b (\<lambda>c. c\<lparr>tc_name := nm\<rparr>))"

lemma redirected_view:
  assumes h: "heap {} s ch rf" and rk: "ranked ch" and a: "live s a" and b: "b = a \<or> \<not> live s b" "b \<noteq> NULL"
    and s'_def: "s' = redirected s a b n nm"
  shows "live s' x \<longleftrightarrow> x = b \<or> (live s x \<and> x \<noteq> a)"
    and "live s x \<Longrightarrow> nxt s' (ren a b x) = ren a b (nxt s x) \<and> prv s' (ren a b x) = ren a b (prv s x) \<and>
      par s' (ren a b x) = ren a b (par s x) \<and> chd s' (ren a b x) = ren a b (chd s x)"
    and "live s x \<Longrightarrow> rfs s' (ren a b x) = rfs s x \<and> fld tc_destructor DNull s' (ren a b x) = fld tc_destructor DNull s x \<and>
      fld tc_flags 0 s' (ren a b x) = fld tc_flags 0 s x"
proof -
  note T = heapD(1) [OF h]
  have fa: "fld tc_flags 0 s a = TALLOC_MAGIC" using heapD(3) [OF h] a by (simp add: flags_ok_def)
  note M = moved_chunks [OF fa a, of b n]
  note N = neighbours_live [OF T rk a]
  have dead: "\<not> live s NULL" by (rule tree_invD(1) [OF T])
  have lvm: "live (moved s a b n) x \<longleftrightarrow> x = b \<or> (live s x \<and> x \<noteq> a)" for x
    using a by (auto simp: live_def M)
  then show "live s' x \<longleftrightarrow> x = b \<or> (live s x \<and> x \<noteq> a)"
    by (simp add: s'_def redirected_def Let_def view)
  have fm: "fld g d (moved s a b n) (ren a b x) = fld g d s x" if "live s x" for g :: "talloc_chunk \<Rightarrow> 'z" and d x
    using that b(1) by (auto simp: fld_def M ren_def)
  have nb: "x \<noteq> b" if "live s x" "x \<noteq> a" for x using that b(1) by auto
  have rf_ne: "ren a b x = y \<longleftrightarrow> x = y" if "live s x" "live s y" "y \<noteq> a" for x y
    using that nb [of x] nb [of y] by (auto simp: ren_def)
  have lvn: "live (moved s a b n) y \<longleftrightarrow> y \<noteq> NULL" if "y = NULL \<or> live s y" "y \<noteq> a" for y
    using that b(2) dead by (auto simp: lvm)
  show "nxt s' (ren a b x) = ren a b (nxt s x) \<and> prv s' (ren a b x) = ren a b (prv s x) \<and>
      par s' (ren a b x) = ren a b (par s x) \<and> chd s' (ren a b x) = ren a b (chd s x)" if x: "live s x"
  proof -
    have x0: "x \<noteq> NULL" using x dead by metis
    have d: "par s a = x \<longleftrightarrow> chd s x = a" "chd s a = x \<longleftrightarrow> par s x = a"
        "nxt s a = x \<longleftrightarrow> prv s x = a" "prv s a = x \<longleftrightarrow> nxt s x = a"
      using child_parent [OF T a x] child_parent [OF T x a] next_prev [OF T a x] next_prev [OF T x a] by auto
    have k: "(ren a b x = y \<and> live (moved s a b n) y) = (y = x)" if "y = NULL \<or> live s y" "y \<noteq> a" for y
      using lvn [OF that] rf_ne [OF x _ that(2)] that(1) x0 dead by auto
    have "chd s' (ren a b x) = (if par s a = x then b else chd s x)"
      using k [of "par s a"] N fm [OF x, of tc_child NULL]
      by (auto simp: s'_def redirected_def Let_def fld_mod_opt fld_mod_other)
    moreover have "par s' (ren a b x) = (if chd s a = x then b else par s x)"
      using k [of "chd s a"] N fm [OF x, of tc_parent NULL]
      by (auto simp: s'_def redirected_def Let_def fld_mod_opt fld_mod_other live_mod)
    moreover have "nxt s' (ren a b x) = (if prv s a = x then b else nxt s x)"
      using k [of "prv s a"] N fm [OF x, of tc_next NULL]
      by (auto simp: s'_def redirected_def Let_def fld_mod_opt fld_mod_other live_mod)
    moreover have "prv s' (ren a b x) = (if nxt s a = x then b else prv s x)"
      using k [of "nxt s a"] N fm [OF x, of tc_prev NULL]
      by (auto simp: s'_def redirected_def Let_def fld_mod_opt fld_mod_other live_mod)
    ultimately show ?thesis using d by (simp add: ren_def)
  qed
  show "rfs s' (ren a b x) = rfs s x \<and> fld tc_destructor DNull s' (ren a b x) = fld tc_destructor DNull s x \<and>
      fld tc_flags 0 s' (ren a b x) = fld tc_flags 0 s x" if x: "live s x"
    using fm [OF x, of tc_refs NULL] fm [OF x, of tc_destructor DNull] fm [OF x, of tc_flags 0]
    by (simp add: s'_def redirected_def Let_def fld_mod_other)
qed

lemma same_but_mod_core: "(\<And>c. core (f c) = core c) \<Longrightarrow> same_but {} s (mod_chunk s x f)"
  by (auto simp: same_but_def mod_chunk_def option.map_comp comp_def)

lemma not_a_handle:
  assumes "refs_inv {} s rf" and "\<not> live s a \<or> fld tc_destructor DNull s a \<noteq> DRef"
  shows "handles s (TC_PTR_FROM_CHUNK a) = None"
proof (rule ccontr)
  assume "handles s (TC_PTR_FROM_CHUNK a) \<noteq> None"
  then have "hlive s (TC_PTR_FROM_CHUNK a)" by (simp add: hlive_def)
  then show False using refs_invD(8) [OF assms(1), of "TC_PTR_FROM_CHUNK a"]
      refs_invD(7) [OF assms(1), of "TC_PTR_FROM_CHUNK a"] assms(2) by auto
qed

lemma redirected_heap:
  assumes h: "heap {} s ch rf" and rk: "ranked ch" and a: "live s a" "rf a = []" "fld tc_destructor DNull s a \<noteq> DRef"
    and b: "b = a \<or> \<not> live s b" "b \<noteq> NULL"
    and s'_def: "s' = redirected s a b n nm"
  shows "heap {} s' (frename a b ch) rf"
proof -
  note V = redirected_view [OF h rk a(1) b s'_def] and R = refs_invD [OF heapD(2) [OF h]]
  have hs: "handles s' = handles s"
    using not_a_handle [OF heapD(2) [OF h]] a b(1)
    by (auto simp: s'_def redirected_def Let_def view intro!: moved_other(5))
  have hl: "hlive s' = hlive s" "hfld g s' = hfld g s" for g using hs by (simp_all add: acc fun_eq_iff)
  have other: "ren a b x = x" if "x \<noteq> a" for x using that by (simp add: ren_def)
  have b_old: "\<exists>x. live s x \<and> y = ren a b x" if "live s' y" for y
    using that V(1) a(1) by (cases "y = b") (auto simp: ren_def intro: exI [of _ a] exI [of _ y])
  have "tree_inv {} s' (frename a b ch)"
  proof (cases "b = a")
    case True
    then have "live s' = live s" using V(1) a(1) by (auto simp: fun_eq_iff)
    moreover have "nxt s' x = nxt s x \<and> prv s' x = prv s x \<and> par s' x = par s x \<and> chd s' x = chd s x" for x
    proof (cases "live s x")
      case True
      then show ?thesis using V(2) [of x] \<open>b = a\<close> by (simp add: ren_def)
    next
      case False
      then have "\<not> live s' x" using \<open>live s' = live s\<close> by simp
      with False show ?thesis by (auto simp: acc)
    qed
    ultimately show ?thesis
      using heapD(1) [OF h] unfolding tree_inv_def True frename_same by (metis ext)
  next
    case False
    then have "\<not> live s b" using b(1) by simp
    show ?thesis
      unfolding tree_inv_def
      by (rule links_rename [OF tree_inv_links [OF heapD(1) [OF h]] a(1) \<open>\<not> live s b\<close> b(2) V(1,2)])
  qed
  moreover have "refs_inv {} s' rf"
    unfolding refs_inv_def
  proof (intro conjI allI ballI impI)
    show "live s' c" if "rf c \<noteq> []" for c using R(1) [OF that] that a(2) V(1) by auto
    show "rfs s' c = hdd (rf c) NULL" if c: "live s' c" for c
    proof (cases "c = b")
      case True
      have "rf b = []" using R(1) [of b] a(2) b(1) by auto
      then show ?thesis using V(3) [OF a(1)] R(2) [OF a(1)] a(2) True by (simp add: ren_def)
    next
      case False
      then have c': "live s c" "c \<noteq> a" using c V(1) by auto
      then show ?thesis using V(3) [OF c'(1)] R(2) [OF c'(1)] other by simp
    qed
    show "dseg (hfld h_next s') (hfld h_prev s') NULL (rf c) NULL" "distinct (rf c)" for c
      using R(3,4) by (simp_all add: hl)
    show "hlive s' x" "hfld h_ptr s' x = TC_PTR_FROM_CHUNK c" if "x \<in> set (rf c)" for x c
      using R(5,6) that by (simp_all add: hl)
    show "\<exists>y. x = TC_PTR_FROM_CHUNK y \<and> live s' y \<and> y \<notin> {} \<and> fld tc_destructor DNull s' y = DRef"
      if x: "x \<in> set (rf c)" for x c
    proof -
      obtain y where y: "x = TC_PTR_FROM_CHUNK y" "live s y" "fld tc_destructor DNull s y = DRef"
        using R(7) [OF x] by blast
      moreover have "y \<noteq> a" using y a(3) by auto
      ultimately show ?thesis using V(1) V(3) [OF y(2)] other by auto
    qed
    show "\<exists>c. x \<in> set (rf c)" if "hlive s' x" for x using R(8) [of x] that by (simp add: hl)
    show "hlive s' (TC_PTR_FROM_CHUNK y)" if d: "fld tc_destructor DNull s' y = DRef" for y
    proof -
      have "live s' y" using d by (auto simp: acc split: option.splits)
      then obtain x where x: "live s x" "y = ren a b x" using b_old by blast
      have "fld tc_destructor DNull s x = DRef" using d x V(3) [OF x(1)] by simp
      moreover have "x \<noteq> a" using calculation a(3) by auto
      ultimately show ?thesis using R(9) [of x] x other by (simp add: hl)
    qed
  qed
  moreover have "flags_ok {} s'"
    unfolding flags_ok_def using b_old V(3) heapD(3) [OF h] by (auto simp: flags_ok_def)
  ultimately show ?thesis by (simp add: heap_def)
qed

lemma redirected_data:
  assumes h: "heap {} s ch rf" and a: "live s a" and s'_def: "s' = redirected s a b n nm"
  shows "fld tc_size 0 s' b = n" "fld tc_name NNull s' b = nm" "same_but {a, b} s s'"
    "bytes s' (TC_PTR_FROM_CHUNK b) =
      Some (let z = (case bytes s (TC_PTR_FROM_CHUNK a) of None \<Rightarrow> [] | Some z \<Rightarrow> z)
        in take n z @ replicate (n - length z) None)"
proof -
  have fa: "fld tc_flags 0 s a = TALLOC_MAGIC" using heapD(3) [OF h] a by (simp add: flags_ok_def)
  note M = moved_chunks [OF fa a, of b n]
  have lb: "live (moved s a b n) b" using a by (auto simp: live_def M)
  then show "fld tc_size 0 s' b = n" "fld tc_name NNull s' b = nm"
    by (simp_all add: s'_def redirected_def Let_def fld_mod_opt fld_mod_other view)
  show "bytes s' (TC_PTR_FROM_CHUNK b) =
      Some (let z = (case bytes s (TC_PTR_FROM_CHUNK a) of None \<Rightarrow> [] | Some z \<Rightarrow> z)
        in take n z @ replicate (n - length z) None)"
    by (simp add: s'_def redirected_def Let_def view moved_other)
  have m: "same_but {a, b} s (moved s a b n)"
    by (simp add: same_but_def M moved_other)
  have k: "same_but {a, b} s t \<Longrightarrow> (\<And>c. core (f c) = core c) \<Longrightarrow> same_but {a, b} s (mod_chunk t x f)" for t x f
    using same_but_trans [of "{a, b}" s t "{}"] same_but_mod_core [of f t x] by simp
  have kb: "same_but {a, b} s t \<Longrightarrow> same_but {a, b} s (mod_chunk t b f)" for t f
    using same_but_mono [OF same_but_trans [of "{a, b}" s t "{b}", OF _ same_but_mod], of "{a, b}"] by auto
  show "same_but {a, b} s s'"
    unfolding s'_def redirected_def Let_def
    by (intro k kb m) (simp_all add: core_def wipe_def)
qed

section \<open>The run\<close>

lemma heap_realloc:
  assumes h: "heap {} s ch rf" and rk: "ranked ch" and E: "realloc_ok E" and a: "live s a" "rf a = []"
    and n: "0 < n" "n < MAX_TALLOC_SIZE"
  shows "u_talloc_realloc E f s ctx (TC_PTR_FROM_CHUNK a) n nm = Inr (NULL, s) \<or>
    (\<exists>b. b \<noteq> NULL \<and> (b = a \<or> \<not> live s b) \<and>
      u_talloc_realloc E f s ctx (TC_PTR_FROM_CHUNK a) n nm = Inr (TC_PTR_FROM_CHUNK b, redirected s a b n nm))"
proof -
  let ?f = "\<lambda>c. c\<lparr>tc_flags := tc_flags c OR TALLOC_FLAG_FREE\<rparr>"
  let ?g = "\<lambda>c. c\<lparr>tc_flags := tc_flags c AND NOT TALLOC_FLAG_FREE\<rparr>"
  define b where "b = realloc E (mod_chunk s a ?f) a (n + TC_HDR_SIZE)"
  have fa: "fld tc_flags 0 s a = TALLOC_MAGIC" using heapD(3) [OF h] a(1) by (simp add: flags_ok_def)
  have ra: "rfs s a = NULL" using refs_invD(2) [OF heapD(2) [OF h] a(1)] a(2) by simp
  obtain c where c: "chunks s a = Some c" using a(1) by (auto simp: live_def)
  have undo: "mod_chunk (mod_chunk s a ?f) a ?g = s"
    using free_flag_restored [OF fa c] c by (cases s) (simp add: mod_chunk_def fun_upd_idem)
  note ptr = talloc_chunk_from_ptr_live [OF heapD(3) [OF h] a(1)]
  have b: "b = NULL \<or> b = a \<or> \<not> live s b"
    using E [unfolded realloc_ok_def, rule_format, of "mod_chunk s a ?f" a "n + TC_HDR_SIZE"]
    by (simp add: live_mod flip: b_def)
  show ?thesis
  proof (cases "b = NULL")
    case True
    then have "u_talloc_realloc E f s ctx (TC_PTR_FROM_CHUNK a) n nm = Inr (NULL, s)"
      using a(1) n ra unfolding b_def
      by (simp add: u_talloc_realloc_def ptr bnd_rd fields_the upd_live live_mod Let_def undo)
    then show ?thesis by simp
  next
    case False
    then have ba: "b = a \<or> \<not> live s b" using b by simp
    note M = moved_chunks [OF fa a(1), of b n]
    note N = neighbours_live [OF heapD(1) [OF h] rk a(1)]
    define t where "t = move_block (mod_chunk s a ?f) a b n"
    have tb: "live t b" using a(1) by (auto simp: t_def move_block_def Let_def mod_chunk_def live_def)
    have m: "moved s a b n = mod_chunk t b ?g" by (simp add: moved_def t_def)
    have lv: "live (moved s a b n) x \<longleftrightarrow> x = b \<or> (live s x \<and> x \<noteq> a)" for x
      using a(1) by (auto simp: live_def M)
    have dead: "\<not> live (moved s a b n) NULL" using tree_invD(1) [OF heapD(1) [OF h]] False by (simp add: lv)
    have fb: "fld g d (moved s a b n) b = fld g d s a" for g :: "talloc_chunk \<Rightarrow> addr" and d
      by (simp add: fld_def M)
    define s1 where "s1 = mod_chunk (moved s a b n) (par s a) (\<lambda>p. p\<lparr>tc_child := b\<rparr>)"
    define s2 where "s2 = mod_chunk s1 (chd s a) (\<lambda>k. k\<lparr>tc_parent := b\<rparr>)"
    define s3 where "s3 = mod_chunk s2 (prv s a) (\<lambda>k. k\<lparr>tc_next := b\<rparr>)"
    define s4 where "s4 = mod_chunk s3 (nxt s a) (\<lambda>k. k\<lparr>tc_prev := b\<rparr>)"
    define s5 where "s5 = mod_chunk s4 b (\<lambda>c. c\<lparr>tc_size := n\<rparr>)"
    have lvs: "live s1 = live (moved s a b n)" "live s2 = live (moved s a b n)" "live s3 = live (moved s a b n)"
        "live s4 = live (moved s a b n)" "live s5 = live (moved s a b n)"
      by (simp_all add: s1_def s2_def s3_def s4_def s5_def live_mod)
    have nbr: "live (moved s a b n) y" if "y \<noteq> NULL" "y \<in> {par s a, chd s a, prv s a, nxt s a}" for y
      using that N by (auto simp: lv)
    have "fld tc_flags 0 (moved s a b n) b = TALLOC_MAGIC"
      using fa by (simp add: fld_def M)
    then have f5: "fld tc_flags 0 s5 b = TALLOC_MAGIC"
      by (simp add: s5_def s4_def s3_def s2_def s1_def fld_mod_other)
    have b5: "live s5 b" by (simp add: lvs lv)
    have name: "u_talloc_set_name_const s5 (TC_PTR_FROM_CHUNK b) nm = Inr (redirected s a b n nm)"
      using b5 f5 magic_mask(1)
      by (simp add: u_talloc_set_name_const_def talloc_chunk_from_ptr_def view)
        (simp add: redirected_def Let_def s1_def s2_def s3_def s4_def s5_def)
    have "u_talloc_realloc E f s ctx (TC_PTR_FROM_CHUNK a) n nm =
        bnd (upd t b ?g) (\<lambda>s. bnd (rd s b) (\<lambda>c.
          bnd (if tc_parent c \<noteq> NULL then upd s (tc_parent c) (\<lambda>p. p\<lparr>tc_child := b\<rparr>) else Inr s) (\<lambda>s.
          bnd (if tc_child c \<noteq> NULL then upd s (tc_child c) (\<lambda>k. k\<lparr>tc_parent := b\<rparr>) else Inr s) (\<lambda>s.
          bnd (if tc_prev c \<noteq> NULL then upd s (tc_prev c) (\<lambda>k. k\<lparr>tc_next := b\<rparr>) else Inr s) (\<lambda>s.
          bnd (if tc_next c \<noteq> NULL then upd s (tc_next c) (\<lambda>k. k\<lparr>tc_prev := b\<rparr>) else Inr s) (\<lambda>s.
          bnd (upd s b (\<lambda>c. c\<lparr>tc_size := n\<rparr>)) (\<lambda>s.
          bnd (u_talloc_set_name_const s (TC_PTR_FROM_CHUNK b) nm) (\<lambda>s.
          Inr (TC_PTR_FROM_CHUNK b, s)))))))))"
      using a(1) n ra False unfolding b_def t_def
      by (simp add: u_talloc_realloc_def ptr bnd_rd fields_the upd_live Let_def)
    also have "\<dots> = Inr (TC_PTR_FROM_CHUNK b, redirected s a b n nm)"
    proof -
      have r: "rd (moved s a b n) b = Inr (the (chunks s a))"
        using M lv [of b] by (simp add: rd_live)
      have l: "tc_parent (the (chunks s a)) = par s a" "tc_child (the (chunks s a)) = chd s a"
          "tc_prev (the (chunks s a)) = prv s a" "tc_next (the (chunks s a)) = nxt s a"
        using a(1) by (simp_all add: fields_the)
      have e: "(if par s a \<noteq> NULL then upd (moved s a b n) (par s a) (\<lambda>p. p\<lparr>tc_child := b\<rparr>)
            else Inr (moved s a b n)) = Inr s1"
          "(if chd s a \<noteq> NULL then upd s1 (chd s a) (\<lambda>k. k\<lparr>tc_parent := b\<rparr>) else Inr s1) = Inr s2"
          "(if prv s a \<noteq> NULL then upd s2 (prv s a) (\<lambda>k. k\<lparr>tc_next := b\<rparr>) else Inr s2) = Inr s3"
          "(if nxt s a \<noteq> NULL then upd s3 (nxt s a) (\<lambda>k. k\<lparr>tc_prev := b\<rparr>) else Inr s3) = Inr s4"
        unfolding s1_def [symmetric] s2_def [symmetric] s3_def [symmetric] s4_def [symmetric]
        using nbr dead
        by (simp add: s1_def upd_opt, simp add: s2_def upd_opt lvs, simp add: s3_def upd_opt lvs,
            simp add: s4_def upd_opt lvs)
      have e5: "upd s4 b (\<lambda>c. c\<lparr>tc_size := n\<rparr>) = Inr s5"
        by (simp add: s5_def upd_live lvs lv)
      show ?thesis
        by (simp only: upd_live [OF tb] bnd_Inr m [symmetric] r l e e5 name)
    qed
    finally show ?thesis using False ba by blast
  qed
qed

end
