(* ===== verification/Talloc_Tree.thy ===== *)
theory Talloc_Tree
  imports Talloc_Walk
begin

unbundle bit_operations_syntax

text \<open>
  The tree below a chunk as a value, in the order in which the C loops over \<open>child\<close> and
  \<open>next\<close> visit it.  Every acyclic forest has one; its nodes are the reachable chunks, each
  once.
\<close>

section \<open>Rose trees\<close>

datatype rtree = Node addr "rtree list"

fun root :: "rtree \<Rightarrow> addr" where
  "root (Node a ts) = a"

fun nodes :: "rtree \<Rightarrow> addr list" where
  "nodes (Node a ts) = a # concat (map nodes ts)"

fun repr :: "forest \<Rightarrow> rtree \<Rightarrow> bool" where
  "repr ch (Node a ts) \<longleftrightarrow> ch a = map root ts \<and> (\<forall>t\<in>set ts. repr ch t)"

lemma root_in_nodes [simp]: "root t \<in> set (nodes t)"
  by (cases t) simp

lemma nodes_pos [simp]: "0 < length (nodes t)" "nodes t \<noteq> []"
  by (cases t, simp)+

lemma repr_exists:
  assumes "ranked ch"
  shows "\<exists>t. repr ch t \<and> root t = a"
proof -
  obtain r :: "addr \<Rightarrow> nat" where r: "\<And>p b. b \<in> set (ch p) \<Longrightarrow> r b < r p"
    using assms by (auto simp: ranked_def)
  show ?thesis
  proof (induction "r a" arbitrary: a rule: less_induct)
    case less
    have "\<forall>b\<in>set (ch a). \<exists>t. repr ch t \<and> root t = b"
      using less r by blast
    then obtain f where f: "\<And>b. b \<in> set (ch a) \<Longrightarrow> repr ch (f b) \<and> root (f b) = b"
      by metis
    then have "map root (map f (ch a)) = ch a"
      by (simp add: map_idI)
    then have "repr ch (Node a (map f (ch a)))" using f by simp
    then show ?case by (intro exI [of _ "Node a (map f (ch a))"]) simp
  qed
qed

lemma repr_nodes: "repr ch t \<Longrightarrow> set (nodes t) = sub ch (root t)"
proof (induction t)
  case (Node a ts)
  have "sub ch a = insert a (\<Union>t\<in>set ts. sub ch (root t))"
    using sub_unfold [of ch a] Node.prems by simp
  moreover have "set (nodes t) = sub ch (root t)" if "t \<in> set ts" for t
    using Node that by simp
  ultimately show ?case by simp
qed

section \<open>Each chunk once\<close>

lemma sub_comparable:
  assumes T: "tree_inv X s ch" and "x \<in> sub ch a" and "x \<in> sub ch b"
  shows "a \<in> sub ch b \<or> b \<in> sub ch a"
  using assms(2,3)
proof (induction rule: sub_induct)
  case (step x y)
  from sub_child_cases [OF T step.hyps(2), of b] step.prems
  consider "b = y" | "x \<in> sub ch b" by blast
  then show ?case
  proof cases
    case 1
    then show ?thesis using step.hyps sub_step [where b = x and c = y and ch = ch] by simp
  qed (rule step.IH)
qed simp

lemma siblings_disjoint:
  assumes T: "tree_inv X s ch" and rk: "ranked ch" and d: "d \<in> set (ch p)" "d' \<in> set (ch p)" "d \<noteq> d'"
  shows "sub ch d \<inter> sub ch d' = {}"
proof -
  have no: "a \<notin> sub ch b" if "a \<in> set (ch p)" "b \<in> set (ch p)" "a \<noteq> b" for a b
    using sub_child_cases [OF T that(1), of b] sub_ranked [OF rk that(2)] that(3) by blast
  have "x \<notin> sub ch d'" if "x \<in> sub ch d" for x
    using sub_comparable [OF T that, of d'] no d by blast
  then show ?thesis by blast
qed

lemma repr_distinct:
  assumes T: "tree_inv X s ch" and rk: "ranked ch"
  shows "repr ch t \<Longrightarrow> distinct (nodes t)"
proof (induction t)
  case (Node a ts)
  have c: "ch a = map root ts" using Node.prems by simp
  have r: "repr ch t" "distinct (nodes t)" if "t \<in> set ts" for t
    using Node that by simp_all
  have dts: "distinct (map root ts)" using tree_invD(7) [OF T, of a] c by simp
  have "a \<notin> set (nodes t)" if "t \<in> set ts" for t
    using repr_nodes [OF r(1) [OF that]] sub_ranked [OF rk, of "root t" a] c that by simp
  moreover have "distinct (concat (map nodes us))" if "set us \<subseteq> set ts" "distinct (map root us)" for us
    using that
  proof (induction us)
    case (Cons u us)
    have u: "u \<in> set ts" using Cons.prems by simp
    have "set (nodes u) \<inter> set (nodes v) = {}" if v: "v \<in> set us" for v
    proof -
      have v': "v \<in> set ts" and ne: "root u \<noteq> root v" using Cons.prems v by auto
      have "sub ch (root u) \<inter> sub ch (root v) = {}"
        by (rule siblings_disjoint [OF T rk, of _ a]) (use c u v' ne in auto)
      then show ?thesis using repr_nodes [OF r(1) [OF u]] repr_nodes [OF r(1) [OF v']] by simp
    qed
    then show ?case using Cons r(2) [OF u] by auto
  qed simp
  ultimately show ?case using dts by auto
qed

lemma repr_length:
  assumes "tree_inv X s ch" and "ranked ch" and "repr ch t"
  shows "length (nodes t) = card (sub ch (root t))"
  using repr_distinct [OF assms] repr_nodes [OF assms(3)] distinct_card by metis

lemma repr_sum:
  assumes "tree_inv X s ch" and "ranked ch" and "repr ch t"
  shows "sum_list (map f (nodes t)) = sum f (sub ch (root t))"
  using repr_distinct [OF assms] repr_nodes [OF assms(3)] by (metis sum_list_distinct_conv_sum_set)

section \<open>Counting over a subtree with the loop flag\<close>

text \<open>
  \<open>talloc_total_size\<close> and \<open>talloc_total_blocks\<close> are one scheme: mark the chunk, add up
  what the children give, unmark.  The scheme is the locale's interface; its result is
  proved once.
\<close>

abbreviation (input) set_loop :: "talloc_chunk \<Rightarrow> talloc_chunk" where
  "set_loop \<equiv> \<lambda>c. c\<lparr>tc_flags := tc_flags c OR TALLOC_FLAG_LOOP\<rparr>"

abbreviation (input) clear_loop :: "talloc_chunk \<Rightarrow> talloc_chunk" where
  "clear_loop \<equiv> \<lambda>c. c\<lparr>tc_flags := tc_flags c AND NOT TALLOC_FLAG_LOOP\<rparr>"

lemma loop_flag_restored:
  assumes "live s a" and "fld tc_flags 0 s a = TALLOC_MAGIC"
  shows "mod_chunk (mod_chunk s a set_loop) a clear_loop = s"
proof -
  have "(TALLOC_MAGIC OR TALLOC_FLAG_LOOP) AND NOT TALLOC_FLAG_LOOP = TALLOC_MAGIC"
    by (simp add: TALLOC_MAGIC_def TALLOC_FLAG_LOOP_def)
  then have "map_option clear_loop (map_option set_loop (chunks s a)) = chunks s a"
    using assms by (cases "chunks s a") (simp_all add: acc)
  then show ?thesis
    by (cases s) (simp add: mod_chunk_def fun_upd_idem)
qed

locale flag_walk =
  fixes visit :: "nat \<Rightarrow> tstate \<Rightarrow> addr \<Rightarrow> (nat \<times> tstate) res"
    and loop :: "nat \<Rightarrow> tstate \<Rightarrow> addr \<Rightarrow> nat \<Rightarrow> (nat \<times> tstate) res"
    and weight :: "tstate \<Rightarrow> addr \<Rightarrow> nat"
  assumes visit_step: "live s a \<Longrightarrow> fld tc_flags 0 s a = TALLOC_MAGIC \<Longrightarrow>
      visit (Suc n) s (TC_PTR_FROM_CHUNK a) =
        bnd (loop n (mod_chunk s a set_loop) (chd s a) (weight s a)) (\<lambda>(t, s).
        bnd (upd s a clear_loop) (\<lambda>s. Inr (t, s)))"
    and loop_end: "loop (Suc n) s NULL t = Inr (t, s)"
    and loop_step: "c \<noteq> NULL \<Longrightarrow> loop (Suc n) s c t =
        bnd (visit n s (TC_PTR_FROM_CHUNK c)) (\<lambda>(k, s).
        bnd (rd s c) (\<lambda>d. loop n s (tc_next d) (t + k)))"
    and weight_mod: "weight (mod_chunk s a set_loop) = weight s"
begin

lemma loop_siblings:
  assumes seg: "dseg (nxt s) (prv s) q (map root ts) NULL"
    and lv: "\<And>t. t \<in> set ts \<Longrightarrow> live s (root t)"
    and IH: "\<And>t n. t \<in> set ts \<Longrightarrow> 2 * length (nodes t) \<le> n \<Longrightarrow>
      visit n s (TC_PTR_FROM_CHUNK (root t)) = Inr (sum_list (map (weight s) (nodes t)), s)"
    and n: "2 * length (concat (map nodes ts)) + 1 \<le> n"
  shows "loop n s (hdd (map root ts) NULL) k =
    Inr (k + sum_list (map (weight s) (concat (map nodes ts))), s)"
  using assms
proof (induction ts arbitrary: n k q)
  case Nil
  then show ?case by (cases n) (simp_all add: loop_end)
next
  case (Cons t ts)
  obtain m where m: "n = Suc m" using Cons.prems(4) by (cases n) simp_all
  have fuel: "2 * length (nodes t) \<le> m" "2 * length (concat (map nodes ts)) + 1 \<le> m"
    using Cons.prems(4) nodes_pos(1) [of t] unfolding m list.map concat.simps length_append by - arith+
  have t: "root t \<noteq> NULL" "nxt s (root t) = hdd (map root ts) NULL" "live s (root t)"
    using Cons.prems by simp_all
  have "visit m s (TC_PTR_FROM_CHUNK (root t)) = Inr (sum_list (map (weight s) (nodes t)), s)"
    using Cons.prems(3) [of t m] fuel by simp
  moreover have "loop m s (hdd (map root ts) NULL) (k + sum_list (map (weight s) (nodes t))) =
      Inr (k + sum_list (map (weight s) (nodes t)) + sum_list (map (weight s) (concat (map nodes ts))), s)"
    by (rule Cons.IH [of "root t"]) (use Cons.prems fuel in auto)
  ultimately show ?case
    using t by (simp add: m loop_step bnd_rd fields_the ac_simps)
qed

lemma visit_tree:
  assumes rk: "ranked ch"
  shows "tree_inv {} s ch \<Longrightarrow> repr ch t \<Longrightarrow> live s (root t) \<Longrightarrow>
    (\<And>a. a \<in> sub ch (root t) \<Longrightarrow> fld tc_flags 0 s a = TALLOC_MAGIC) \<Longrightarrow> 2 * length (nodes t) \<le> n \<Longrightarrow>
    visit n s (TC_PTR_FROM_CHUNK (root t)) = Inr (sum_list (map (weight s) (nodes t)), s)"
proof (induction t arbitrary: s n)
  case (Node a ts)
  define s1 where "s1 = mod_chunk s a set_loop"
  have c: "ch a = map root ts" "\<And>t. t \<in> set ts \<Longrightarrow> repr ch t" using Node.prems by simp_all
  have a: "live s a" "fld tc_flags 0 s a = TALLOC_MAGIC" using Node.prems(3,4) by simp_all
  obtain m where m: "n = Suc m" using Node.prems(5) by (cases n) simp_all
  have T1: "tree_inv {} s1 ch" using Node.prems(1) by (simp add: s1_def tree_inv_mod)
  note D = tree_invD [OF T1]
  have "loop m s1 (hdd (map root ts) NULL) (weight s a) =
      Inr (weight s a + sum_list (map (weight s1) (concat (map nodes ts))), s1)"
  proof (rule loop_siblings)
    show "dseg (nxt s1) (prv s1) NULL (map root ts) NULL" using D(10) [of a] c(1) by simp
    show "2 * length (concat (map nodes ts)) + 1 \<le> m" using Node.prems(5) m by simp
    show lv: "live s1 (root t)" if "t \<in> set ts" for t using D(5) [of "root t" a] c(1) that by simp
    show "visit k s1 (TC_PTR_FROM_CHUNK (root t)) = Inr (sum_list (map (weight s1) (nodes t)), s1)"
      if t: "t \<in> set ts" and k: "2 * length (nodes t) \<le> k" for t k
    proof (rule Node.IH [OF t T1 c(2) [OF t] lv [OF t] _ k])
      fix b assume b: "b \<in> sub ch (root t)"
      have rt: "root t \<in> set (ch a)" using t c(1) by simp
      have "b \<noteq> a" using sub_ranked [OF rk rt] b by auto
      moreover have "b \<in> sub ch a"
        using sub_trans [OF _ b] sub_step [where b = a and a = a and c = "root t" and ch = ch] rt by auto
      ultimately show "fld tc_flags 0 s1 b = TALLOC_MAGIC"
        using Node.prems(4) by (simp add: s1_def mod_chunk_def acc)
    qed
  qed
  moreover have "chd s a = hdd (map root ts) NULL"
    using tree_invD(9) [OF Node.prems(1) a(1)] c(1) by simp
  moreover have "mod_chunk s1 a clear_loop = s" unfolding s1_def by (rule loop_flag_restored [OF a])
  moreover have "live s1 a" using a by (simp add: s1_def view)
  ultimately show ?case
    using visit_step [OF a, of m] by (simp add: m upd_live s1_def weight_mod)
qed

lemma visit_sub:
  assumes "heap {} s ch rf" and "ranked ch" and "live s a" and "2 * card (sub ch a) \<le> n"
  shows "visit n s (TC_PTR_FROM_CHUNK a) = Inr (sum (weight s) (sub ch a), s)"
proof -
  note T = heapD(1) [OF assms(1)]
  obtain t where t: "repr ch t" "root t = a" using repr_exists [OF assms(2)] by blast
  have "fld tc_flags 0 s b = TALLOC_MAGIC" if "b \<in> sub ch a" for b
    using heapD(3) [OF assms(1)] sub_live [OF T assms(3)] that by (auto simp: flags_ok_def)
  then show ?thesis
    using visit_tree [OF assms(2) T t(1), of n] t assms(3,4) repr_length [OF T assms(2) t(1)]
      repr_sum [OF T assms(2) t(1), of "weight s"] by simp
qed

end

end
