(* ===== verification/Talloc_Query.thy ===== *)
theory Talloc_Query
  imports Talloc_Tree
begin

unbundle bit_operations_syntax

text \<open>
  The functions of \<open>lib/talloc/talloc.c\<close> that look at the tree: names, sizes, counts,
  the search for a parent by name, and the reports.  Text that goes to a \<open>FILE\<close> is
  modelled as the list of records that are printed, one per \<open>fprintf\<close>.
\<close>

section \<open>Strings in user areas and names\<close>

text \<open>
  A C string ends at the first zero byte.  Reading past the end of a block is a bad
  access, reading a byte that was never written is reported as such.
\<close>

abbreviation NUL :: char where "NUL \<equiv> CHR 0x00"

fun c_string :: "char option list \<Rightarrow> string res" where
  "c_string [] = Inl Bad_access"
| "c_string (None # bs) = Inl Uninitialised"
| "c_string (Some c # bs) =
     (if c = NUL then Inr '''' else bnd (c_string bs) (\<lambda>cs. Inr (c # cs)))"

definition string_at :: "tstate \<Rightarrow> addr \<Rightarrow> string res" where
  "string_at s p = (case bytes s p of None \<Rightarrow> Inl Bad_access | Some bs \<Rightarrow> c_string bs)"

text \<open>The string behind a name pointer that is handed to \<open>strcmp\<close> or \<open>printf\<close>.\<close>

definition name_string :: "tstate \<Rightarrow> cname \<Rightarrow> string res" where
  "name_string s nm = (case nm of
       NConst str \<Rightarrow> Inr str
     | NPtr p \<Rightarrow> string_at s p
     | NNull \<Rightarrow> Inl Bad_access
     | NMagicRef \<Rightarrow> Inl Bad_access)"

definition talloc_get_name :: "tstate \<Rightarrow> addr \<Rightarrow> cname res" where
  "talloc_get_name s ptr =
     bnd (talloc_chunk_from_ptr s ptr) (\<lambda>tc.
     bnd (rd s tc) (\<lambda>c.
     if tc_name c = NMagicRef then Inr (NConst ''.reference'')
     else if tc_name c \<noteq> NNull then Inr (tc_name c)
     else Inr (NConst ''UNNAMED'')))"

definition talloc_check_name :: "tstate \<Rightarrow> addr \<Rightarrow> cname \<Rightarrow> addr res" where
  "talloc_check_name s ptr name =
     (if ptr = NULL then Inr NULL else
      bnd (talloc_get_name s ptr) (\<lambda>pname.
      if pname = name then Inr ptr else
      bnd (name_string s pname) (\<lambda>a.
      bnd (name_string s name) (\<lambda>b.
      Inr (if a = b then ptr else NULL)))))"

definition talloc_get_size :: "tstate \<Rightarrow> addr \<Rightarrow> nat res" where
  "talloc_get_size s context =
     (if context = NULL then Inr 0 else
      bnd (talloc_chunk_from_ptr s context) (\<lambda>tc. bnd (rd s tc) (\<lambda>c. Inr (tc_size c))))"

section \<open>Sums over a subtree\<close>

fun talloc_total_size :: "nat \<Rightarrow> tstate \<Rightarrow> addr \<Rightarrow> (nat \<times> tstate) res"
and total_size_loop :: "nat \<Rightarrow> tstate \<Rightarrow> addr \<Rightarrow> nat \<Rightarrow> (nat \<times> tstate) res" where
  "talloc_total_size 0 s ptr = Inl No_fuel"
| "talloc_total_size (Suc n) s ptr =
     (let ptr = (if ptr = NULL then null_context s else ptr) in
      if ptr = NULL then Inr (0, s) else
      bnd (talloc_chunk_from_ptr s ptr) (\<lambda>tc.
      bnd (rd s tc) (\<lambda>c.
      if tc_flags c AND TALLOC_FLAG_LOOP \<noteq> 0 then Inr (0, s) else
      bnd (upd s tc (\<lambda>c. c\<lparr>tc_flags := tc_flags c OR TALLOC_FLAG_LOOP\<rparr>)) (\<lambda>s.
      bnd (total_size_loop n s (tc_child c) (tc_size c)) (\<lambda>(tot, s).
      bnd (upd s tc (\<lambda>c. c\<lparr>tc_flags := tc_flags c AND NOT TALLOC_FLAG_LOOP\<rparr>)) (\<lambda>s.
      Inr (tot, s)))))))"
| "total_size_loop 0 s c tot = Inl No_fuel"
| "total_size_loop (Suc n) s c tot =
     (if c = NULL then Inr (tot, s) else
      bnd (talloc_total_size n s (TC_PTR_FROM_CHUNK c)) (\<lambda>(k, s).
      bnd (rd s c) (\<lambda>d. total_size_loop n s (tc_next d) (tot + k))))"

fun talloc_total_blocks :: "nat \<Rightarrow> tstate \<Rightarrow> addr \<Rightarrow> (nat \<times> tstate) res"
and total_blocks_loop :: "nat \<Rightarrow> tstate \<Rightarrow> addr \<Rightarrow> nat \<Rightarrow> (nat \<times> tstate) res" where
  "talloc_total_blocks 0 s ptr = Inl No_fuel"
| "talloc_total_blocks (Suc n) s ptr =
     bnd (talloc_chunk_from_ptr s ptr) (\<lambda>tc.
     bnd (rd s tc) (\<lambda>c.
     if tc_flags c AND TALLOC_FLAG_LOOP \<noteq> 0 then Inr (0, s) else
     bnd (upd s tc (\<lambda>c. c\<lparr>tc_flags := tc_flags c OR TALLOC_FLAG_LOOP\<rparr>)) (\<lambda>s.
     bnd (total_blocks_loop n s (tc_child c) 1) (\<lambda>(tot, s).
     bnd (upd s tc (\<lambda>c. c\<lparr>tc_flags := tc_flags c AND NOT TALLOC_FLAG_LOOP\<rparr>)) (\<lambda>s.
     Inr (tot, s))))))"
| "total_blocks_loop 0 s c tot = Inl No_fuel"
| "total_blocks_loop (Suc n) s c tot =
     (if c = NULL then Inr (tot, s) else
      bnd (talloc_total_blocks n s (TC_PTR_FROM_CHUNK c)) (\<lambda>(k, s).
      bnd (rd s c) (\<lambda>d. total_blocks_loop n s (tc_next d) (tot + k))))"

text \<open>\<open>for (h=tc->refs;h;h=h->next) ret++;\<close>\<close>

fun count_refs :: "nat \<Rightarrow> tstate \<Rightarrow> addr \<Rightarrow> nat \<Rightarrow> nat res" where
  "count_refs 0 s h k = Inl No_fuel"
| "count_refs (Suc n) s h k =
     (if h = NULL then Inr k else bnd (rdh s h) (\<lambda>r. count_refs n s (h_next r) (k + 1)))"

definition talloc_reference_count :: "nat \<Rightarrow> tstate \<Rightarrow> addr \<Rightarrow> nat res" where
  "talloc_reference_count n s ptr =
     bnd (talloc_chunk_from_ptr s ptr) (\<lambda>tc.
     bnd (rd s tc) (\<lambda>c. count_refs n s (tc_refs c) 0))"

section \<open>Towards the root\<close>

text \<open>
  \<open>talloc_find_parent_byname\<close> tests \<open>tc->name\<close> against null only: the marker of a
  reference handle is passed on to \<open>strcmp\<close>.
\<close>

fun find_byname_loop :: "nat \<Rightarrow> tstate \<Rightarrow> addr \<Rightarrow> string \<Rightarrow> addr res" where
  "find_byname_loop 0 s tc name = Inl No_fuel"
| "find_byname_loop (Suc n) s tc name =
     (if tc = NULL then Inr NULL else
      bnd (rd s tc) (\<lambda>c.
      bnd (if tc_name c \<noteq> NNull then bnd (name_string s (tc_name c)) (\<lambda>a. Inr (a = name))
           else Inr False) (\<lambda>hit.
      if hit then Inr (TC_PTR_FROM_CHUNK tc)
      else bnd (first_sibling n s tc) (\<lambda>t.
           bnd (rd s t) (\<lambda>c. find_byname_loop n s (tc_parent c) name)))))"

definition talloc_find_parent_byname :: "nat \<Rightarrow> tstate \<Rightarrow> addr \<Rightarrow> string \<Rightarrow> addr res" where
  "talloc_find_parent_byname n s context name =
     (if context = NULL then Inr NULL
      else bnd (talloc_chunk_from_ptr s context) (\<lambda>tc. find_byname_loop n s tc name))"

section \<open>Reports\<close>

text \<open>What the reports print.\<close>

datatype report_line =
    No_parents_for_NULL
  | Parents_of string
  | Parent string
  | Reference_to int string                       \<comment> \<open>indentation, name\<close>
  | Report_on bool string nat nat                 \<comment> \<open>full, name, bytes, blocks\<close>
  | Contains int string nat nat nat addr          \<comment> \<open>indentation, name, bytes, blocks, refs, ptr\<close>

fun show_parents_loop :: "nat \<Rightarrow> tstate \<Rightarrow> addr \<Rightarrow> report_line list \<Rightarrow> report_line list res" where
  "show_parents_loop 0 s tc out = Inl No_fuel"
| "show_parents_loop (Suc n) s tc out =
     (if tc = NULL then Inr out else
      bnd (talloc_get_name s (TC_PTR_FROM_CHUNK tc)) (\<lambda>nm.
      bnd (name_string s nm) (\<lambda>str.
      bnd (first_sibling n s tc) (\<lambda>t.
      bnd (rd s t) (\<lambda>c. show_parents_loop n s (tc_parent c) (out @ [Parent str]))))))"

definition talloc_show_parents ::
    "nat \<Rightarrow> tstate \<Rightarrow> addr \<Rightarrow> report_line list \<Rightarrow> report_line list res" where
  "talloc_show_parents n s context out =
     (if context = NULL then Inr (out @ [No_parents_for_NULL]) else
      bnd (talloc_chunk_from_ptr s context) (\<lambda>tc.
      bnd (talloc_get_name s context) (\<lambda>nm.
      bnd (name_string s nm) (\<lambda>str.
      show_parents_loop n s tc (out @ [Parents_of str])))))"

text \<open>
  The callback gets the pointer, the two depths, the \<open>is_ref\<close> flag, the memory and its
  private data, and returns the last two updated.
\<close>

type_synonym 'p report_cb = "addr \<Rightarrow> int \<Rightarrow> int \<Rightarrow> bool \<Rightarrow> tstate \<times> 'p \<Rightarrow> (tstate \<times> 'p) res"

fun talloc_report_depth_cb ::
    "nat \<Rightarrow> 'p report_cb \<Rightarrow> int \<Rightarrow> addr \<Rightarrow> int \<Rightarrow> tstate \<times> 'p \<Rightarrow> (tstate \<times> 'p) res"
and report_loop ::
    "nat \<Rightarrow> 'p report_cb \<Rightarrow> int \<Rightarrow> addr \<Rightarrow> int \<Rightarrow> tstate \<times> 'p \<Rightarrow> (tstate \<times> 'p) res" where
  "talloc_report_depth_cb 0 cb max_depth ptr depth w = Inl No_fuel"
| "talloc_report_depth_cb (Suc n) cb max_depth ptr depth w =
     (let ptr = (if ptr = NULL then null_context (fst w) else ptr) in
      if ptr = NULL then Inr w else
      bnd (talloc_chunk_from_ptr (fst w) ptr) (\<lambda>tc.
      bnd (rd (fst w) tc) (\<lambda>c.
      if tc_flags c AND TALLOC_FLAG_LOOP \<noteq> 0 then Inr w else
      bnd (cb ptr depth max_depth False w) (\<lambda>w.
      if max_depth \<ge> 0 \<and> depth \<ge> max_depth then Inr w else
      bnd (upd (fst w) tc (\<lambda>c. c\<lparr>tc_flags := tc_flags c OR TALLOC_FLAG_LOOP\<rparr>)) (\<lambda>s.
      bnd (rd s tc) (\<lambda>c.
      bnd (report_loop n cb max_depth (tc_child c) depth (s, snd w)) (\<lambda>w.
      bnd (upd (fst w) tc (\<lambda>c. c\<lparr>tc_flags := tc_flags c AND NOT TALLOC_FLAG_LOOP\<rparr>)) (\<lambda>s.
      Inr (s, snd w)))))))))"
| "report_loop 0 cb max_depth c depth w = Inl No_fuel"
| "report_loop (Suc n) cb max_depth c depth w =
     (if c = NULL then Inr w else
      bnd (rd (fst w) c) (\<lambda>k.
      bnd (if tc_name k = NMagicRef then
             bnd (rdh (fst w) (TC_PTR_FROM_CHUNK c)) (\<lambda>h.
             cb (h_ptr h) (depth + 1) max_depth True w)
           else talloc_report_depth_cb n cb max_depth (TC_PTR_FROM_CHUNK c) (depth + 1) w) (\<lambda>w.
      bnd (rd (fst w) c) (\<lambda>k. report_loop n cb max_depth (tc_next k) depth w))))"

definition talloc_report_depth_FILE_helper :: "nat \<Rightarrow> report_line list report_cb" where
  "talloc_report_depth_FILE_helper n ptr depth max_depth is_ref w =
     bnd (talloc_get_name (fst w) ptr) (\<lambda>nm.
     if is_ref then
       bnd (name_string (fst w) nm) (\<lambda>name. Inr (fst w, snd w @ [Reference_to (depth * 4) name]))
     else if depth = 0 then
       bnd (talloc_total_blocks n (fst w) ptr) (\<lambda>(blocks, s).
       bnd (talloc_total_size n s ptr) (\<lambda>(tot, s).
       bnd (name_string s nm) (\<lambda>name.
       Inr (s, snd w @ [Report_on (max_depth < 0) name tot blocks]))))
     else
       bnd (talloc_reference_count n (fst w) ptr) (\<lambda>refs.
       bnd (talloc_total_blocks n (fst w) ptr) (\<lambda>(blocks, s).
       bnd (talloc_total_size n s ptr) (\<lambda>(tot, s).
       bnd (name_string s nm) (\<lambda>name.
       Inr (s, snd w @ [Contains (depth * 4) name tot blocks refs ptr]))))))"

definition talloc_report_depth_file ::
    "nat \<Rightarrow> addr \<Rightarrow> int \<Rightarrow> int \<Rightarrow> tstate \<times> report_line list \<Rightarrow> (tstate \<times> report_line list) res" where
  "talloc_report_depth_file n ptr depth max_depth w =
     talloc_report_depth_cb n (talloc_report_depth_FILE_helper n) max_depth ptr depth w"

definition talloc_report_full ::
    "nat \<Rightarrow> addr \<Rightarrow> tstate \<times> report_line list \<Rightarrow> (tstate \<times> report_line list) res" where
  "talloc_report_full n ptr w = talloc_report_depth_file n ptr 0 (-1) w"

definition talloc_report ::
    "nat \<Rightarrow> addr \<Rightarrow> tstate \<times> report_line list \<Rightarrow> (tstate \<times> report_line list) res" where
  "talloc_report n ptr w = talloc_report_depth_file n ptr 0 1 w"

definition talloc_report_null :: "nat \<Rightarrow> tstate \<times> report_line list \<Rightarrow> (tstate \<times> report_line list) res" where
  "talloc_report_null n w =
     bnd (talloc_total_size n (fst w) (null_context (fst w))) (\<lambda>(tot, s).
     if tot \<noteq> 0 then talloc_report n (null_context s) (s, snd w) else Inr (s, snd w))"

definition talloc_report_null_full ::
    "nat \<Rightarrow> tstate \<times> report_line list \<Rightarrow> (tstate \<times> report_line list) res" where
  "talloc_report_null_full n w =
     bnd (talloc_total_size n (fst w) (null_context (fst w))) (\<lambda>(tot, s).
     if tot \<noteq> 0 then talloc_report_full n (null_context s) (s, snd w) else Inr (s, snd w))"

text \<open>The handlers passed to \<open>atexit\<close>, as the call that registers them.\<close>

datatype exit_handler = Report_null | Report_null_full

definition talloc_enable_leak_report :: "libc \<Rightarrow> tstate \<Rightarrow> (exit_handler \<times> tstate) res" where
  "talloc_enable_leak_report E s =
     bnd (talloc_enable_null_tracking E s) (\<lambda>s. Inr (Report_null, s))"

definition talloc_enable_leak_report_full :: "libc \<Rightarrow> tstate \<Rightarrow> (exit_handler \<times> tstate) res" where
  "talloc_enable_leak_report_full E s =
     bnd (talloc_enable_null_tracking E s) (\<lambda>s. Inr (Report_null_full, s))"

end
