(* ===== verification/Talloc_String.thy ===== *)
theory Talloc_String
  imports Talloc_Query
begin

unbundle bit_operations_syntax

text \<open>
  The functions of \<open>lib/talloc/talloc.c\<close> that fill the memory they allocate: zeroed and
  copied blocks, strings, formatted strings and names, arrays.

  A \<open>const char *\<close> argument is its string, without the terminator, or \<open>None\<close> for the null
  pointer; it does not point into the block that is resized.  \<open>vsnprintf\<close> is a parameter:
  \<open>render\<close> is the text it makes of the format and its arguments, \<open>None\<close> when it fails.
\<close>

section \<open>Writing into user areas\<close>

definition put :: "tstate \<Rightarrow> addr \<Rightarrow> nat \<Rightarrow> char option list \<Rightarrow> tstate res" where
  "put s p i cs = (case bytes s p of
       None \<Rightarrow> Inl Bad_access
     | Some b \<Rightarrow>
         if i + length cs \<le> length b
         then Inr (s\<lparr>bytes := (bytes s)(p \<mapsto> take i b @ cs @ drop (i + length cs) b)\<rparr>)
         else Inl Bad_access)"

definition put_string :: "tstate \<Rightarrow> addr \<Rightarrow> nat \<Rightarrow> string \<Rightarrow> tstate res" where
  "put_string s p i cs = put s p i (map Some cs)"

text \<open>\<open>memcpy\<close> of \<open>n\<close> bytes from a region that holds \<open>src\<close>.\<close>

definition copy_from :: "tstate \<Rightarrow> addr \<Rightarrow> char option list \<Rightarrow> nat \<Rightarrow> tstate res" where
  "copy_from s p src n = (if n \<le> length src then put s p 0 (take n src) else Inl Bad_access)"

definition strlen_at :: "tstate \<Rightarrow> addr \<Rightarrow> nat res" where
  "strlen_at s p = bnd (string_at s p) (\<lambda>cs. Inr (length cs))"

section \<open>Blocks\<close>

definition u_talloc_zero :: "libc \<Rightarrow> tstate \<Rightarrow> addr \<Rightarrow> nat \<Rightarrow> cname \<Rightarrow> (addr \<times> tstate) res" where
  "u_talloc_zero E s ctx n nm =
     bnd (u_talloc_named_const E s ctx n nm) (\<lambda>(p, s).
     if p \<noteq> NULL then bnd (put_string s p 0 (replicate n NUL)) (\<lambda>s. Inr (p, s)) else Inr (p, s))"

definition u_talloc_memdup ::
    "libc \<Rightarrow> tstate \<Rightarrow> addr \<Rightarrow> char option list \<Rightarrow> nat \<Rightarrow> cname \<Rightarrow> (addr \<times> tstate) res" where
  "u_talloc_memdup E s t p n nm =
     bnd (u_talloc_named_const E s t n nm) (\<lambda>(newp, s).
     if newp \<noteq> NULL then bnd (copy_from s newp p n) (\<lambda>s. Inr (newp, s)) else Inr (newp, s))"

section \<open>Arrays\<close>

text \<open>
  \<open>el_size\<close> is a \<open>size_t\<close>, \<open>count\<close> an \<open>unsigned\<close>; the division and the product are those of
  \<open>size_t\<close>.  \<open>array_size\<close> is \<open>None\<close> where the C functions return null at once.
\<close>

definition array_size :: "64 word \<Rightarrow> 32 word \<Rightarrow> nat option res" where
  "array_size el_size count =
     (if el_size = 0 then Inl Div_by_zero
      else if (ucast count :: 64 word) \<ge> word_of_nat MAX_TALLOC_SIZE div el_size then Inr None
      else Inr (Some (unat (el_size * ucast count))))"

definition u_talloc_array ::
    "libc \<Rightarrow> tstate \<Rightarrow> addr \<Rightarrow> 64 word \<Rightarrow> 32 word \<Rightarrow> cname \<Rightarrow> (addr \<times> tstate) res" where
  "u_talloc_array E s ctx el_size count nm =
     bnd (array_size el_size count) (\<lambda>sz. case sz of
       None \<Rightarrow> Inr (NULL, s)
     | Some n \<Rightarrow> u_talloc_named_const E s ctx n nm)"

definition u_talloc_zero_array ::
    "libc \<Rightarrow> tstate \<Rightarrow> addr \<Rightarrow> 64 word \<Rightarrow> 32 word \<Rightarrow> cname \<Rightarrow> (addr \<times> tstate) res" where
  "u_talloc_zero_array E s ctx el_size count nm =
     bnd (array_size el_size count) (\<lambda>sz. case sz of
       None \<Rightarrow> Inr (NULL, s)
     | Some n \<Rightarrow> u_talloc_zero E s ctx n nm)"

definition u_talloc_realloc_array ::
    "libc \<Rightarrow> nat \<Rightarrow> tstate \<Rightarrow> addr \<Rightarrow> addr \<Rightarrow> 64 word \<Rightarrow> 32 word \<Rightarrow> cname \<Rightarrow> (addr \<times> tstate) res" where
  "u_talloc_realloc_array E f s ctx ptr el_size count nm =
     bnd (array_size el_size count) (\<lambda>sz. case sz of
       None \<Rightarrow> Inr (NULL, s)
     | Some n \<Rightarrow> u_talloc_realloc E f s ctx ptr n nm)"

section \<open>Copies of strings\<close>

definition u_talloc_strlendup :: "libc \<Rightarrow> tstate \<Rightarrow> addr \<Rightarrow> string \<Rightarrow> nat \<Rightarrow> (addr \<times> tstate) res" where
  "u_talloc_strlendup E s t p len =
     bnd (uu_talloc E s t (len + 1)) (\<lambda>(ret, s).
     if ret = NULL then Inr (NULL, s) else
     bnd (put_string s ret 0 (take len p)) (\<lambda>s.
     bnd (put_string s ret len [NUL]) (\<lambda>s.
     bnd (u_talloc_set_name_const s ret (NPtr ret)) (\<lambda>s.
     Inr (ret, s)))))"

definition talloc_strdup :: "libc \<Rightarrow> tstate \<Rightarrow> addr \<Rightarrow> string option \<Rightarrow> (addr \<times> tstate) res" where
  "talloc_strdup E s t p = (case p of
       None \<Rightarrow> Inr (NULL, s)
     | Some p \<Rightarrow> u_talloc_strlendup E s t p (length p))"

definition strnlen :: "string \<Rightarrow> nat \<Rightarrow> nat" where
  "strnlen p n = min (length p) n"

definition talloc_strndup :: "libc \<Rightarrow> tstate \<Rightarrow> addr \<Rightarrow> string option \<Rightarrow> nat \<Rightarrow> (addr \<times> tstate) res" where
  "talloc_strndup E s t p n = (case p of
       None \<Rightarrow> Inr (NULL, s)
     | Some p \<Rightarrow> u_talloc_strlendup E s t p (strnlen p n))"

section \<open>Appending\<close>

text \<open>The count handed to \<open>talloc_realloc(NULL, s, char, \<dots>)\<close> is an \<open>unsigned\<close>.\<close>

definition u_talloc_strlendup_append ::
    "libc \<Rightarrow> nat \<Rightarrow> tstate \<Rightarrow> addr \<Rightarrow> nat \<Rightarrow> string \<Rightarrow> nat \<Rightarrow> (addr \<times> tstate) res" where
  "u_talloc_strlendup_append E f s str slen a alen =
     bnd (u_talloc_realloc_array E f s NULL str 1 (word_of_nat (slen + alen + 1)) (NConst ''char'')) (\<lambda>(ret, s).
     if ret = NULL then Inr (NULL, s) else
     bnd (put_string s ret slen (take alen a)) (\<lambda>s.
     bnd (put_string s ret (slen + alen) [NUL]) (\<lambda>s.
     bnd (u_talloc_set_name_const s ret (NPtr ret)) (\<lambda>s.
     Inr (ret, s)))))"

definition buffer_len :: "tstate \<Rightarrow> addr \<Rightarrow> nat res" where
  \<comment> \<open>\<open>slen = talloc_get_size(s); if (slen > 0) slen--;\<close>\<close>
  "buffer_len s str = bnd (talloc_get_size s str) (\<lambda>slen. Inr (if slen > 0 then slen - 1 else slen))"

definition talloc_strdup_append ::
    "libc \<Rightarrow> nat \<Rightarrow> tstate \<Rightarrow> addr \<Rightarrow> string option \<Rightarrow> (addr \<times> tstate) res" where
  "talloc_strdup_append E f s str a =
     (if str = NULL then talloc_strdup E s NULL a
      else case a of None \<Rightarrow> Inr (str, s)
      | Some a \<Rightarrow> bnd (strlen_at s str) (\<lambda>slen.
          u_talloc_strlendup_append E f s str slen a (length a)))"

definition talloc_strdup_append_buffer ::
    "libc \<Rightarrow> nat \<Rightarrow> tstate \<Rightarrow> addr \<Rightarrow> string option \<Rightarrow> (addr \<times> tstate) res" where
  "talloc_strdup_append_buffer E f s str a =
     (if str = NULL then talloc_strdup E s NULL a
      else case a of None \<Rightarrow> Inr (str, s)
      | Some a \<Rightarrow> bnd (buffer_len s str) (\<lambda>slen.
          u_talloc_strlendup_append E f s str slen a (length a)))"

text \<open>With a null first argument the limit \<open>n\<close> is not used.\<close>

definition talloc_strndup_append ::
    "libc \<Rightarrow> nat \<Rightarrow> tstate \<Rightarrow> addr \<Rightarrow> string option \<Rightarrow> nat \<Rightarrow> (addr \<times> tstate) res" where
  "talloc_strndup_append E f s str a n =
     (if str = NULL then talloc_strdup E s NULL a
      else case a of None \<Rightarrow> Inr (str, s)
      | Some a \<Rightarrow> bnd (strlen_at s str) (\<lambda>slen.
          u_talloc_strlendup_append E f s str slen a (strnlen a n)))"

definition talloc_strndup_append_buffer ::
    "libc \<Rightarrow> nat \<Rightarrow> tstate \<Rightarrow> addr \<Rightarrow> string option \<Rightarrow> nat \<Rightarrow> (addr \<times> tstate) res" where
  "talloc_strndup_append_buffer E f s str a n =
     (if str = NULL then talloc_strdup E s NULL a
      else case a of None \<Rightarrow> Inr (str, s)
      | Some a \<Rightarrow> bnd (buffer_len s str) (\<lambda>slen.
          u_talloc_strlendup_append E f s str slen a (strnlen a n)))"

section \<open>Formatted strings\<close>

definition talloc_vasprintf :: "libc \<Rightarrow> tstate \<Rightarrow> addr \<Rightarrow> string option \<Rightarrow> (addr \<times> tstate) res" where
  "talloc_vasprintf E s t render = (case render of
       None \<Rightarrow> Inr (NULL, s)
     | Some txt \<Rightarrow>
         bnd (uu_talloc E s t (length txt + 1)) (\<lambda>(ret, s).
         if ret = NULL then Inr (NULL, s) else
         bnd (put_string s ret 0 (txt @ [NUL])) (\<lambda>s.
         bnd (u_talloc_set_name_const s ret (NPtr ret)) (\<lambda>s.
         Inr (ret, s)))))"

definition talloc_asprintf :: "libc \<Rightarrow> tstate \<Rightarrow> addr \<Rightarrow> string option \<Rightarrow> (addr \<times> tstate) res" where
  "talloc_asprintf E s t render = talloc_vasprintf E s t render"

definition u_talloc_vaslenprintf_append ::
    "libc \<Rightarrow> nat \<Rightarrow> tstate \<Rightarrow> addr \<Rightarrow> nat \<Rightarrow> string option \<Rightarrow> (addr \<times> tstate) res" where
  "u_talloc_vaslenprintf_append E f s str slen render = (case render of
       None \<Rightarrow> Inr (str, s)
     | Some txt \<Rightarrow>
         if txt = [] then Inr (str, s) else
         bnd (u_talloc_realloc_array E f s NULL str 1 (word_of_nat (slen + length txt + 1)) (NConst ''char''))
           (\<lambda>(str, s).
         if str = NULL then Inr (NULL, s) else
         bnd (put_string s str slen (txt @ [NUL])) (\<lambda>s.
         bnd (u_talloc_set_name_const s str (NPtr str)) (\<lambda>s.
         Inr (str, s)))))"

definition talloc_vasprintf_append ::
    "libc \<Rightarrow> nat \<Rightarrow> tstate \<Rightarrow> addr \<Rightarrow> string option \<Rightarrow> (addr \<times> tstate) res" where
  "talloc_vasprintf_append E f s str render =
     (if str = NULL then talloc_vasprintf E s NULL render
      else bnd (strlen_at s str) (\<lambda>slen. u_talloc_vaslenprintf_append E f s str slen render))"

definition talloc_vasprintf_append_buffer ::
    "libc \<Rightarrow> nat \<Rightarrow> tstate \<Rightarrow> addr \<Rightarrow> string option \<Rightarrow> (addr \<times> tstate) res" where
  "talloc_vasprintf_append_buffer E f s str render =
     (if str = NULL then talloc_vasprintf E s NULL render
      else bnd (buffer_len s str) (\<lambda>slen. u_talloc_vaslenprintf_append E f s str slen render))"

definition talloc_asprintf_append ::
    "libc \<Rightarrow> nat \<Rightarrow> tstate \<Rightarrow> addr \<Rightarrow> string option \<Rightarrow> (addr \<times> tstate) res" where
  "talloc_asprintf_append E f s str render = talloc_vasprintf_append E f s str render"

definition talloc_asprintf_append_buffer ::
    "libc \<Rightarrow> nat \<Rightarrow> tstate \<Rightarrow> addr \<Rightarrow> string option \<Rightarrow> (addr \<times> tstate) res" where
  "talloc_asprintf_append_buffer E f s str render = talloc_vasprintf_append_buffer E f s str render"

section \<open>Names that are strings of their own\<close>

definition talloc_set_name_v :: "libc \<Rightarrow> tstate \<Rightarrow> addr \<Rightarrow> string option \<Rightarrow> (addr \<times> tstate) res" where
  "talloc_set_name_v E s ptr render =
     bnd (talloc_chunk_from_ptr s ptr) (\<lambda>tc.
     bnd (talloc_vasprintf E s ptr render) (\<lambda>(name, s).
     bnd (upd s tc (\<lambda>c. c\<lparr>tc_name := if name = NULL then NNull else NPtr name\<rparr>)) (\<lambda>s.
     bnd (if name \<noteq> NULL then u_talloc_set_name_const s name (NConst ''.name'') else Inr s) (\<lambda>s.
     Inr (name, s)))))"

definition talloc_set_name :: "libc \<Rightarrow> tstate \<Rightarrow> addr \<Rightarrow> string option \<Rightarrow> (addr \<times> tstate) res" where
  "talloc_set_name E s ptr render = talloc_set_name_v E s ptr render"

definition talloc_named ::
    "libc \<Rightarrow> nat \<Rightarrow> tstate \<Rightarrow> addr \<Rightarrow> nat \<Rightarrow> string option \<Rightarrow> (addr \<times> tstate) res" where
  "talloc_named E f s context n render =
     bnd (uu_talloc E s context n) (\<lambda>(ptr, s).
     if ptr = NULL then Inr (NULL, s) else
     bnd (talloc_set_name_v E s ptr render) (\<lambda>(name, s).
     if name = NULL then bnd (u_talloc_free E f s ptr) (\<lambda>(_, s). Inr (NULL, s))
     else Inr (ptr, s)))"

definition talloc_init :: "libc \<Rightarrow> nat \<Rightarrow> tstate \<Rightarrow> string option \<Rightarrow> (addr \<times> tstate) res" where
  "talloc_init E f s render =
     bnd (talloc_enable_null_tracking E s) (\<lambda>s.
     bnd (uu_talloc E s NULL 0) (\<lambda>(ptr, s).
     if ptr = NULL then Inr (NULL, s) else
     bnd (talloc_set_name_v E s ptr render) (\<lambda>(name, s).
     if name = NULL then bnd (u_talloc_free E f s ptr) (\<lambda>(_, s). Inr (NULL, s))
     else Inr (ptr, s))))"

end
