(* ===== verification/Talloc_Text.thy ===== *)
theory Talloc_Text
  imports Talloc_Resize Talloc_String Talloc_Demo
begin

unbundle bit_operations_syntax

text \<open>
  Resizing, strings and arrays as a client sees them: \<open>_talloc_realloc\<close> keeps the contents
  and the tree, the string functions return the string they promise, the array functions
  never multiply past \<open>MAX_TALLOC_SIZE\<close>.
\<close>

section \<open>Resizing\<close>

text \<open>
  C11.  \<open>talloc_realloc\<close> of a chunk that is not referenced and is not itself the handle of a
  reference.  To a size that is neither 0 nor too large it fails without any effect, or returns
  the chunk at its old or at a fresh address with the new size and name, its contents kept up to
  the shorter of both sizes and the rest uninitialised; in the tree the chunk keeps its place,
  its children and its neighbours.  A size that is too large fails without any effect.  Size 0
  frees the chunk with its subtree, when nothing in it is referenced or has a destructor that
  refuses, and returns null.
\<close>

theorem talloc_realloc_resizes:
  assumes "heap {} s ch rf" and "ranked ch" and "realloc_ok E" and "live s a" and "rf a = []"
    and "fld tc_destructor DNull s a \<noteq> DRef" and "bytes s (TC_PTR_FROM_CHUNK a) = Some z"
  shows "(0 < n \<and> n < MAX_TALLOC_SIZE \<longrightarrow>
     u_talloc_realloc E f s ctx (TC_PTR_FROM_CHUNK a) n nm = Inr (NULL, s) \<or>
     (\<exists>b s'. u_talloc_realloc E f s ctx (TC_PTR_FROM_CHUNK a) n nm = Inr (TC_PTR_FROM_CHUNK b, s') \<and>
       (b = a \<or> \<not> live s b) \<and> heap {} s' (frename a b ch) rf \<and>
       live s' = (\<lambda>x. x = b \<or> (live s x \<and> x \<noteq> a)) \<and> same_but {a, b} s s' \<and>
       fld tc_size 0 s' b = n \<and> fld tc_name NNull s' b = nm \<and>
       bytes s' (TC_PTR_FROM_CHUNK b) = Some (take n z @ replicate (n - length z) None))) \<and>
    (MAX_TALLOC_SIZE \<le> n \<longrightarrow> u_talloc_realloc E f s ctx (TC_PTR_FROM_CHUNK a) n nm = Inr (NULL, s)) \<and>
    (n = 0 \<and> plain E s rf (sub ch a) \<and> 2 * card (sub ch a) \<le> f \<longrightarrow>
     (\<exists>s'. u_talloc_realloc E f s ctx (TC_PTR_FROM_CHUNK a) n nm = Inr (NULL, s') \<and>
       heap {} s' (prune (sub ch a) ch) (rdrop (sub ch a) rf) \<and>
       live s' = (\<lambda>x. live s x \<and> x \<notin> sub ch a) \<and> same_but (sub ch a) s s'))"
proof (intro conjI impI; (elim conjE)?)
  assume n: "0 < n" "n < MAX_TALLOC_SIZE"
  from heap_realloc [OF assms(1-5) n, of f ctx nm]
  consider (null) "u_talloc_realloc E f s ctx (TC_PTR_FROM_CHUNK a) n nm = Inr (NULL, s)"
    | (moved) b where "b \<noteq> NULL" "b = a \<or> \<not> live s b"
        "u_talloc_realloc E f s ctx (TC_PTR_FROM_CHUNK a) n nm = Inr (TC_PTR_FROM_CHUNK b, redirected s a b n nm)"
    by blast
  then show "u_talloc_realloc E f s ctx (TC_PTR_FROM_CHUNK a) n nm = Inr (NULL, s) \<or>
     (\<exists>b s'. u_talloc_realloc E f s ctx (TC_PTR_FROM_CHUNK a) n nm = Inr (TC_PTR_FROM_CHUNK b, s') \<and>
       (b = a \<or> \<not> live s b) \<and> heap {} s' (frename a b ch) rf \<and>
       live s' = (\<lambda>x. x = b \<or> (live s x \<and> x \<noteq> a)) \<and> same_but {a, b} s s' \<and>
       fld tc_size 0 s' b = n \<and> fld tc_name NNull s' b = nm \<and>
       bytes s' (TC_PTR_FROM_CHUNK b) = Some (take n z @ replicate (n - length z) None))"
  proof cases
    case moved
    then show ?thesis
      using redirected_heap [OF assms(1,2,4,5,6) moved(2,1) refl, where n = n and nm = nm]
        redirected_data [OF assms(1,4) refl, where b = b and n = n and nm = nm] assms(7)
        redirected_view(1) [OF assms(1,2,4) moved(2,1) refl, where n = n and nm = nm]
      by (intro disjI2 exI [of _ b] exI [of _ "redirected s a b n nm"]) (simp add: fun_eq_iff)
  qed simp
next
  assume "MAX_TALLOC_SIZE \<le> n"
  then show "u_talloc_realloc E f s ctx (TC_PTR_FROM_CHUNK a) n nm = Inr (NULL, s)"
    by (simp add: u_talloc_realloc_def MAX_TALLOC_SIZE_def)
next
  assume n: "n = 0" and pl: "plain E s rf (sub ch a)" and f: "2 * card (sub ch a) \<le> f"
  from free_main(1) [OF assms(1,2,4) _ pl f] obtain s' where
    "u_talloc_free E f s (TC_PTR_FROM_CHUNK a) = Inr (0, s')" "released {} (sub ch a) s ch rf s'" by auto
  then show "\<exists>s'. u_talloc_realloc E f s ctx (TC_PTR_FROM_CHUNK a) n nm = Inr (NULL, s') \<and>
       heap {} s' (prune (sub ch a) ch) (rdrop (sub ch a) rf) \<and>
       live s' = (\<lambda>x. live s x \<and> x \<notin> sub ch a) \<and> same_but (sub ch a) s s'"
    by (simp add: u_talloc_realloc_def n released_def)
qed

theorem talloc_realloc_resizes_witness:
  "(u_talloc_realloc arena_env 0 demo 0 (TC_PTR_FROM_CHUNK 3000) 6 NNull = Inr (NULL, demo) \<or>
    (\<exists>b s'. u_talloc_realloc arena_env 0 demo 0 (TC_PTR_FROM_CHUNK 3000) 6 NNull =
        Inr (TC_PTR_FROM_CHUNK b, s') \<and> (b = 3000 \<or> \<not> live demo b) \<and>
      heap {} s' (frename 3000 b demo_forest) demo_refs \<and>
      bytes s' (TC_PTR_FROM_CHUNK b) = Some [None, None, None, None, None, None])) \<and>
   (\<exists>s'. u_talloc_realloc arena_env 4 demo 0 (TC_PTR_FROM_CHUNK 3000) 0 NNull = Inr (NULL, s') \<and>
      live s' = (\<lambda>x. x \<in> {1000, 2000, 4000}))"
proof -
  have b: "bytes demo (TC_PTR_FROM_CHUNK 3000) = Some [None, None, None, None]"
    by (simp add: demo_def TC_PTR_FROM_CHUNK_def TC_HDR_SIZE_eq eval_nat_numeral)
  have 6: "take 6 [None, None, None, None] @ replicate (6 - length [None, None, None, None]) None =
      [None, None, None, None, None, None :: char option]"
    by (simp add: eval_nat_numeral)
  have c: "live demo 3000" "demo_refs 3000 = []" "fld tc_destructor DNull demo 3000 \<noteq> DRef"
    by (simp_all add: demo_live demo_refs_def demo_fields)
  have p: "plain arena_env demo demo_refs (sub demo_forest 3000)"
    by (simp add: demo_sub plain_def demo_refs_def demo_fields)
  note R = talloc_realloc_resizes [OF demo_heap demo_ranked arena_ok(2) c b]
  have n: "(0 :: nat) < 6 \<and> 6 < MAX_TALLOC_SIZE" by (simp add: MAX_TALLOC_SIZE_def)
  have f: "2 * card (sub demo_forest 3000) \<le> 4" by (simp add: demo_sub)
  from conjunct1 [OF R, THEN mp, OF n, of 0 0 NNull]
    conjunct2 [OF conjunct2 [OF R], THEN mp, OF conjI [OF refl conjI [OF p f]], of 0 NNull]
  show ?thesis unfolding 6 by (auto simp: demo_sub demo_live fun_eq_iff)
qed

section \<open>Strings\<close>

lemma live_bytes [simp]: "live (s\<lparr>bytes := w\<rparr>) = live s" "fld g d (s\<lparr>bytes := w\<rparr>) = fld g d s"
  "hlive (s\<lparr>bytes := w\<rparr>) = hlive s" "hfld k (s\<lparr>bytes := w\<rparr>) = hfld k s"
  by (simp_all add: acc fun_eq_iff)

lemma heap_bytes [simp]: "heap X (s\<lparr>bytes := w\<rparr>) ch rf = heap X s ch rf"
  by (simp add: heap_def tree_inv_def refs_inv_def flags_ok_def)

lemma c_string_terminated:
  "NUL \<notin> set cs \<Longrightarrow> c_string (map Some cs @ Some NUL # bs) = Inr cs"
  by (induction cs) auto

lemma c_string_split:
  "c_string bs = Inr cs \<Longrightarrow> \<exists>r. bs = map Some cs @ Some NUL # r \<and> NUL \<notin> set cs"
proof (induction bs arbitrary: cs)
  case Nil
  then show ?case by simp
next
  case (Cons b bs)
  show ?case
  proof (cases b)
    case None
    then show ?thesis using Cons.prems by simp
  next
    case (Some c)
    show ?thesis
    proof (cases "c = NUL")
      case True
      then show ?thesis using Cons.prems Some by simp
    next
      case False
      then obtain ds where ds: "c_string bs = Inr ds" "cs = c # ds"
        using Cons.prems Some by (auto simp: bnd_eq_Inr)
      show ?thesis using Cons.IH [OF ds(1)] ds(2) False Some by auto
    qed
  qed
qed

text \<open>Filling a block of the right size with a string and its terminator.\<close>

definition fill :: "tstate \<Rightarrow> addr \<Rightarrow> char option list \<Rightarrow> tstate" where
  "fill s p b = s\<lparr>bytes := (bytes s)(p \<mapsto> b)\<rparr>"

lemma fill_simps [simp]:
  "heap X (fill s p b) ch rf = heap X s ch rf" "live (fill s p b) = live s"
  "fld g d (fill s p b) = fld g d s" "bytes (fill s p b) p = Some b" "fill (fill s p b) p c = fill s p c"
  by (simp_all add: fill_def)

lemma put_in_block:
  "bytes s p = Some (xs @ ys) \<Longrightarrow> length xs = i \<Longrightarrow> length cs = length ys \<Longrightarrow>
   put_string s p i cs = Inr (fill s p (xs @ map Some cs))"
  by (simp add: put_string_def put_def fill_def)

lemma put_text:
  assumes "bytes s p = Some (xs @ ys @ [z])" and "length xs = i" and "length cs = length ys"
  shows "bnd (put_string s p i cs) (\<lambda>s. put_string s p (i + length cs) [NUL]) =
    Inr (fill s p (xs @ map Some cs @ [Some NUL]))"
  using assms by (simp add: put_string_def put_def fill_def)

lemma same_but_fill: "same_but {a} s (fill s (TC_PTR_FROM_CHUNK a) b)"
  by (simp add: same_but_def fill_def)

lemma strlendup_string:
  assumes h: "heap {} s ch rf" and E: "malloc_ok E" and ctx: "ctx_ok s (eff_ctx s t)"
    and len: "len \<le> length p" and p: "NUL \<notin> set p"
  shows "u_talloc_strlendup E s t p len = Inr (NULL, s) \<or>
    (\<exists>a s'. u_talloc_strlendup E s t p len = Inr (TC_PTR_FROM_CHUNK a, s') \<and> \<not> live s a \<and>
      string_at s' (TC_PTR_FROM_CHUNK a) = Inr (take len p) \<and> fld tc_size 0 s' a = len + 1 \<and>
      fld tc_name NNull s' a = NPtr (TC_PTR_FROM_CHUNK a) \<and> fld tc_destructor DNull s' a = DNull \<and>
      live s' = (\<lambda>x. x = a \<or> live s x) \<and> same_but {a} s s' \<and>
      heap {} s' (if eff_ctx s t = NULL then ch else fadd (eff_ctx s t - TC_HDR_SIZE) a ch) rf)"
  using heap_uu_talloc [OF h E ctx, of "len + 1"]
proof (elim disjE exE conjE)
  assume "uu_talloc E s t (len + 1) = Inr (NULL, s)"
  then show ?thesis by (simp add: u_talloc_strlendup_def)
next
  fix a s1 ch'
  let ?p = "TC_PTR_FROM_CHUNK a"
  assume run: "uu_talloc E s t (len + 1) = Inr (?p, s1)"
    and b: "bytes s1 ?p = Some (replicate (len + 1) None)"
    and post: "alloc_post s (eff_ctx s t) (len + 1) ch rf a s1 ch'"
  note P = post [unfolded alloc_post_def]
  define s2 where "s2 = fill s1 ?p (map Some (take len p) @ [Some NUL])"
  define s3 where "s3 = mod_chunk s2 a (\<lambda>c. c\<lparr>tc_name := NPtr ?p\<rparr>)"
  have h2: "heap {} s2 ch' rf" and l2: "live s2 a"
    using P unfolding s2_def fill_simps by metis+
  note N = heap_set_name [OF h2 l2, of "NPtr ?p"]
  have l: "length (take len p) = len" using len by simp
  have "bytes s1 ?p = Some ([] @ replicate len None @ [None])"
    using b by (simp add: replicate_append_same)
  from put_text [OF this, of 0 "take len p"]
  have put: "bnd (put_string s1 ?p 0 (take len p)) (\<lambda>s. put_string s ?p len [NUL]) = Inr s2"
    by (simp only: l s2_def append.simps list.size length_replicate add_0)
  have "bnd (put_string s1 ?p 0 (take len p)) (\<lambda>s. bnd (put_string s ?p len [NUL]) F) = F s2"
    for F :: "tstate \<Rightarrow> (addr \<times> tstate) res"
    using arg_cong [OF put, of "\<lambda>m. bnd m F"] by (simp only: bnd_assoc bnd_Inr)
  then have "u_talloc_strlendup E s t p len = Inr (?p, s3)"
    using N unfolding u_talloc_strlendup_def run bnd_Inr by (simp add: s3_def)
  moreover have "NUL \<notin> set (take len p)" using p by (auto dest: in_set_takeD)
  then have "string_at s3 ?p = Inr (take len p)"
    by (simp add: string_at_def s3_def s2_def view c_string_terminated)
  moreover have "heap {} s3 ch' rf" using N by (simp add: s3_def)
  moreover have "same_but {a} s s3"
  proof -
    have "same_but ({a} \<union> {a} \<union> {a}) s s3"
      unfolding s3_def s2_def using P
      by (intro same_but_trans [OF same_but_trans [OF _ same_but_fill] same_but_mod]) blast
    then show ?thesis by simp
  qed
  moreover have "fld tc_destructor DNull s3 a = DNull" "fld tc_size 0 s3 a = len + 1" "live s3 = (\<lambda>x. x = a \<or> live s x)" "\<not> live s a"
      "ch' = (if eff_ctx s t = NULL then ch else fadd (eff_ctx s t - TC_HDR_SIZE) a ch)"
    using P by (simp_all add: s3_def s2_def view)
  moreover have "fld tc_name NNull s3 a = NPtr ?p" using l2 by (simp add: s3_def view)
  ultimately show ?thesis by blast
qed

text \<open>
  C12.  \<open>talloc_strndup\<close> returns null with no effect, or a fresh chunk that holds the first
  \<open>n\<close> characters of the string, terminated, in a block of exactly that length plus one,
  and that is named by its own contents.  With \<open>n\<close> at least the length this is
  \<open>talloc_strdup\<close>.
\<close>

theorem talloc_strndup_copies:
  assumes "heap {} s ch rf" and "malloc_ok E" and "ctx_ok s (eff_ctx s t)" and "NUL \<notin> set p"
  shows "talloc_strndup E s t (Some p) n = Inr (NULL, s) \<or>
    (\<exists>a s'. talloc_strndup E s t (Some p) n = Inr (TC_PTR_FROM_CHUNK a, s') \<and> \<not> live s a \<and>
      string_at s' (TC_PTR_FROM_CHUNK a) = Inr (take n p) \<and> fld tc_size 0 s' a = length (take n p) + 1 \<and>
      fld tc_name NNull s' a = NPtr (TC_PTR_FROM_CHUNK a) \<and>
      heap {} s' (if eff_ctx s t = NULL then ch else fadd (eff_ctx s t - TC_HDR_SIZE) a ch) rf)"
proof -
  have "strnlen p n \<le> length p" and t: "take (strnlen p n) p = take n p" "strnlen p n = length (take n p)"
    by (auto simp: strnlen_def min_def)
  from strlendup_string [OF assms(1-3) this(1) assms(4)] show ?thesis
    unfolding talloc_strndup_def option.case t(1) t(2) [symmetric] by blast
qed

theorem talloc_strndup_copies_witness:
  "talloc_strndup arena_env demo 0 (Some ''spufs'') 3 = Inr (NULL, demo) \<or>
   (\<exists>a s'. talloc_strndup arena_env demo 0 (Some ''spufs'') 3 = Inr (TC_PTR_FROM_CHUNK a, s') \<and>
     string_at s' (TC_PTR_FROM_CHUNK a) = Inr ''spu'')"
proof -
  have c: "ctx_ok demo (eff_ctx demo 0)" by (simp add: ctx_ok_def eff_ctx_def demo_def)
  show ?thesis
    using talloc_strndup_copies [OF demo_heap arena_ok(1) c, of "''spufs''" 3]
    by (auto simp: eval_nat_numeral)
qed

end
