(* ===== verification/Talloc_Sums.thy ===== *)
theory Talloc_Sums
  imports Talloc_Query Talloc_Demo
begin

unbundle bit_operations_syntax

text \<open>
  What the queries compute: both sums are instances of the locale \<open>flag_walk\<close>, the
  reference count is the length of the reference list, and a report visits the tree in
  preorder down to its depth limit.
\<close>

section \<open>The two sums\<close>

lemma chunk_from_ptr_magic:
  "live s a \<Longrightarrow> fld tc_flags 0 s a = TALLOC_MAGIC \<Longrightarrow>
   talloc_chunk_from_ptr s (TC_PTR_FROM_CHUNK a) = Inr a"
  using magic_mask(1) by (simp add: talloc_chunk_from_ptr_def view)

interpretation sizes: flag_walk talloc_total_size total_size_loop "fld tc_size 0"
  by unfold_locales (simp_all add: chunk_from_ptr_magic view magic_mask)

interpretation blocks: flag_walk talloc_total_blocks total_blocks_loop "\<lambda>s a. 1"
  by unfold_locales (simp_all add: chunk_from_ptr_magic view magic_mask)

text \<open>
  C9.  \<open>talloc_total_size\<close> returns the sum of the sizes of all chunks of the subtree and
  leaves the memory, loop flags included, as it was; fuel linear in the subtree suffices.
\<close>

theorem talloc_total_size_sums:
  assumes "heap {} s ch rf" and "ranked ch" and "live s a" and "2 * card (sub ch a) \<le> n"
  shows "talloc_total_size n s (TC_PTR_FROM_CHUNK a) = Inr (\<Sum>b\<in>sub ch a. fld tc_size 0 s b, s)"
  by (rule sizes.visit_sub [OF assms])

theorem talloc_total_size_sums_witness:
  "talloc_total_size 6 demo (TC_PTR_FROM_CHUNK 2000) = Inr (14, demo)"
proof -
  have "(\<Sum>b\<in>sub demo_forest 2000. fld tc_size 0 demo b) = 14"
    by (simp add: demo_sub demo_def fld_def new_chunk_def)
  then show ?thesis
    using talloc_total_size_sums [OF demo_heap demo_ranked, of 2000 6] by (simp add: demo_live demo_sub)
qed

text \<open>
  \<open>talloc_total_blocks\<close> returns the number of chunks of the subtree and leaves the
  memory as it was.
\<close>

theorem talloc_total_blocks_counts:
  assumes "heap {} s ch rf" and "ranked ch" and "live s a" and "2 * card (sub ch a) \<le> n"
  shows "talloc_total_blocks n s (TC_PTR_FROM_CHUNK a) = Inr (card (sub ch a), s)"
  using blocks.visit_sub [OF assms] by simp

theorem talloc_total_blocks_counts_witness:
  "talloc_total_blocks 6 demo (TC_PTR_FROM_CHUNK 2000) = Inr (3, demo)"
  using talloc_total_blocks_counts [OF demo_heap demo_ranked, of 2000 6] by (simp add: demo_live demo_sub)

section \<open>References\<close>

lemma count_refs_seg:
  "dseg (hfld h_next s) (hfld h_prev s) q xs NULL \<Longrightarrow> (\<And>h. h \<in> set xs \<Longrightarrow> hlive s h) \<Longrightarrow>
   length xs < n \<Longrightarrow> count_refs n s (hdd xs NULL) k = Inr (k + length xs)"
proof (induction xs arbitrary: n k q)
  case Nil
  then show ?case by (cases n) simp_all
next
  case (Cons x xs)
  obtain m where m: "n = Suc m" using Cons.prems(3) by (cases n) simp_all
  have "hlive s x" "x \<noteq> NULL" and nx: "hfld h_next s x = hdd xs NULL" using Cons.prems by simp_all
  then obtain r where r: "rdh s x = Inr r" "h_next r = hdd xs NULL"
    by (auto simp: acc)
  have "count_refs m s (hdd xs NULL) (k + 1) = Inr (k + 1 + length xs)"
    by (rule Cons.IH [of x]) (use Cons.prems m in auto)
  then show ?case using r \<open>x \<noteq> NULL\<close> by (simp add: m)
qed

lemma reference_count_list:
  assumes h: "heap {} s ch rf" and a: "live s a" and n: "length (rf a) < n"
  shows "talloc_reference_count n s (TC_PTR_FROM_CHUNK a) = Inr (length (rf a))"
proof -
  note D = refs_invD [OF heapD(2) [OF h]]
  have "count_refs n s (hdd (rf a) NULL) 0 = Inr (0 + length (rf a))"
    by (rule count_refs_seg [OF D(3)]) (use D(5) n in auto)
  then show ?thesis
    using a D(2) [OF a]
    by (simp add: talloc_reference_count_def talloc_chunk_from_ptr_live [OF heapD(3) [OF h] a] view)
qed

section \<open>Reports\<close>

text \<open>
  The calls of the callback for the tree \<open>t\<close>: preorder, cut below the depth limit, with a
  reference handle shown as the chunk it refers to.
\<close>

fun events :: "tstate \<Rightarrow> int \<Rightarrow> int \<Rightarrow> rtree \<Rightarrow> (addr \<times> int \<times> bool) list" where
  "events s m d (Node a ts) = (TC_PTR_FROM_CHUNK a, d, False) #
     (if m \<ge> 0 \<and> d \<ge> m then [] else
      concat (map (\<lambda>t. if fld tc_name NNull s (root t) = NMagicRef
        then [(hfld h_ptr s (TC_PTR_FROM_CHUNK (root t)), d + 1, True)]
        else events s m (d + 1) t) ts))"

definition handles_named :: "tstate \<Rightarrow> bool" where
  "handles_named s \<longleftrightarrow> (\<forall>a. fld tc_name NNull s a = NMagicRef \<longrightarrow> hlive s (TC_PTR_FROM_CHUNK a))"

lemma events_mod_flags:
  "events (mod_chunk s a set_loop) m d t = events s m d t"
proof (induction t arbitrary: d)
  case (Node b ts)
  then show ?case by (auto simp: view intro!: arg_cong [where f = concat])
qed

lemma report_siblings:
  assumes seg: "dseg (nxt s) (prv s) q (map root ts) NULL"
    and lv: "\<And>t. t \<in> set ts \<Longrightarrow> live s (root t)" and hn: "handles_named s"
    and cb: "\<And>p d r s x. cb p d m r (s, x) = Inr (s, g p d r x)"
    and IH: "\<And>t n x. t \<in> set ts \<Longrightarrow> 2 * length (nodes t) \<le> n \<Longrightarrow>
      talloc_report_depth_cb n cb m (TC_PTR_FROM_CHUNK (root t)) (d + 1) (s, x) =
        Inr (s, fold (\<lambda>(p, d, r). g p d r) (events s m (d + 1) t) x)"
    and n: "2 * length (concat (map nodes ts)) + 1 \<le> n"
  shows "report_loop n cb m (hdd (map root ts) NULL) d (s, x) =
    Inr (s, fold (\<lambda>(p, d, r). g p d r) (concat (map (\<lambda>t. if fld tc_name NNull s (root t) = NMagicRef
        then [(hfld h_ptr s (TC_PTR_FROM_CHUNK (root t)), d + 1, True)]
        else events s m (d + 1) t) ts)) x)"
  using seg lv IH n
proof (induction ts arbitrary: n q x)
  case Nil
  then show ?case by (cases n) simp_all
next
  case (Cons t ts)
  obtain k where k: "n = Suc k" using Cons.prems(4) by (cases n) simp_all
  have fuel: "2 * length (nodes t) \<le> k" "2 * length (concat (map nodes ts)) + 1 \<le> k"
    using Cons.prems(4) nodes_pos(1) [of t] unfolding k list.map concat.simps length_append by - arith+
  have t: "root t \<noteq> NULL" "nxt s (root t) = hdd (map root ts) NULL" "live s (root t)"
    using Cons.prems by simp_all
  let ?ev = "if fld tc_name NNull s (root t) = NMagicRef
        then [(hfld h_ptr s (TC_PTR_FROM_CHUNK (root t)), d + 1, True)] else events s m (d + 1) t"
  define y where "y = fold (\<lambda>(p, d, r). g p d r) ?ev x"
  have one: "(if fld tc_name NNull s (root t) = NMagicRef then
        bnd (rdh s (TC_PTR_FROM_CHUNK (root t))) (\<lambda>h. cb (h_ptr h) (d + 1) m True (s, x))
      else talloc_report_depth_cb k cb m (TC_PTR_FROM_CHUNK (root t)) (d + 1) (s, x)) = Inr (s, y)"
  proof (cases "fld tc_name NNull s (root t) = NMagicRef")
    case True
    then have "hlive s (TC_PTR_FROM_CHUNK (root t))" using hn by (simp add: handles_named_def)
    then show ?thesis using True by (auto simp: y_def cb rdh_def hlive_def hfld_def)
  next
    case False
    then show ?thesis using Cons.prems(3) [of t k x] fuel by (simp add: y_def)
  qed
  have "report_loop k cb m (hdd (map root ts) NULL) d (s, y) =
      Inr (s, fold (\<lambda>(p, d, r). g p d r) (concat (map (\<lambda>t. if fld tc_name NNull s (root t) = NMagicRef
        then [(hfld h_ptr s (TC_PTR_FROM_CHUNK (root t)), d + 1, True)]
        else events s m (d + 1) t) ts)) y)"
    by (rule Cons.IH [of "root t"]) (use Cons.prems fuel in auto)
  then show ?case
    using t one by (simp add: k bnd_rd fields_the cong: if_cong) (simp add: y_def)
qed

lemma report_tree:
  assumes rk: "ranked ch" and cb: "\<And>p d r s x. cb p d m r (s, x) = Inr (s, g p d r x)"
  shows "tree_inv {} s ch \<Longrightarrow> repr ch t \<Longrightarrow> live s (root t) \<Longrightarrow> handles_named s \<Longrightarrow>
    (\<And>a. a \<in> sub ch (root t) \<Longrightarrow> fld tc_flags 0 s a = TALLOC_MAGIC) \<Longrightarrow> 2 * length (nodes t) \<le> n \<Longrightarrow>
    talloc_report_depth_cb n cb m (TC_PTR_FROM_CHUNK (root t)) d (s, x) =
      Inr (s, fold (\<lambda>(p, d, r). g p d r) (events s m d t) x)"
proof (induction t arbitrary: s n d x)
  case (Node a ts)
  define s1 where "s1 = mod_chunk s a set_loop"
  have c: "ch a = map root ts" "\<And>t. t \<in> set ts \<Longrightarrow> repr ch t" using Node.prems by simp_all
  have a: "live s a" "fld tc_flags 0 s a = TALLOC_MAGIC" using Node.prems(3,5) by simp_all
  obtain k where k: "n = Suc k" using Node.prems(6) by (cases n) simp_all
  have T1: "tree_inv {} s1 ch" using Node.prems(1) by (simp add: s1_def tree_inv_mod)
  have hn1: "handles_named s1" using Node.prems(4) by (simp add: s1_def handles_named_def view)
  note D = tree_invD [OF T1]
  have cd: "chd s a = hdd (map root ts) NULL" using tree_invD(9) [OF Node.prems(1) a(1)] c(1) by simp
  have restored: "mod_chunk s1 a clear_loop = s" unfolding s1_def by (rule loop_flag_restored [OF a])
  have lv1: "live s1 a" using a by (simp add: s1_def view)
  have names: "fld tc_name NNull s1 = fld tc_name NNull s" "hfld h_ptr s1 = hfld h_ptr s"
      "chd s1 = chd s"
    by (simp_all add: s1_def view)
  have loop: "report_loop k cb m (hdd (map root ts) NULL) d (s1, y) =
      Inr (s1, fold (\<lambda>(p, d, r). g p d r) (concat (map (\<lambda>t. if fld tc_name NNull s1 (root t) = NMagicRef
        then [(hfld h_ptr s1 (TC_PTR_FROM_CHUNK (root t)), d + 1, True)]
        else events s1 m (d + 1) t) ts)) y)" for y
  proof (rule report_siblings [where cb = cb and g = g and m = m, OF _ _ hn1 cb])
    show "dseg (nxt s1) (prv s1) NULL (map root ts) NULL" using D(10) [of a] c(1) by simp
    show "2 * length (concat (map nodes ts)) + 1 \<le> k" using Node.prems(6) k by simp
    show lv: "live s1 (root t)" if "t \<in> set ts" for t using D(5) [of "root t" a] c(1) that by simp
    show "talloc_report_depth_cb j cb m (TC_PTR_FROM_CHUNK (root t)) (d + 1) (s1, x) =
        Inr (s1, fold (\<lambda>(p, d, r). g p d r) (events s1 m (d + 1) t) x)"
      if t: "t \<in> set ts" and j: "2 * length (nodes t) \<le> j" for t j x
    proof (rule Node.IH [OF t T1 c(2) [OF t] lv [OF t] hn1 _ j])
      fix b assume b: "b \<in> sub ch (root t)"
      have rt: "root t \<in> set (ch a)" using t c(1) by simp
      have "b \<noteq> a" using sub_ranked [OF rk rt] b by auto
      moreover have "b \<in> sub ch a"
        using sub_trans [OF _ b] sub_step [where b = a and a = a and c = "root t" and ch = ch] rt by auto
      ultimately show "fld tc_flags 0 s1 b = TALLOC_MAGIC"
        using Node.prems(5) by (simp add: s1_def mod_chunk_def acc)
    qed
  qed
  have ev: "events s1 m e t = events s m e t" for e t unfolding s1_def by (rule events_mod_flags)
  show ?case
    using a loop [unfolded names ev] cd restored lv1
    by (simp add: k Let_def chunk_from_ptr_magic bnd_rd fields_the magic_mask cb upd_live names ev
        flip: s1_def)
qed

text \<open>
  C10.  \<open>talloc_report_depth_cb\<close> with a callback that leaves the memory alone calls it once
  for every chunk of the tree in preorder, with its depth, and once for the target of
  every reference handle instead of the handle; nothing below the depth limit is visited,
  and the memory is the same afterwards.
\<close>

theorem talloc_report_preorder:
  assumes "heap {} s ch rf" and "ranked ch" and "live s a" and "handles_named s"
    and "repr ch t" and "root t = a" and "2 * length (nodes t) \<le> n"
    and "\<And>p d r s x. cb p d m r (s, x) = Inr (s, g p d r x)"
  shows "talloc_report_depth_cb n cb m (TC_PTR_FROM_CHUNK a) d (s, x) =
    Inr (s, fold (\<lambda>(p, d, r). g p d r) (events s m d t) x)"
proof -
  note T = heapD(1) [OF assms(1)]
  have "fld tc_flags 0 s b = TALLOC_MAGIC" if "b \<in> sub ch a" for b
    using heapD(3) [OF assms(1)] sub_live [OF T assms(3)] that by (auto simp: flags_ok_def)
  then show ?thesis
    using report_tree [where cb = cb and g = g and m = m, OF assms(2,8) T assms(5) _ assms(4), of n d x]
      assms(3,6,7) by simp
qed

lemma demo_name: "fld tc_name NNull demo = (\<lambda>_. NNull)(1000 := NConst ''root'', 4000 := NMagicRef)"
  by (auto simp: demo_def acc fun_eq_iff new_chunk_def)

theorem talloc_report_preorder_witness:
  "talloc_report_depth_cb 10 (\<lambda>p d m r (s, xs). Inr (s, xs @ [(p, d, r)])) (-1) 1080 0 (demo, []) =
     Inr (demo, [(1080, 0, False), (2080, 1, True), (2080, 1, False), (3080, 2, False), (5080, 3, False)])"
proof -
  let ?t = "Node 1000 [Node 4000 [], Node 2000 [Node 3000 [Node 5000 []]]]"
  have 1: "TC_PTR_FROM_CHUNK 1000 = 1080" "TC_PTR_FROM_CHUNK 2000 = 2080"
      "TC_PTR_FROM_CHUNK 3000 = 3080" "TC_PTR_FROM_CHUNK 4000 = 4080" "TC_PTR_FROM_CHUNK 5000 = 5080"
    by (simp_all add: TC_PTR_FROM_CHUNK_def TC_HDR_SIZE_eq)
  have r: "repr demo_forest ?t" by (simp add: demo_forest_def)
  have n: "handles_named demo"
    by (simp add: handles_named_def demo_name demo_fields 1)
  have "events demo (-1) 0 ?t = [(1080, 0, False), (2080, 1, True), (2080, 1, False),
      (3080, 2, False), (5080, 3, False)]"
    by (simp add: 1 demo_name demo_fields)
  then show ?thesis
    using talloc_report_preorder [OF demo_heap demo_ranked _ n r refl, where n = 10 and m = "-1"
        and cb = "\<lambda>p d m r (s, xs). Inr (s, xs @ [(p, d, r)])" and g = "\<lambda>p d r xs. xs @ [(p, d, r)]"
        and d = 0 and x = "[]"]
    by (simp add: demo_live 1)
qed

end
