(* ===== verification/Talloc_Append.thy ===== *)
theory Talloc_Append
  imports Talloc_Text Talloc_Sums
begin

unbundle bit_operations_syntax

text \<open>
  The array functions and the functions that append to a string, on top of the results of
  \<open>Talloc_Text\<close>; and the two places where a function of the library does not do what its
  name promises.
\<close>

section \<open>Arrays\<close>

lemma array_size_exact:
  assumes "el_size \<noteq> 0"
  shows "array_size el_size count =
    Inr (if unat count < MAX_TALLOC_SIZE div unat el_size then Some (unat el_size * unat count) else None)"
proof -
  have e: "unat el_size \<noteq> 0" using assms by (simp add: unat_eq_zero)
  have uc: "unat (ucast count :: 64 word) = unat count"
  proof -
    have "unat count < 2 ^ 64" using unsigned_less [of count, where 'a = nat] by simp
    then show ?thesis by (simp add: unsigned_ucast_eq take_bit_nat_eq_self)
  qed
  have um: "unat (word_of_nat MAX_TALLOC_SIZE div el_size) = MAX_TALLOC_SIZE div unat el_size"
    by (simp add: unat_div MAX_TALLOC_SIZE_def)
  have ge: "(ucast count :: 64 word) \<ge> word_of_nat MAX_TALLOC_SIZE div el_size \<longleftrightarrow>
      unat count \<ge> MAX_TALLOC_SIZE div unat el_size"
    by (simp add: word_le_nat_alt uc um)
  have "unat (el_size * ucast count) = unat el_size * unat count"
    if "unat count < MAX_TALLOC_SIZE div unat el_size"
  proof -
    have "unat count * unat el_size \<le> MAX_TALLOC_SIZE div unat el_size * unat el_size"
      using that by simp
    also have "\<dots> \<le> MAX_TALLOC_SIZE" by (rule div_times_less_eq_dividend)
    finally have "unat el_size * unat (ucast count :: 64 word) < 2 ^ LENGTH(64)"
      by (simp add: uc MAX_TALLOC_SIZE_def mult.commute)
    then show ?thesis using unat_mult_lem [of el_size "ucast count"] uc by simp
  qed
  then show ?thesis
    using assms by (auto simp: array_size_def ge)
qed

text \<open>
  An array allocation never multiplies past the limit: it asks for exactly
  \<open>el_size * count\<close> bytes, as numbers and not modulo a power of two, or it returns null
  without allocating; the elements of size 0 that the division cannot handle stop the
  program.
\<close>

theorem talloc_array_no_overflow:
  "u_talloc_array E s ctx el_size count nm =
    (if el_size = 0 then Inl Div_by_zero
     else if unat count < MAX_TALLOC_SIZE div unat el_size
     then u_talloc_named_const E s ctx (unat el_size * unat count) nm
     else Inr (NULL, s))"
  by (simp add: u_talloc_array_def array_size_exact) (simp add: array_size_def)

lemma realloc_char_array:
  assumes "m < 2 ^ 32"
  shows "u_talloc_realloc_array E f s ctx ptr 1 (word_of_nat m) nm =
    (if m < MAX_TALLOC_SIZE then u_talloc_realloc E f s ctx ptr m nm else Inr (NULL, s))"
proof -
  have "unat (word_of_nat m :: 32 word) = m" using assms by (simp add: unsigned_of_nat take_bit_nat_eq_self)
  then show ?thesis by (simp add: u_talloc_realloc_array_def array_size_exact)
qed

section \<open>Appending\<close>

text \<open>The copy behind the old contents of the resized block.\<close>

lemma append_string:
  assumes h: "heap {} s ch rf" and rk: "ranked ch" and E: "realloc_ok E" and a: "live s a" "rf a = []"
    "fld tc_destructor DNull s a \<noteq> DRef" and str: "string_at s (TC_PTR_FROM_CHUNK a) = Inr cs"
    and x: "NUL \<notin> set x" "alen \<le> length x" "length cs + alen + 1 < 2 ^ 32"
  shows "u_talloc_strlendup_append E f s (TC_PTR_FROM_CHUNK a) (length cs) x alen = Inr (NULL, s) \<or>
    (\<exists>b s'. u_talloc_strlendup_append E f s (TC_PTR_FROM_CHUNK a) (length cs) x alen =
        Inr (TC_PTR_FROM_CHUNK b, s') \<and> (b = a \<or> \<not> live s b) \<and>
      string_at s' (TC_PTR_FROM_CHUNK b) = Inr (cs @ take alen x) \<and>
      fld tc_name NNull s' b = NPtr (TC_PTR_FROM_CHUNK b) \<and> heap {} s' (frename a b ch) rf)"
proof (cases "length cs + alen + 1 < MAX_TALLOC_SIZE")
  case False
  then show ?thesis
    using x(3) by (simp only: u_talloc_strlendup_append_def realloc_char_array) simp
next
  case True
  let ?n = "length cs + alen + 1"
  obtain z where z: "bytes s (TC_PTR_FROM_CHUNK a) = Some z" "c_string z = Inr cs"
    using str by (auto simp: string_at_def split: option.splits)
  obtain r where r: "z = map Some cs @ Some NUL # r" "NUL \<notin> set cs" using c_string_split [OF z(2)] by blast
  have n: "0 < ?n" by simp
  let ?app = "u_talloc_strlendup_append E f s (TC_PTR_FROM_CHUNK a) (length cs) x alen"
  have app: "?app = bnd (u_talloc_realloc E f s NULL (TC_PTR_FROM_CHUNK a) ?n (NConst ''char'')) (\<lambda>(ret, s).
     if ret = NULL then Inr (NULL, s) else
     bnd (put_string s ret (length cs) (take alen x)) (\<lambda>s.
     bnd (put_string s ret (length cs + alen) [NUL]) (\<lambda>s.
     bnd (u_talloc_set_name_const s ret (NPtr ret)) (\<lambda>s. Inr (ret, s)))))"
    using True x(3) by (simp only: u_talloc_strlendup_append_def realloc_char_array if_True)
  from heap_realloc [OF h rk E a(1,2) n True, of f NULL "NConst ''char''"]
  consider (null) "u_talloc_realloc E f s NULL (TC_PTR_FROM_CHUNK a) ?n (NConst ''char'') = Inr (NULL, s)"
    | (moved) b where "b \<noteq> NULL" "b = a \<or> \<not> live s b"
        "u_talloc_realloc E f s NULL (TC_PTR_FROM_CHUNK a) ?n (NConst ''char'') =
           Inr (TC_PTR_FROM_CHUNK b, redirected s a b ?n (NConst ''char''))"
    by blast
  then show ?thesis
  proof cases
    case null
    then show ?thesis by (simp only: app bnd_Inr) simp
  next
    case moved
    let ?p = "TC_PTR_FROM_CHUNK b"
    define s1 where "s1 = redirected s a b ?n (NConst ''char'')"
    define y where "y = drop (length cs) (take ?n z @ replicate (?n - length z) None)"
    have h1: "heap {} s1 (frename a b ch) rf"
      by (rule redirected_heap [OF h rk a moved(2,1) s1_def])
    have "live s1 b" using redirected_view(1) [OF h rk a(1) moved(2,1) s1_def, of b] by simp
    note D = redirected_data [OF h a(1) s1_def, unfolded z(1) option.case Let_def]
    have ly: "length y = alen + 1" by (simp add: y_def)
    have "take (length cs) (take ?n z @ replicate (?n - length z) None) = map Some cs"
      by (simp add: r(1))
    then have b1: "bytes s1 ?p = Some (map Some cs @ y)"
      using D(4) append_take_drop_id [of "length cs" "take ?n z @ replicate (?n - length z) None"]
      by (simp add: y_def)
    have yl: "y = butlast y @ [last y]" using ly by (intro append_butlast_last_id [symmetric]) auto
    have l: "length (take alen x) = alen" using x(2) by simp
    define s2 where "s2 = fill s1 ?p (map Some cs @ map Some (take alen x) @ [Some NUL])"
    define s3 where "s3 = mod_chunk s2 b (\<lambda>c. c\<lparr>tc_name := NPtr ?p\<rparr>)"
    have "bytes s1 ?p = Some (map Some cs @ butlast y @ [last y])" using b1 yl by simp
    from put_text [OF this, of "length cs" "take alen x"]
    have put: "bnd (put_string s1 ?p (length cs) (take alen x))
        (\<lambda>s. put_string s ?p (length cs + alen) [NUL]) = Inr s2"
      by (simp only: l s2_def length_map length_butlast ly diff_add_inverse2)
    have put': "bnd (put_string s1 ?p (length cs) (take alen x))
        (\<lambda>s. bnd (put_string s ?p (length cs + alen) [NUL]) F) = F s2" for F :: "tstate \<Rightarrow> (addr \<times> tstate) res"
      using arg_cong [OF put, of "\<lambda>m. bnd m F"] by (simp only: bnd_assoc bnd_Inr)
    have h2: "heap {} s2 (frename a b ch) rf" and l2: "live s2 b"
      using h1 \<open>live s1 b\<close> by (simp_all add: s2_def)
    note N = heap_set_name [OF h2 l2, of "NPtr ?p"]
    have "?app = Inr (?p, s3)"
      unfolding app moved(3) [folded s1_def] bnd_Inr using put' N by (simp add: s3_def)
    moreover have "NUL \<notin> set (cs @ take alen x)" using x(1) r(2) by (auto dest: in_set_takeD)
    then have "string_at s3 ?p = Inr (cs @ take alen x)"
      using c_string_terminated [of "cs @ take alen x" "[]"] by (simp add: string_at_def s3_def s2_def view)
    moreover have "fld tc_name NNull s3 b = NPtr ?p" using l2 by (simp add: s3_def view)
    ultimately show ?thesis using N moved(2) by (auto simp: s3_def)
  qed
qed

text \<open>
  C13.  \<open>talloc_strdup_append\<close> to a string whose chunk is not referenced and is not itself the
  handle of a reference, the result shorter than \<open>2 ^ 32\<close>: it fails without any effect, or returns the
  string, possibly at a new address, with the other one appended, in a chunk named by its own
  contents; the chunk keeps its place in the tree.
\<close>

theorem talloc_strdup_append_concatenates:
  assumes "heap {} s ch rf" and "ranked ch" and "realloc_ok E" and "live s a" and "rf a = []"
    and "fld tc_destructor DNull s a \<noteq> DRef" and "string_at s (TC_PTR_FROM_CHUNK a) = Inr cs"
    and "NUL \<notin> set x" and "length cs + length x + 1 < 2 ^ 32"
  shows "talloc_strdup_append E f s (TC_PTR_FROM_CHUNK a) (Some x) = Inr (NULL, s) \<or>
    (\<exists>b s'. talloc_strdup_append E f s (TC_PTR_FROM_CHUNK a) (Some x) = Inr (TC_PTR_FROM_CHUNK b, s') \<and>
      (b = a \<or> \<not> live s b) \<and> string_at s' (TC_PTR_FROM_CHUNK b) = Inr (cs @ x) \<and>
      fld tc_name NNull s' b = NPtr (TC_PTR_FROM_CHUNK b) \<and> heap {} s' (frename a b ch) rf)"
  using append_string [OF assms(1-8) order_refl assms(9), of f] assms(7)
  by (auto simp: talloc_strdup_append_def strlen_at_def)

definition demo_text :: tstate where
  "demo_text = demo\<lparr>bytes := (bytes demo)(3080 \<mapsto> [Some CHR ''s'', Some CHR ''p'', Some CHR ''u'', Some NUL])\<rparr>"

theorem talloc_strdup_append_concatenates_witness:
  "talloc_strdup_append arena_env 0 demo_text (TC_PTR_FROM_CHUNK 3000) (Some ''fs'') = Inr (NULL, demo_text) \<or>
    (\<exists>b s'. talloc_strdup_append arena_env 0 demo_text (TC_PTR_FROM_CHUNK 3000) (Some ''fs'') =
        Inr (TC_PTR_FROM_CHUNK b, s') \<and> string_at s' (TC_PTR_FROM_CHUNK b) = Inr ''spufs'')"
proof -
  have h: "heap {} demo_text demo_forest demo_refs" by (simp add: demo_text_def demo_heap)
  have str: "string_at demo_text (TC_PTR_FROM_CHUNK 3000) = Inr ''spu''"
    by (simp add: demo_text_def string_at_def TC_PTR_FROM_CHUNK_def TC_HDR_SIZE_eq)
  show ?thesis
    using talloc_strdup_append_concatenates [OF h demo_ranked arena_ok(2) _ _ _ str, of "''fs''" 0]
    by (auto simp: demo_text_def demo_live demo_refs_def demo_fields)
qed

section \<open>Where the code does something else\<close>

text \<open>
  \<open>talloc_strndup_append(NULL, a, n)\<close> copies the whole of \<open>a\<close>: the limit \<open>n\<close> is not
  passed on, so more than \<open>n\<close> characters are returned whenever \<open>a\<close> is longer.
\<close>

theorem talloc_strndup_append_ignores_limit:
  assumes "heap {} s ch rf" and "malloc_ok E" and "ctx_ok s (eff_ctx s NULL)" and "NUL \<notin> set p"
  shows "talloc_strndup_append E f s NULL (Some p) n = Inr (NULL, s) \<or>
    (\<exists>a s'. talloc_strndup_append E f s NULL (Some p) n = Inr (TC_PTR_FROM_CHUNK a, s') \<and>
      string_at s' (TC_PTR_FROM_CHUNK a) = Inr p)"
  using strlendup_string [OF assms(1-3) order_refl assms(4)]
  by (auto simp: talloc_strndup_append_def talloc_strdup_def)

theorem talloc_strndup_append_ignores_limit_witness:
  "\<exists>a s'. talloc_strndup_append arena_env 0 demo NULL (Some ''abc'') 1 = Inr (TC_PTR_FROM_CHUNK a, s') \<and>
      string_at s' (TC_PTR_FROM_CHUNK a) = Inr ''abc''"
proof -
  have c: "ctx_ok demo (eff_ctx demo 0)" by (simp add: ctx_ok_def eff_ctx_def demo_def)
  have "talloc_strndup_append arena_env 0 demo NULL (Some ''abc'') 1 \<noteq> Inr (NULL, demo)"
    by (simp add: talloc_strndup_append_def talloc_strdup_def u_talloc_strlendup_def uu_talloc_def
        MAX_TALLOC_SIZE_def arena_env_def arena_def demo_def init_block_def acc TC_HDR_SIZE_eq
        new_chunk_def TC_PTR_FROM_CHUNK_def put_string_def put_def u_talloc_set_name_const_def
        talloc_chunk_from_ptr_def magic_mask Let_def)
  then show ?thesis
    using talloc_strndup_append_ignores_limit [OF demo_heap arena_ok(1) c, of "''abc''" 0 1] by auto
qed

text \<open>
  \<open>talloc_find_parent_byname\<close> started at a reference handle dereferences the marker
  that a handle has for a name, whatever the name looked for.
\<close>

theorem talloc_find_parent_byname_at_handle:
  assumes "live s a" and "a \<noteq> NULL" and "fld tc_flags 0 s a = TALLOC_MAGIC" and "fld tc_name NNull s a = NMagicRef"
    and "0 < n"
  shows "talloc_find_parent_byname n s (TC_PTR_FROM_CHUNK a) name = Inl Bad_access"
  using assms chunk_from_ptr_magic [OF assms(1,3)]
  by (cases n) (simp_all add: talloc_find_parent_byname_def view name_string_def)

theorem talloc_find_parent_byname_at_handle_witness:
  "talloc_find_parent_byname 3 demo (TC_PTR_FROM_CHUNK 4000) ''root'' = Inl Bad_access"
  by (rule talloc_find_parent_byname_at_handle)
    (simp_all add: demo_live, simp_all add: demo_def fld_def new_chunk_def)

end
