(* ===== verification/Talloc_Fault.thy ===== *)
theory Talloc_Fault
  imports Talloc_Append
begin

unbundle bit_operations_syntax

text \<open>
  A state of the heap invariant in which \<open>_talloc_free\<close> reads a block it has released.
\<close>

text \<open>
  The null context 1000 has two children, the handle 4000 and the chunk 2000, in this
  order; the handle refers to 3000, the only child of 2000.
\<close>

definition tracked :: tstate where
  "tracked = \<lparr>chunks = [
     1000 \<mapsto> (new_chunk 0)\<lparr>tc_child := 4000, tc_name := NConst ''null_context''\<rparr>,
     4000 \<mapsto> (new_chunk 24)\<lparr>tc_next := 2000, tc_parent := 1000, tc_destructor := DRef,
               tc_name := NMagicRef\<rparr>,
     2000 \<mapsto> (new_chunk 8)\<lparr>tc_prev := 4000, tc_child := 3000\<rparr>,
     3000 \<mapsto> (new_chunk 4)\<lparr>tc_parent := 2000, tc_refs := 4080\<rparr>],
   handles = [4080 \<mapsto> \<lparr>h_next = NULL, h_prev = NULL, h_ptr = 3080\<rparr>],
   bytes = [1080 \<mapsto> [], 4080 \<mapsto> replicate 24 None, 2080 \<mapsto> replicate 8 None, 3080 \<mapsto> replicate 4 None],
   null_context = 1080, autofree_context = NULL\<rparr>"

definition tracked_forest :: forest where
  "tracked_forest = (\<lambda>_. [])(1000 := [4000, 2000], 2000 := [3000])"

definition tracked_refs :: reftab where
  "tracked_refs = (\<lambda>_. [])(3000 := [4080])"

lemma tracked_live: "live tracked = (\<lambda>a. a \<in> {1000, 2000, 3000, 4000})"
  by (auto simp: live_def tracked_def fun_eq_iff)

lemma tracked_fields:
  "nxt tracked = (\<lambda>_. NULL)(4000 := 2000)" "prv tracked = (\<lambda>_. NULL)(2000 := 4000)"
  "par tracked = (\<lambda>_. NULL)(4000 := 1000, 3000 := 2000)"
  "chd tracked = (\<lambda>_. NULL)(1000 := 4000, 2000 := 3000)"
  "rfs tracked = (\<lambda>_. NULL)(3000 := 4080)"
  "fld tc_destructor DNull tracked = (\<lambda>_. DNull)(4000 := DRef)"
  "hlive tracked = (\<lambda>h. h = 4080)" "hfld h_ptr tracked = (\<lambda>_. NULL)(4080 := 3080)"
  "hfld h_next tracked = (\<lambda>_. NULL)" "hfld h_prev tracked = (\<lambda>_. NULL)"
  by (auto simp: tracked_def acc fun_eq_iff new_chunk_def)

lemma tracked_heap: "heap {} tracked tracked_forest tracked_refs"
proof -
  have ptr: "TC_PTR_FROM_CHUNK 3000 = 3080" "TC_PTR_FROM_CHUNK 4000 = 4080"
    by (simp_all add: TC_PTR_FROM_CHUNK_def TC_HDR_SIZE_eq)
  have "tree_inv {} tracked tracked_forest"
    unfolding tree_inv_def links_def tracked_fields tracked_live tracked_forest_def
    by (intro conjI) (simp_all, auto intro: exI [of _ 1000] exI [of _ 2000])
  moreover have "refs_inv {} tracked tracked_refs"
    unfolding refs_inv_def tracked_fields tracked_live tracked_refs_def
    by (intro conjI) (auto simp: ptr intro: exI [of _ 4000])
  moreover have "flags_ok {} tracked"
    unfolding flags_ok_def tracked_live by (simp add: tracked_def acc new_chunk_def)
  ultimately show ?thesis by (simp add: heap_def)
qed

lemma tracked_ranked: "ranked tracked_forest"
  unfolding ranked_def
  by (rule exI [of _ "\<lambda>a. if a = 1000 then 2 else if a = 2000 then 1 else 0"])
    (simp add: tracked_forest_def)

lemma tracked_free:
  "u_talloc_free E (Suc (Suc (Suc (Suc (Suc (Suc n)))))) tracked 2080 = Inl Bad_access"
  by (simp add: tracked_def new_chunk_def talloc_chunk_from_ptr_def rd_def upd_def rdh_def updh_def
    TC_HDR_SIZE_eq TC_PTR_FROM_CHUNK_def talloc_is_parent_def destructor_stage_def call_destructor_def
    talloc_reference_destructor_def TLIST_REMOVE_def refs_ops_def child_ops_def detach_def free_block_def
    talloc_parent_chunk_def TALLOC_MAGIC_def TALLOC_FLAG_FREE_def TALLOC_FLAG_LOOP_def)

text \<open>
  C14.  With the null context tracked, \<open>talloc_free\<close> of a chunk that is not the first of
  its siblings can read freed memory, in a state that satisfies the heap invariant: the
  child that survives because it is referenced loses its reference handle, the handle is
  the previous sibling of the chunk being freed, and \<open>talloc_parent_chunk(ptr)\<close> follows
  the stale \<open>prev\<close> link of that chunk to it.
\<close>

theorem talloc_free_stale_sibling:
  "heap {} tracked tracked_forest tracked_refs \<and> ranked tracked_forest \<and>
   null_context tracked = TC_PTR_FROM_CHUNK 1000 \<and> live tracked 2000 \<and> tracked_refs 2000 = [] \<and>
   talloc_free E (6 + n) tracked (TC_PTR_FROM_CHUNK 2000) = Inl Bad_access"
proof -
  have "(6 :: nat) + n = Suc (Suc (Suc (Suc (Suc (Suc n)))))" by simp
  moreover have "TC_PTR_FROM_CHUNK 1000 = 1080" "TC_PTR_FROM_CHUNK 2000 = 2080"
    by (simp_all add: TC_PTR_FROM_CHUNK_def TC_HDR_SIZE_eq)
  ultimately have "talloc_free E (6 + n) tracked (TC_PTR_FROM_CHUNK 2000) = Inl Bad_access"
    using tracked_free [of E n] by (simp only: talloc_free_def)
  moreover have "null_context tracked = TC_PTR_FROM_CHUNK 1000"
    by (simp add: tracked_def TC_PTR_FROM_CHUNK_def TC_HDR_SIZE_eq)
  ultimately show ?thesis
    using tracked_heap tracked_ranked by (simp add: tracked_live tracked_refs_def)
qed

end
