(* ===== verification/Talloc_Reach.thy ===== *)
theory Talloc_Reach
  imports Talloc_Resize Talloc_Demo
begin

unbundle bit_operations_syntax

text \<open>
  The allocator as a transition system: a step is one call of the interface that respects
  its preconditions, stated on the memory and by calls of the library itself.  Every
  reachable memory satisfies the heap invariant.
\<close>

definition no_memory :: tstate where
  "no_memory = \<lparr>chunks = Map.empty, handles = Map.empty, bytes = Map.empty,
     null_context = NULL, autofree_context = NULL\<rparr>"

text \<open>
  A free step is one on a subtree without references whose client destructors are harmless; the
  subtree is found by \<open>talloc_is_parent\<close>.  The fuel is that of the lemmas on the walks.
\<close>

definition fuel :: "tstate \<Rightarrow> nat" where
  "fuel s = 2 * card {a. live s a} + 2"

inductive talloc_step :: "libc \<Rightarrow> tstate \<Rightarrow> tstate \<Rightarrow> bool" for E where
  alloc: "ctx_ok s (eff_ctx s ctx) \<Longrightarrow> talloc_named_const E s ctx n nm = Inr (p, s') \<Longrightarrow> talloc_step E s s'"
| track: "null_context s = NULL \<Longrightarrow> talloc_enable_null_tracking E s = Inr s' \<Longrightarrow> talloc_step E s s'"
| name: "live s a \<Longrightarrow> talloc_set_name_const s (TC_PTR_FROM_CHUNK a) nm = Inr s' \<Longrightarrow> talloc_step E s s'"
| destructor: "live s a \<Longrightarrow> fld tc_destructor DNull s a \<noteq> DRef \<Longrightarrow>
    u_talloc_set_destructor s (TC_PTR_FROM_CHUNK a) (DUser k) = Inr s' \<Longrightarrow> talloc_step E s s'"
| reference: "ctx_ok s (eff_ctx s ctx) \<Longrightarrow> live s t \<Longrightarrow>
    u_talloc_reference E s ctx (TC_PTR_FROM_CHUNK t) = Inr (p, s') \<Longrightarrow> talloc_step E s s'"
| steal: "live s a \<Longrightarrow> ctx_ok s (eff_ctx s ctx) \<Longrightarrow>
    talloc_is_parent (fuel s) s (eff_ctx s ctx) (TC_PTR_FROM_CHUNK a) = Inr 0 \<Longrightarrow>
    u_talloc_steal s ctx (TC_PTR_FROM_CHUNK a) = Inr (p, s') \<Longrightarrow> talloc_step E s s'"
| free: "live s c \<Longrightarrow>
    (\<And>x. live s x \<Longrightarrow> talloc_is_parent (fuel s) s (TC_PTR_FROM_CHUNK x) (TC_PTR_FROM_CHUNK c) = Inr 1 \<Longrightarrow>
       rfs s x = NULL \<and> harmless E (fld tc_destructor DNull s x)) \<Longrightarrow>
    talloc_free E (fuel s) s (TC_PTR_FROM_CHUNK c) = Inr (r, s') \<Longrightarrow> talloc_step E s s'"
| resize: "live s a \<Longrightarrow> rfs s a = NULL \<Longrightarrow> fld tc_destructor DNull s a \<noteq> DRef \<Longrightarrow> 0 < n \<Longrightarrow>
    n < MAX_TALLOC_SIZE \<Longrightarrow>
    u_talloc_realloc E f s ctx (TC_PTR_FROM_CHUNK a) n nm = Inr (p, s') \<Longrightarrow> talloc_step E s s'"

inductive talloc_reach :: "libc \<Rightarrow> tstate \<Rightarrow> bool" for E where
  start: "talloc_reach E no_memory"
| step: "talloc_reach E s \<Longrightarrow> talloc_step E s s' \<Longrightarrow> talloc_reach E s'"

definition good :: "tstate \<Rightarrow> bool" where
  "good s \<longleftrightarrow> (\<exists>ch rf. heap {} s ch rf \<and> ranked ch)"

section \<open>Each step keeps the invariant\<close>

lemma goodI: "heap {} s ch rf \<Longrightarrow> ranked ch \<Longrightarrow> good s"
  by (auto simp: good_def)

lemma null_context_view:
  "live (s\<lparr>null_context := p\<rparr>) = live s" "hlive (s\<lparr>null_context := p\<rparr>) = hlive s"
  "fld g d (s\<lparr>null_context := p\<rparr>) = fld g d s" "hfld k (s\<lparr>null_context := p\<rparr>) = hfld k s"
  by (simp_all add: acc fun_eq_iff)

lemma good_null_context [simp]: "good (s\<lparr>null_context := p\<rparr>) = good s"
  by (simp add: good_def heap_def tree_inv_def refs_inv_def flags_ok_def null_context_view)

lemma no_memory_good: "good no_memory"
proof (rule goodI)
  show "heap {} no_memory (\<lambda>_. []) (\<lambda>_. [])"
    by (auto simp: heap_def tree_inv_def links_def refs_inv_def flags_ok_def no_memory_def acc)
  show "ranked (\<lambda>_. [])" by (simp add: ranked_def)
qed

text \<open>A new leaf below a live chunk does not close a cycle.\<close>

lemma ranked_new:
  assumes "ranked ch" and "ch a = []" and "\<not> live s a" and "ctx_ok s ctx"
  shows "ranked (if ctx = NULL then ch else fadd (ctx - TC_HDR_SIZE) a ch)"
proof (cases "ctx = NULL")
  case False
  then obtain q where q: "ctx = TC_PTR_FROM_CHUNK q" "live s q" using assms(4) by (auto simp: ctx_ok_def)
  then have "q \<notin> sub ch a" using assms(2,3) sub_leaf [where a = a and ch = ch] by auto
  then show ?thesis using ranked_fadd [OF assms(1)] q by simp
qed (use assms(1) in simp)

lemma named_const_good:
  assumes "good s" and "malloc_ok E" and "ctx_ok s (eff_ctx s ctx)"
    and "u_talloc_named_const E s ctx n nm = Inr (p, s')"
  shows "good s'"
proof -
  obtain ch rf where h: "heap {} s ch rf" "ranked ch" using assms(1) by (auto simp: good_def)
  show ?thesis
    using heap_named_const [OF h(1) assms(2,3), of n nm]
  proof (elim disjE exE conjE)
    assume "u_talloc_named_const E s ctx n nm = Inr (NULL, s)"
    then show ?thesis using assms(1,4) by simp
  next
    fix a t ch'
    assume run: "u_talloc_named_const E s ctx n nm = Inr (TC_PTR_FROM_CHUNK a, t)"
      and post: "alloc_post s (eff_ctx s ctx) n ch rf a t ch'"
    note P = post [unfolded alloc_post_def]
    have "ranked ch'" using ranked_new [OF h(2) _ _ assms(3), of a] P by simp
    moreover have "heap {} t ch' rf" using P by metis
    ultimately show ?thesis using goodI run assms(4) by simp
  qed
qed

lemma reference_good:
  assumes "good s" and "malloc_ok E" and "ctx_ok s (eff_ctx s ctx)" and "live s t"
    and "u_talloc_reference E s ctx (TC_PTR_FROM_CHUNK t) = Inr (p, s')"
  shows "good s'"
proof -
  obtain ch rf where h: "heap {} s ch rf" "ranked ch" using assms(1) by (auto simp: good_def)
  show ?thesis
    using heap_reference [OF h(1) assms(2-4)]
  proof (elim disjE exE conjE)
    assume "u_talloc_reference E s ctx (TC_PTR_FROM_CHUNK t) = Inr (NULL, s)"
    then show ?thesis using assms(1,5) by simp
  next
    fix b s1
    assume run: "u_talloc_reference E s ctx (TC_PTR_FROM_CHUNK t) = Inr (TC_PTR_FROM_CHUNK t, s1)"
      and post: "shared_post s (eff_ctx s ctx) t ch rf b s1"
    note P = post [unfolded shared_post_def]
    have "\<not> live s b" using P by simp
    moreover have "ch b = []" using tree_invD(3) [OF heapD(1) [OF h(1)], of b] P by auto
    ultimately have "ranked (if eff_ctx s ctx = NULL then ch else fadd (eff_ctx s ctx - TC_HDR_SIZE) b ch)"
      by (intro ranked_new [OF h(2) _ _ assms(3)])
    then have "good s1" using P goodI by metis
    then show ?thesis using run assms(5) by simp
  qed
qed

lemma data_good:
  assumes "good s" and "live s a"
  shows "u_talloc_set_name_const s (TC_PTR_FROM_CHUNK a) nm = Inr s' \<Longrightarrow> good s'"
    and "fld tc_destructor DNull s a \<noteq> DRef \<Longrightarrow> d \<noteq> DRef \<Longrightarrow>
      u_talloc_set_destructor s (TC_PTR_FROM_CHUNK a) d = Inr s' \<Longrightarrow> good s'"
proof -
  obtain ch rf where h: "heap {} s ch rf" "ranked ch" using assms(1) by (auto simp: good_def)
  show "u_talloc_set_name_const s (TC_PTR_FROM_CHUNK a) nm = Inr s' \<Longrightarrow> good s'"
    using heap_set_name [OF h(1) assms(2), of nm] goodI [OF _ h(2)] by auto
  show "fld tc_destructor DNull s a \<noteq> DRef \<Longrightarrow> d \<noteq> DRef \<Longrightarrow>
      u_talloc_set_destructor s (TC_PTR_FROM_CHUNK a) d = Inr s' \<Longrightarrow> good s'"
    using heap_set_destructor [OF h(1) assms(2)] goodI [OF _ h(2)] by auto
qed

lemma steal_good:
  assumes "good s" and a: "live s a" and ctx: "ctx_ok s (eff_ctx s ctx)"
    and no: "talloc_is_parent (fuel s) s (eff_ctx s ctx) (TC_PTR_FROM_CHUNK a) = Inr 0"
    and run: "u_talloc_steal s ctx (TC_PTR_FROM_CHUNK a) = Inr (p, s')"
  shows "good s'"
proof -
  obtain ch rf where h: "heap {} s ch rf" "ranked ch" using assms(1) by (auto simp: good_def)
  show ?thesis
  proof (cases "eff_ctx s ctx = NULL")
    case True
    then have "ctx = NULL" "null_context s = NULL" by (simp_all add: eff_ctx_def split: if_splits)
    then show ?thesis
      using heap_steal_null [OF h(1) a] run goodI [OF _ ranked_fremove [OF h(2)]] by auto
  next
    case False
    then obtain q where q: "eff_ctx s ctx = TC_PTR_FROM_CHUNK q" "live s q"
      using ctx by (auto simp: ctx_ok_def)
    have "q \<notin> sub ch a"
      using no talloc_is_parent_tree [OF h q(2), of "fuel s" "TC_PTR_FROM_CHUNK a"]
      by (auto simp: q(1) fuel_def of_truth_def split: if_splits)
    then have "ranked (fsteal q a ch)" by (rule ranked_fsteal [OF h(2)])
    then show ?thesis
      using heap_steal [OF h(1) a _ q(2), of ctx] q(1) run goodI by (auto simp: eff_ctx_def)
  qed
qed

lemma free_good:
  assumes "good s" and c: "live s c"
    and pl: "\<And>x. live s x \<Longrightarrow>
      talloc_is_parent (fuel s) s (TC_PTR_FROM_CHUNK x) (TC_PTR_FROM_CHUNK c) = Inr 1 \<Longrightarrow>
      rfs s x = NULL \<and> harmless E (fld tc_destructor DNull s x)"
    and run: "talloc_free E (fuel s) s (TC_PTR_FROM_CHUNK c) = Inr (r, s')"
  shows "good s'"
proof -
  obtain ch rf where h: "heap {} s ch rf" "ranked ch" using assms(1) by (auto simp: good_def)
  note T = heapD(1) [OF h(1)]
  have "rf x = [] \<and> harmless E (fld tc_destructor DNull s x)" if x: "x \<in> sub ch c" for x
  proof -
    have lx: "live s x" using sub_live [OF T c] x by auto
    have "talloc_is_parent (fuel s) s (TC_PTR_FROM_CHUNK x) (TC_PTR_FROM_CHUNK c) = Inr 1"
      using talloc_is_parent_tree [OF h lx, of "fuel s" "TC_PTR_FROM_CHUNK c"] x
      by (auto simp: fuel_def of_truth_def)
    from pl [OF lx this] show ?thesis
      using refs_invD(2,3) [OF heapD(2) [OF h(1)], of x] lx dseg_hdd_NULL by auto
  qed
  then have "plain E s rf (sub ch c)" by (simp add: plain_def)
  moreover have "2 * card (sub ch c) \<le> fuel s"
    using card_mono [OF tree_invD(2) [OF T] sub_live [OF T c]] by (simp add: fuel_def)
  ultimately obtain t where "talloc_free E (fuel s) s (TC_PTR_FROM_CHUNK c) = Inr (0, t)"
      "heap {} t (prune (sub ch c) ch) (rdrop (sub ch c) rf)"
    using free_main(1) [OF h c, of E "fuel s"] by (auto simp: talloc_free_def released_def)
  then show ?thesis using run goodI [OF _ ranked_prune [OF h(2)]] by simp
qed

lemma ranked_frename:
  assumes "ranked ch" and "\<And>p. b \<notin> set (ch p)"
  shows "ranked (frename a b ch)"
proof -
  obtain r :: "addr \<Rightarrow> nat" where r: "\<And>p x. x \<in> set (ch p) \<Longrightarrow> r x < r p"
    using assms(1) by (auto simp: ranked_def)
  let ?r = "\<lambda>x. if x = b then r a else r x"
  have "?r y < ?r p" if "y \<in> set (frename a b ch p)" for y p
    using that r assms(2) by (auto simp: frename_def ren_def split: if_splits)
  then show ?thesis unfolding ranked_def by (intro exI [of _ ?r]) blast
qed

lemma resize_good:
  assumes "good s" and E: "realloc_ok E" and a: "live s a" "rfs s a = NULL" "fld tc_destructor DNull s a \<noteq> DRef"
    and n: "0 < n" "n < MAX_TALLOC_SIZE"
    and run: "u_talloc_realloc E f s ctx (TC_PTR_FROM_CHUNK a) n nm = Inr (p, s')"
  shows "good s'"
proof -
  obtain ch rf where h: "heap {} s ch rf" "ranked ch" using assms(1) by (auto simp: good_def)
  have r: "rf a = []"
    using refs_invD(2,3) [OF heapD(2) [OF h(1)], of a] a dseg_hdd_NULL by auto
  from heap_realloc [OF h E a(1) r n, of f ctx nm]
  consider (null) "s' = s" | (moved) b where "b \<noteq> NULL" "b = a \<or> \<not> live s b" "s' = redirected s a b n nm"
    using run by auto
  then show ?thesis
  proof cases
    case moved
    have "ranked (frename a b ch)"
    proof (cases "b = a")
      case False
      then show ?thesis
        using tree_invD(5) [OF heapD(1) [OF h(1)], of b] moved(2) by (intro ranked_frename [OF h(2)]) auto
    qed (simp add: frename_same h(2))
    then show ?thesis
      using redirected_heap [OF h a(1) r a(3) moved(2,1,3)] goodI by blast
  qed (use assms(1) in simp)
qed

lemma step_good:
  assumes "malloc_ok E" and "realloc_ok E" and "talloc_step E s s'" and "good s"
  shows "good s'"
  using assms(3)
proof cases
  case (track)
  then obtain p t where t: "u_talloc_named_const E s NULL 0 (NConst ''null_context'') = Inr (p, t)"
      "s' = t\<lparr>null_context := p\<rparr>"
    by (auto simp: talloc_enable_null_tracking_def bnd_eq_Inr)
  have "ctx_ok s (eff_ctx s NULL)" using track by (simp add: ctx_ok_def eff_ctx_def)
  then have "good t" using named_const_good [OF assms(4,1) _ t(1)] by simp
  then show ?thesis by (simp add: t(2))
next
  case alloc
  then show ?thesis using named_const_good [OF assms(4,1)] by (simp add: talloc_named_const_def)
next
  case name
  then show ?thesis using data_good(1) [OF assms(4)] by (simp add: talloc_set_name_const_def)
next
  case (destructor a k)
  show ?thesis by (rule data_good(2) [OF assms(4) destructor(1,2) _ destructor(3)]) simp
next
  case reference
  then show ?thesis using reference_good [OF assms(4,1)] by simp
next
  case steal
  then show ?thesis using steal_good [OF assms(4)] by simp
next
  case (free c r)
  show ?thesis by (rule free_good [OF assms(4) free])
next
  case resize
  then show ?thesis using resize_good [OF assms(4,2)] by simp
qed

text \<open>
  C15.  Every memory that the interface can reach from the empty one, with calls that
  respect its preconditions, satisfies the heap invariant for some acyclic forest and
  some reference table.
\<close>

theorem talloc_reachable_good:
  assumes "malloc_ok E" and "realloc_ok E" and "talloc_reach E s"
  shows "\<exists>ch rf. heap {} s ch rf \<and> ranked ch"
  using assms(3)
proof (induction rule: talloc_reach.induct)
  case start
  show ?case using no_memory_good by (simp add: good_def)
next
  case (step s s')
  then show ?case using step_good [OF assms(1,2) step.hyps(2)] by (simp add: good_def)
qed

theorem talloc_reachable_good_witness:
  "\<exists>s. talloc_reach arena_env s \<and> live s 6000 \<and> (\<exists>ch rf. heap {} s ch rf \<and> ranked ch)"
proof -
  have "\<exists>s. talloc_named_const arena_env no_memory 0 8 (NConst ''x'') = Inr (6080, s) \<and> live s 6000"
    by (simp add: talloc_named_const_def u_talloc_named_const_def uu_talloc_def MAX_TALLOC_SIZE_def
        arena_env_def arena_def no_memory_def init_block_def talloc_chunk_from_ptr_def acc
        TC_HDR_SIZE_eq new_chunk_def TC_PTR_FROM_CHUNK_def u_talloc_set_name_const_def TALLOC_MAGIC_def
        TALLOC_FLAG_FREE_def
        Let_def)
  then obtain s where s: "talloc_named_const arena_env no_memory 0 8 (NConst ''x'') = Inr (6080, s)"
      "live s 6000" by blast
  have "ctx_ok no_memory (eff_ctx no_memory 0)" by (simp add: ctx_ok_def eff_ctx_def no_memory_def)
  from talloc_reach.step [OF talloc_reach.start talloc_step.alloc [OF this s(1)]]
  have r: "talloc_reach arena_env s" .
  show ?thesis using talloc_reachable_good [OF arena_ok r] r s(2) by blast
qed

end
