(* ===== verification/Talloc_Types.thy ===== *)
theory Talloc_Types
  imports Talloc_Props Talloc_String
begin

unbundle bit_operations_syntax

text \<open>
  The macros of \<open>lib/include/talloc/talloc.h\<close>: they give the functions of \<open>talloc.c\<close> the size
  and the name of a C type, or the place in the source where they are used.  A C type is its
  size and its name; \<open>loc\<close> is the string \<open>__location__\<close>.  The casts of the macros have no
  effect at run time.
\<close>

section \<open>The macros\<close>

record ctype =
  sizeof_type :: "64 word"
  type_name :: string

definition talloc_type :: "libc \<Rightarrow> tstate \<Rightarrow> addr \<Rightarrow> ctype \<Rightarrow> (addr \<times> tstate) res" where
  "talloc_type E s ctx ty = talloc_named_const E s ctx (unat (sizeof_type ty)) (NConst (type_name ty))"

definition talloc_size :: "libc \<Rightarrow> tstate \<Rightarrow> addr \<Rightarrow> nat \<Rightarrow> string \<Rightarrow> (addr \<times> tstate) res" where
  "talloc_size E s ctx n loc = talloc_named_const E s ctx n (NConst loc)"

definition talloc_ptrtype :: "libc \<Rightarrow> tstate \<Rightarrow> addr \<Rightarrow> ctype \<Rightarrow> string \<Rightarrow> (addr \<times> tstate) res" where
  "talloc_ptrtype E s ctx target loc = talloc_size E s ctx (unat (sizeof_type target)) loc"

definition talloc_new :: "libc \<Rightarrow> tstate \<Rightarrow> addr \<Rightarrow> string \<Rightarrow> (addr \<times> tstate) res" where
  "talloc_new E s ctx loc = talloc_named_const E s ctx 0 (NConst (''talloc_new: '' @ loc))"

definition talloc_zero :: "libc \<Rightarrow> tstate \<Rightarrow> addr \<Rightarrow> ctype \<Rightarrow> (addr \<times> tstate) res" where
  "talloc_zero E s ctx ty = u_talloc_zero E s ctx (unat (sizeof_type ty)) (NConst (type_name ty))"

definition talloc_zero_size :: "libc \<Rightarrow> tstate \<Rightarrow> addr \<Rightarrow> nat \<Rightarrow> string \<Rightarrow> (addr \<times> tstate) res" where
  "talloc_zero_size E s ctx n loc = u_talloc_zero E s ctx n (NConst loc)"

definition talloc_zero_array :: "libc \<Rightarrow> tstate \<Rightarrow> addr \<Rightarrow> ctype \<Rightarrow> 32 word \<Rightarrow> (addr \<times> tstate) res" where
  "talloc_zero_array E s ctx ty count = u_talloc_zero_array E s ctx (sizeof_type ty) count (NConst (type_name ty))"

definition talloc_array :: "libc \<Rightarrow> tstate \<Rightarrow> addr \<Rightarrow> ctype \<Rightarrow> 32 word \<Rightarrow> (addr \<times> tstate) res" where
  "talloc_array E s ctx ty count = u_talloc_array E s ctx (sizeof_type ty) count (NConst (type_name ty))"

definition talloc_array_size :: "libc \<Rightarrow> tstate \<Rightarrow> addr \<Rightarrow> 64 word \<Rightarrow> 32 word \<Rightarrow> string \<Rightarrow> (addr \<times> tstate) res" where
  "talloc_array_size E s ctx n count loc = u_talloc_array E s ctx n count (NConst loc)"

definition talloc_array_ptrtype :: "libc \<Rightarrow> tstate \<Rightarrow> addr \<Rightarrow> ctype \<Rightarrow> 32 word \<Rightarrow> string \<Rightarrow> (addr \<times> tstate) res" where
  "talloc_array_ptrtype E s ctx target count loc = talloc_array_size E s ctx (sizeof_type target) count loc"

definition talloc_realloc :: "libc \<Rightarrow> nat \<Rightarrow> tstate \<Rightarrow> addr \<Rightarrow> addr \<Rightarrow> ctype \<Rightarrow> 32 word \<Rightarrow> (addr \<times> tstate) res" where
  "talloc_realloc E f s ctx p ty count = u_talloc_realloc_array E f s ctx p (sizeof_type ty) count (NConst (type_name ty))"

definition talloc_realloc_size :: "libc \<Rightarrow> nat \<Rightarrow> tstate \<Rightarrow> addr \<Rightarrow> addr \<Rightarrow> nat \<Rightarrow> string \<Rightarrow> (addr \<times> tstate) res" where
  "talloc_realloc_size E f s ctx ptr n loc = u_talloc_realloc E f s ctx ptr n (NConst loc)"

definition talloc_memdup :: "libc \<Rightarrow> tstate \<Rightarrow> addr \<Rightarrow> char option list \<Rightarrow> nat \<Rightarrow> string \<Rightarrow> (addr \<times> tstate) res" where
  "talloc_memdup E s t p n loc = u_talloc_memdup E s t p n (NConst loc)"

definition talloc_set_type :: "tstate \<Rightarrow> addr \<Rightarrow> ctype \<Rightarrow> tstate res" where
  "talloc_set_type s ptr ty = talloc_set_name_const s ptr (NConst (type_name ty))"

definition talloc_get_type :: "tstate \<Rightarrow> addr \<Rightarrow> ctype \<Rightarrow> addr res" where
  "talloc_get_type s ptr ty = talloc_check_name s ptr (NConst (type_name ty))"

definition talloc_find_parent_bytype :: "nat \<Rightarrow> tstate \<Rightarrow> addr \<Rightarrow> ctype \<Rightarrow> addr res" where
  "talloc_find_parent_bytype n s ptr ty = talloc_find_parent_byname n s ptr (type_name ty)"

definition talloc_steal :: "tstate \<Rightarrow> addr \<Rightarrow> addr \<Rightarrow> (addr \<times> tstate) res" where
  "talloc_steal s ctx ptr = u_talloc_steal s ctx ptr"

definition talloc_move :: "tstate \<Rightarrow> addr \<Rightarrow> addr \<Rightarrow> (addr \<times> addr \<times> tstate) res" where
  "talloc_move s ctx ptr = u_talloc_move s ctx ptr"

definition talloc_reference :: "libc \<Rightarrow> tstate \<Rightarrow> addr \<Rightarrow> addr \<Rightarrow> (addr \<times> tstate) res" where
  "talloc_reference E s ctx ptr = u_talloc_reference E s ctx ptr"

definition talloc_set_destructor :: "tstate \<Rightarrow> addr \<Rightarrow> talloc_destructor_t \<Rightarrow> tstate res" where
  "talloc_set_destructor s ptr d = u_talloc_set_destructor s ptr d"

section \<open>Types that are checked at run time\<close>

lemma get_type_const:
  assumes h: "heap {} s ch rf" and a: "live s a" and nm: "fld tc_name NNull s a = NConst k"
  shows "talloc_get_type s (TC_PTR_FROM_CHUNK a) u = Inr (if type_name u = k then TC_PTR_FROM_CHUNK a else NULL)"
proof -
  have "talloc_chunk_from_ptr s (TC_PTR_FROM_CHUNK a) = Inr a"
    by (rule talloc_chunk_from_ptr_live [OF heapD(3) [OF h] a])
  then have "talloc_get_name s (TC_PTR_FROM_CHUNK a) = Inr (NConst k)"
    using nm a by (auto simp: talloc_get_name_def acc)
  then show ?thesis
    by (auto simp: talloc_get_type_def talloc_check_name_def name_string_def TC_PTR_FROM_CHUNK_def)
qed

lemma get_type_named:
  assumes h: "heap {} s ch rf" and a: "live s a"
  shows "\<exists>s'. talloc_set_type s (TC_PTR_FROM_CHUNK a) ty = Inr s' \<and> heap {} s' ch rf \<and> live s' = live s \<and>
    fld tc_name NNull s' a = NConst (type_name ty)"
  using heap_set_name [OF h a, of "NConst (type_name ty)"] a
  by (auto simp: talloc_set_type_def talloc_set_name_const_def view)

lemma get_size_live:
  assumes h: "heap {} s ch rf" and a: "live s a"
  shows "talloc_get_size s (TC_PTR_FROM_CHUNK a) = Inr (fld tc_size 0 s a)"
proof -
  have "talloc_chunk_from_ptr s (TC_PTR_FROM_CHUNK a) = Inr a"
    by (rule talloc_chunk_from_ptr_live [OF heapD(3) [OF h] a])
  then show ?thesis using a by (auto simp: talloc_get_size_def acc TC_PTR_FROM_CHUNK_def TC_HDR_SIZE_eq)
qed

text \<open>
  C5.  Types are checked at run time.  What \<open>talloc(ctx, T)\<close> returns has the size of \<open>T\<close>, and
  \<open>talloc_get_type\<close> gives it back for \<open>T\<close> and null for any type with another name;
  \<open>talloc_set_type\<close> changes just that answer, and the memory stays well-formed.
\<close>

theorem talloc_types_checked:
  assumes h: "heap {} s ch rf" and E: "malloc_ok E" and ctx: "ctx_ok s (eff_ctx s ctx)"
    and p: "talloc_type E s ctx ty = Inr (p, s1)" "p \<noteq> NULL"
  shows "talloc_get_size s1 p = Inr (unat (sizeof_type ty)) \<and>
    talloc_get_type s1 p u = Inr (if type_name u = type_name ty then p else NULL) \<and>
    (\<exists>s2 ch'. talloc_set_type s1 p ty2 = Inr s2 \<and> heap {} s1 ch' rf \<and> heap {} s2 ch' rf \<and> live s2 = live s1 \<and>
       talloc_get_type s2 p u = Inr (if type_name u = type_name ty2 then p else NULL))"
proof -
  obtain a ch' where a: "p = TC_PTR_FROM_CHUNK a" "fld tc_name NNull s1 a = NConst (type_name ty)"
      "alloc_post s (eff_ctx s ctx) (unat (sizeof_type ty)) ch rf a s1 ch'"
    using heap_named_const [OF h E ctx, of "unat (sizeof_type ty)" "NConst (type_name ty)"] p
    by (auto simp: talloc_type_def talloc_named_const_def)
  then have h1: "heap {} s1 ch' rf" "live s1 a" "fld tc_size 0 s1 a = unat (sizeof_type ty)"
    by (auto simp: alloc_post_def)
  obtain s2 where "talloc_set_type s1 p ty2 = Inr s2" "heap {} s2 ch' rf" "live s2 = live s1"
      "fld tc_name NNull s2 a = NConst (type_name ty2)"
    using get_type_named [OF h1(1,2), of ty2] a(1) by auto
  then show ?thesis
    using get_type_const [OF h1(1,2) a(2), of u] get_type_const [of s2 ch' rf a "type_name ty2" u] h1
      get_size_live [OF h1(1,2)]
    by (auto simp: a(1))
qed

definition int_type :: ctype where
  "int_type = \<lparr>sizeof_type = 4, type_name = ''int''\<rparr>"

definition char_type :: ctype where
  "char_type = \<lparr>sizeof_type = 1, type_name = ''char''\<rparr>"

theorem talloc_types_checked_witness:
  "\<exists>p s1. talloc_type arena_env demo 1080 int_type = Inr (p, s1) \<and> p \<noteq> NULL \<and>
     talloc_get_size s1 p = Inr 4 \<and> talloc_get_type s1 p int_type = Inr p \<and> talloc_get_type s1 p char_type = Inr NULL"
proof -
  have "\<exists>p s1. talloc_type arena_env demo 1080 int_type = Inr (p, s1) \<and> p \<noteq> NULL"
    by (simp add: talloc_type_def int_type_def talloc_named_const_def u_talloc_named_const_def uu_talloc_def
        MAX_TALLOC_SIZE_def arena_env_def arena_def demo_def init_block_def talloc_chunk_from_ptr_def acc
        TC_HDR_SIZE_eq new_chunk_def TC_PTR_FROM_CHUNK_def TALLOC_MAGIC_def TALLOC_FLAG_FREE_def
        u_talloc_set_name_const_def Let_def)
  then obtain p s1 where p: "talloc_type arena_env demo 1080 int_type = Inr (p, s1)" "p \<noteq> NULL" by blast
  show ?thesis
    using talloc_types_checked [OF demo_heap arena_ok(1) demo_ctx(1) p, of int_type]
      talloc_types_checked [OF demo_heap arena_ok(1) demo_ctx(1) p, of char_type] p
    by (auto simp: int_type_def char_type_def)
qed

end
