(* ===== verification/Clib.thy ===== *)
theory Clib
  imports Prelude "HOL-Library.Char_ord" "HOL-Library.List_Lexorder" "HOL-Library.Sublist"
begin

unbundle bit_operations_syntax

text \<open>
  The functions of the C library that the programs under \<open>bin/\<close> call on characters and
  strings, in the C locale, as far as the programs use them.  A \<open>char *\<close> into a buffer is an
  offset into the list of the buffer's characters; reading past the end of the list is a
  bad access.
\<close>

abbreviation NULc :: char where "NULc \<equiv> CHR 0x00"

section \<open>Characters\<close>

definition isspace :: "char \<Rightarrow> bool" where
  "isspace c \<longleftrightarrow> c \<in> {CHR '' '', CHR 0x09, CHR 0x0A, CHR 0x0B, CHR 0x0C, CHR 0x0D}"

definition isdigit :: "char \<Rightarrow> bool" where
  "isdigit c \<longleftrightarrow> c \<in> set ''0123456789''"

lemma isspace_NUL [simp]: "\<not> isspace NULc"
  by (simp add: isspace_def)

section \<open>File modes\<close>

definition S_IFMT :: "32 word" where "S_IFMT = 0xF000"
definition S_IFREG :: "32 word" where "S_IFREG = 0x8000"
definition S_IFDIR :: "32 word" where "S_IFDIR = 0x4000"
definition S_IXUSR :: "32 word" where "S_IXUSR = 0x40"

definition S_ISREG :: "32 word \<Rightarrow> bool" where "S_ISREG m \<longleftrightarrow> m AND S_IFMT = S_IFREG"
definition S_ISDIR :: "32 word \<Rightarrow> bool" where "S_ISDIR m \<longleftrightarrow> m AND S_IFMT = S_IFDIR"

section \<open>Strings in buffers\<close>

text \<open>The C string that starts at the front of a list of characters.\<close>

fun cstr :: "char list \<Rightarrow> string res" where
  "cstr [] = Inl Bad_access"
| "cstr (c # cs) = (if c = NULc then Inr '''' else bnd (cstr cs) (\<lambda>s. Inr (c # s)))"

definition cstr_at :: "char list \<Rightarrow> nat \<Rightarrow> string res" where
  "cstr_at buf i = cstr (drop i buf)"

definition char_at :: "char list \<Rightarrow> nat \<Rightarrow> char res" where
  "char_at buf i = (if i < length buf then Inr (buf ! i) else Inl Bad_access)"

definition poke :: "char list \<Rightarrow> nat \<Rightarrow> char \<Rightarrow> char list res" where
  "poke buf i c = (if i < length buf then Inr (buf[i := c]) else Inl Bad_access)"

text \<open>\<open>strchr(buf + i, c)\<close> for a character other than zero.\<close>

definition strchr :: "char list \<Rightarrow> nat \<Rightarrow> char \<Rightarrow> nat option res" where
  "strchr buf i c =
     bnd (cstr_at buf i) (\<lambda>s.
     Inr (if c \<in> set s then Some (i + length (takeWhile (\<lambda>d. d \<noteq> c) s)) else None))"

text \<open>\<open>!strncmp(buf + i, pat, strlen(pat))\<close>: comparison stops at a difference or a zero byte.\<close>

fun has_prefix :: "char list \<Rightarrow> string \<Rightarrow> bool res" where
  "has_prefix cs [] = Inr True"
| "has_prefix [] (p # ps) = Inl Bad_access"
| "has_prefix (c # cs) (p # ps) = (if c = p then has_prefix cs ps else Inr False)"

definition strncmp_prefix :: "char list \<Rightarrow> nat \<Rightarrow> string \<Rightarrow> bool res" where
  "strncmp_prefix buf i pat = has_prefix (drop i buf) pat"

definition strstr_found :: "char list \<Rightarrow> string \<Rightarrow> bool res" where
  "strstr_found buf pat = bnd (cstr buf) (\<lambda>s. Inr (sublist pat s))"

text \<open>\<open>while (isspace(*c)) c++;\<close>\<close>

fun skip_space :: "char list \<Rightarrow> nat \<Rightarrow> nat res" where
  "skip_space [] i = Inl Bad_access"
| "skip_space (c # cs) i = (if isspace c then skip_space cs (i + 1) else Inr i)"

section \<open>Numbers\<close>

fun digits_value :: "string \<Rightarrow> int \<Rightarrow> int" where
  "digits_value [] v = v"
| "digits_value (c # cs) v =
     (if isdigit c then digits_value cs (10 * v + int (of_char c - 48)) else v)"

text \<open>
  \<open>atoi\<close>: leading white space, a sign, digits.  The result for a number that an \<open>int\<close> cannot
  hold is not defined by the C standard.
\<close>

definition atoi :: "string \<Rightarrow> int res" where
  "atoi s =
     (let t = dropWhile isspace s;
          (neg, d) = (case t of
             [] \<Rightarrow> (False, [])
           | c # r \<Rightarrow> if c = CHR ''-'' then (True, r) else if c = CHR ''+'' then (False, r) else (False, t));
          v = (if neg then - digits_value d 0 else digits_value d 0)
      in if - (2 ^ 31) \<le> v \<and> v < 2 ^ 31 then Inr v else Inl Overflow)"

section \<open>Tokens\<close>

text \<open>
  \<open>strtok\<close>: the saved position is threaded.  A token is a maximal run of characters that
  are neither delimiters nor zero; the delimiter behind it becomes a zero byte.
\<close>

fun skip_delims :: "string \<Rightarrow> char list \<Rightarrow> nat \<Rightarrow> nat res" where
  "skip_delims ds [] i = Inl Bad_access"
| "skip_delims ds (c # cs) i = (if c \<in> set ds then skip_delims ds cs (i + 1) else Inr i)"

fun token_end :: "string \<Rightarrow> char list \<Rightarrow> nat \<Rightarrow> nat res" where
  "token_end ds [] i = Inl Bad_access"
| "token_end ds (c # cs) i = (if c = NULc \<or> c \<in> set ds then Inr i else token_end ds cs (i + 1))"

definition strtok :: "string \<Rightarrow> char list \<Rightarrow> nat \<Rightarrow> (nat option \<times> nat \<times> char list) res" where
  \<comment> \<open>the token, the position to go on from, the buffer\<close>
  "strtok ds buf i =
     bnd (skip_delims ds (drop i buf) i) (\<lambda>t.
     bnd (char_at buf t) (\<lambda>c.
     if c = NULc then Inr (None, t, buf)
     else bnd (token_end ds (drop t buf) t) (\<lambda>e.
          bnd (char_at buf e) (\<lambda>c.
          if c = NULc then Inr (Some t, e, buf)
          else bnd (poke buf e NULc) (\<lambda>buf. Inr (Some t, e + 1, buf))))))"

section \<open>Facts\<close>

lemma cstr_terminated: "NULc \<notin> set s \<Longrightarrow> cstr (s @ NULc # r) = Inr s"
  by (induction s) auto

lemma terminated_split: "NULc \<in> set b \<Longrightarrow> \<exists>g. b = takeWhile (\<lambda>c. c \<noteq> NULc) b @ NULc # g"
  by (induction b) auto

lemma cstr_unterminated: "NULc \<notin> set s \<Longrightarrow> cstr s = Inl Bad_access"
  by (induction s) auto

lemma cstr_at_append:
  "NULc \<notin> set s \<Longrightarrow> length p = i \<Longrightarrow> cstr_at (p @ s @ NULc # r) i = Inr s"
  by (simp add: cstr_at_def cstr_terminated)

lemma cstr_Inr: "cstr b = Inr s \<Longrightarrow> \<exists>r. b = s @ NULc # r \<and> NULc \<notin> set s"
proof (induction b arbitrary: s)
  case (Cons c cs)
  show ?case
  proof (cases "c = NULc")
    case False
    then obtain t where "cstr cs = Inr t" "s = c # t" using Cons.prems by (auto simp: bnd_eq_Inr)
    then show ?thesis using Cons.IH [of t] False by auto
  qed (use Cons.prems in simp)
qed simp

lemma has_prefix_append: "has_prefix (s @ r) p = Inr (prefix p s)" if "length p \<le> length s" for s r p
  using that by (induction p arbitrary: s) (case_tac s; auto)+

lemma has_prefix_terminated:
  "NULc \<notin> set p \<Longrightarrow> has_prefix (s @ NULc # r) p = Inr (prefix p s)"
proof (induction p arbitrary: s)
  case (Cons a p)
  then show ?case by (cases s) auto
qed simp

end
