(* ===== verification/Capabilities.thy ===== *)
theory Capabilities
  imports Clib
begin

text \<open>
  \<open>bin/capabilities.c\<close>: the table of capabilities, the functions that probe the machine,
  and the table's cache.  The machine is the record \<open>host\<close>: what the system calls of the
  probes answer.
\<close>

section \<open>The machine\<close>

text \<open>
  \<open>nr_hugepages\<close>: \<open>None\<close> when the file cannot be opened, \<open>Some None\<close> when no byte can be read
  from it.  \<open>paths\<close> are the paths that \<open>stat\<close> finds, \<open>modprobe_adds\<close> those that exist once
  the module is loaded.
\<close>

record host =
  uid :: nat
  paths :: "string list"
  nr_hugepages :: "char option option"
  modprobe_adds :: "string list"

definition stat_ok :: "host \<Rightarrow> string \<Rightarrow> bool" where
  "stat_ok h p \<longleftrightarrow> p \<in> set (paths h)"

definition run_modprobe :: "host \<Rightarrow> host" where
  "run_modprobe h = h\<lparr>paths := paths h @ modprobe_adds h\<rparr>"

section \<open>The probes\<close>

definition cap_always :: "host \<Rightarrow> (int \<times> host) res" where
  "cap_always h = Inr (1, h)"

definition cap_never :: "host \<Rightarrow> (int \<times> host) res" where
  "cap_never h = Inr (0, h)"

definition cap_root :: "host \<Rightarrow> (int \<times> host) res" where
  "cap_root h = Inr (of_truth (uid h = 0), h)"

definition cap_affinity :: "host \<Rightarrow> (int \<times> host) res" where
  "cap_affinity h = Inr (of_truth (stat_ok h ''/sys/devices/system/node''), h)"

text \<open>The result of \<open>read\<close> is not looked at: without a byte, \<open>buf\<close> is not initialised.\<close>

definition cap_hugepages :: "host \<Rightarrow> (int \<times> host) res" where
  "cap_hugepages h = (case nr_hugepages h of
       None \<Rightarrow> Inr (0, h)
     | Some None \<Rightarrow> Inl Uninitialised
     | Some (Some c) \<Rightarrow> Inr (of_truth (c \<noteq> CHR ''0''), h))"

definition cap_sputrace :: "host \<Rightarrow> (int \<times> host) res" where
  "cap_sputrace h =
     bnd (cap_root h) (\<lambda>(r, h).
     if \<not> truth r then Inr (0, h)
     else if stat_ok h ''/proc/sputrace'' then Inr (1, h)
     else let h = run_modprobe h in Inr (of_truth (stat_ok h ''/proc/sputrace''), h))"

section \<open>The table\<close>

datatype cap_fn = F_always | F_never | F_root | F_affinity | F_hugepages | F_sputrace

fun call_fn :: "cap_fn \<Rightarrow> host \<Rightarrow> (int \<times> host) res" where
  "call_fn F_always = cap_always"
| "call_fn F_never = cap_never"
| "call_fn F_root = cap_root"
| "call_fn F_affinity = cap_affinity"
| "call_fn F_hugepages = cap_hugepages"
| "call_fn F_sputrace = cap_sputrace"

record capability =
  cap_name :: string
  cap_function :: cap_fn
  internal :: bool
  cap_value :: int
  valid :: bool

definition entry :: "string \<Rightarrow> cap_fn \<Rightarrow> bool \<Rightarrow> capability" where
  "entry n f i = \<lparr>cap_name = n, cap_function = f, internal = i, cap_value = 0, valid = False\<rparr>"

text \<open>The array \<open>caps\<close>; its last entry, with a null name, is the end of the list.\<close>

definition caps_table :: "capability list" where
  "caps_table = [
     entry ''always'' F_always True,
     entry ''never'' F_never True,
     entry ''root'' F_root False,
     entry ''affinity'' F_affinity False,
     entry ''hugepages'' F_hugepages False,
     entry ''sputrace'' F_sputrace False]"

type_synonym cap_state = "host \<times> capability list"

definition u_cap_available :: "host \<Rightarrow> capability \<Rightarrow> (int \<times> host \<times> capability) res" where
  "u_cap_available h cap =
     bnd (if \<not> valid cap then
            bnd (call_fn (cap_function cap) h) (\<lambda>(v, h). Inr (h, cap\<lparr>cap_value := v, valid := True\<rparr>))
          else Inr (h, cap)) (\<lambda>(h, cap).
     Inr (cap_value cap, h, cap))"

fun find_cap :: "host \<Rightarrow> capability list \<Rightarrow> string \<Rightarrow> (int \<times> host \<times> capability list) res" where
  "find_cap h [] name = Inr (0, h, [])"
| "find_cap h (cap # cs) name =
     (if cap_name cap = name then
        bnd (u_cap_available h cap) (\<lambda>(v, h, cap). Inr (v, h, cap # cs))
      else bnd (find_cap h cs name) (\<lambda>(v, h, cs). Inr (v, h, cap # cs)))"

definition cap_available :: "cap_state \<Rightarrow> string \<Rightarrow> (int \<times> cap_state) res" where
  "cap_available st name = bnd (find_cap (fst st) (snd st) name) (\<lambda>(v, h, cs). Inr (v, (h, cs)))"

text \<open>\<open>print_capabilities\<close>: the lines printed, as pairs of name and answer.\<close>

fun print_caps :: "host \<Rightarrow> capability list \<Rightarrow> ((string \<times> bool) list \<times> host \<times> capability list) res" where
  "print_caps h [] = Inr ([], h, [])"
| "print_caps h (cap # cs) =
     (if internal cap then bnd (print_caps h cs) (\<lambda>(out, h, cs). Inr (out, h, cap # cs))
      else bnd (u_cap_available h cap) (\<lambda>(v, h, cap).
           bnd (print_caps h cs) (\<lambda>(out, h, cs). Inr ((cap_name cap, truth v) # out, h, cap # cs))))"

definition print_capabilities :: "cap_state \<Rightarrow> ((string \<times> bool) list \<times> cap_state) res" where
  "print_capabilities st = bnd (print_caps (fst st) (snd st)) (\<lambda>(out, h, cs). Inr (out, (h, cs)))"

section \<open>The interface\<close>

text \<open>
  What a client of the table may assume: an answer, once given, is given again, without
  any effect, after any other question.
\<close>

locale capability_source =
  fixes available :: "'s \<Rightarrow> string \<Rightarrow> (int \<times> 's) res"
  assumes same_answer: "available s n = Inr (v, s') \<Longrightarrow> available s' n = Inr (v, s')"
    and kept: "available s n = Inr (v, s) \<Longrightarrow> available s m = Inr (w, t) \<Longrightarrow> available t n = Inr (v, t)"
begin

text \<open>A sequence of questions, up to the first whose answer the predicate rejects.\<close>

fun ask :: "(string \<Rightarrow> int \<Rightarrow> bool) \<Rightarrow> 's \<Rightarrow> string list \<Rightarrow> (string option \<times> 's) res" where
  "ask P s [] = Inr (None, s)"
| "ask P s (n # ns) =
     bnd (available s n) (\<lambda>(v, s). if P n v then ask P s ns else Inr (Some n, s))"

lemma settled:
  "available s n = Inr (v, s) \<Longrightarrow> ask P s ns = Inr (r, t) \<Longrightarrow> available t n = Inr (v, t)"
proof (induction ns arbitrary: s)
  case (Cons m ns)
  obtain w u where u: "available s m = Inr (w, u)" using Cons.prems(2) by (auto simp: bnd_eq_Inr)
  have "available u n = Inr (v, u)" by (rule kept [OF Cons.prems(1) u])
  then show ?case using Cons.IH [of u] Cons.prems(2) u by (auto split: if_splits)
qed simp

text \<open>Asking the same questions again gives the same outcome and changes nothing.\<close>

lemma ask_again: "ask P s ns = Inr (r, t) \<Longrightarrow> ask P t ns = Inr (r, t)"
proof (induction ns arbitrary: s)
  case (Cons n ns)
  obtain v u where u: "available s n = Inr (v, u)" using Cons.prems by (auto simp: bnd_eq_Inr)
  note again = same_answer [OF u]
  show ?case
  proof (cases "P n v")
    case True
    then have t: "ask P u ns = Inr (r, t)" using Cons.prems u by simp
    show ?thesis using Cons.IH [OF t] settled [OF again t] True by simp
  next
    case False
    then show ?thesis using Cons.prems u again by auto
  qed
qed simp

end

section \<open>The table provides it\<close>

text \<open>An entry that has been asked for is valid; valid entries answer from the cache.\<close>

lemma u_cap_available_valid:
  "u_cap_available h cap = Inr (v, h', cap') \<Longrightarrow>
   valid cap' \<and> cap_value cap' = v \<and> cap_name cap' = cap_name cap \<and>
   (valid cap \<longrightarrow> h' = h \<and> cap' = cap)"
  by (auto simp: u_cap_available_def bnd_eq_Inr split: if_splits)

lemma u_cap_available_cached: "valid cap \<Longrightarrow> u_cap_available h cap = Inr (cap_value cap, h, cap)"
  by (simp add: u_cap_available_def)

text \<open>The answer of the table from its cache alone.\<close>

fun cached :: "capability list \<Rightarrow> string \<Rightarrow> int option" where
  "cached [] n = Some 0"
| "cached (cap # cs) n =
     (if cap_name cap = n then (if valid cap then Some (cap_value cap) else None) else cached cs n)"

lemma find_cap_cached: "cached cs n = Some v \<Longrightarrow> find_cap h cs n = Inr (v, h, cs)"
  by (induction cs) (auto simp: u_cap_available_cached split: if_splits)

lemma find_cap_caches:
  "find_cap h cs n = Inr (v, h', cs') \<Longrightarrow> cached cs' n = Some v"
proof (induction cs arbitrary: h cs' h')
  case (Cons c cs)
  then show ?case
    by (auto simp: bnd_eq_Inr split: if_splits dest!: u_cap_available_valid)
qed simp

lemma find_cap_keeps:
  "find_cap h cs m = Inr (w, h', cs') \<Longrightarrow> cached cs n = Some v \<Longrightarrow> cached cs' n = Some v"
proof (induction cs arbitrary: h cs' h')
  case (Cons c cs)
  then show ?case
    by (auto simp: bnd_eq_Inr split: if_splits dest!: u_cap_available_valid)
qed simp

lemma cached_of_stable: "find_cap h cs n = Inr (v, h, cs) \<Longrightarrow> cached cs n = Some v"
  using find_cap_caches by blast

interpretation caps: capability_source cap_available
proof
  fix s s' :: cap_state and n v
  assume "cap_available s n = Inr (v, s')"
  then have "cached (snd s') n = Some v"
    by (auto simp: cap_available_def bnd_eq_Inr dest: find_cap_caches)
  then show "cap_available s' n = Inr (v, s')"
    by (simp add: cap_available_def find_cap_cached)
next
  fix s t :: cap_state and n m v w
  assume "cap_available s n = Inr (v, s)" and m: "cap_available s m = Inr (w, t)"
  then have "cached (snd s) n = Some v"
    by (auto simp: cap_available_def bnd_eq_Inr dest: cached_of_stable)
  then have "cached (snd t) n = Some v"
    using m by (auto simp: cap_available_def bnd_eq_Inr dest: find_cap_keeps)
  then show "cap_available t n = Inr (v, t)"
    by (simp add: cap_available_def find_cap_cached)
qed

section \<open>Properties\<close>

definition desktop :: host where
  "desktop = \<lparr>uid = 1000, paths = [''/sys/devices/system/node''], nr_hugepages = Some (Some CHR ''0''),
     modprobe_adds = []\<rparr>"

text \<open>
  C16.  The table caches: once \<open>cap_available\<close> has answered, the same question has the same
  answer, without any further probe of the machine, and it keeps that answer whatever else
  is asked in between.
\<close>

theorem cap_available_caches:
  assumes "cap_available st n = Inr (v, st1)" and "cap_available st1 m = Inr (w, st2)"
  shows "cap_available st2 n = Inr (v, st2)"
  by (rule caps.kept [OF caps.same_answer [OF assms(1)] assms(2)])

theorem cap_available_caches_witness:
  "\<exists>st1 st2. cap_available (desktop, caps_table) ''affinity'' = Inr (1, st1) \<and>
     cap_available st1 ''root'' = Inr (0, st2) \<and> cap_available st2 ''affinity'' = Inr (1, st2)"
proof -
  have "\<exists>st1 st2. cap_available (desktop, caps_table) ''affinity'' = Inr (1, st1) \<and>
     cap_available st1 ''root'' = Inr (0, st2)"
    by (simp add: cap_available_def caps_table_def entry_def u_cap_available_def cap_affinity_def
        cap_root_def desktop_def stat_ok_def of_truth_def)
  then show ?thesis using cap_available_caches by blast
qed

text \<open>
  What the first question to the table answers: the fixed answers, the user id, the
  presence of the NUMA directory, a count of huge pages that does not start with the digit
  0, and 0 for a name the table does not have; a count that cannot be read is used all the
  same.
\<close>

theorem cap_available_answers:
  "map_sum id fst (cap_available (h, caps_table) n) =
    (if n = ''always'' then Inr 1
     else if n = ''never'' then Inr 0
     else if n = ''root'' then Inr (if uid h = 0 then 1 else 0)
     else if n = ''affinity'' then Inr (if ''/sys/devices/system/node'' \<in> set (paths h) then 1 else 0)
     else if n = ''hugepages'' then
       (case nr_hugepages h of None \<Rightarrow> Inr 0 | Some None \<Rightarrow> Inl Uninitialised
        | Some (Some c) \<Rightarrow> Inr (if c \<noteq> CHR ''0'' then 1 else 0))
     else if n = ''sputrace'' then
       Inr (if uid h = 0 \<and> ''/proc/sputrace'' \<in> set (paths h @ modprobe_adds h) then 1 else 0)
     else Inr 0)"
proof -
  note defs = cap_available_def caps_table_def entry_def u_cap_available_def cap_always_def
    cap_never_def cap_affinity_def cap_root_def cap_hugepages_def cap_sputrace_def stat_ok_def
    run_modprobe_def of_truth_def
  consider "n = ''always''" | "n = ''never''" | "n = ''root''" | "n = ''affinity''" | "n = ''hugepages''"
    | "n = ''sputrace''" | "n \<noteq> ''always''" "n \<noteq> ''never''" "n \<noteq> ''root''" "n \<noteq> ''affinity''"
        "n \<noteq> ''hugepages''" "n \<noteq> ''sputrace''"
    by metis
  then show ?thesis
  proof cases
    case 5
    then show ?thesis by (cases "nr_hugepages h") (simp_all add: defs split: option.split)
  next
    case 6
    then show ?thesis
      by (cases "uid h = 0"; cases "''/proc/sputrace'' \<in> set (paths h)") (simp_all add: defs truth_def Let_def)
  next
    case 7
    then show ?thesis by (simp add: defs)
  qed (simp_all add: defs)
qed

end
