(* ===== verification/Test.thy ===== *)
theory Test
  imports Capabilities
begin

text \<open>
  \<open>bin/test.c\<close>: the test record, the reporting of its result, the parser of \<open>tests.conf\<close> and
  the decision whether the test is run.

  Memory of \<open>talloc\<close> is taken to be available; blocks owned by the test are values in the
  record.  The buffer \<open>buf\<close> of \<open>test_read_config\<close> is explicit: a required capability is kept,
  as in the code, as a pointer into it, here an offset.  What is printed is a list of
  records, one per output of the code.
\<close>

section \<open>Data\<close>

datatype test_type = TEST_TYPE_TEST | TEST_TYPE_BENCHMARK

datatype test_result = TEST_NOTRUN | TEST_PASSED | TEST_FAILED | TEST_SKIPPED

record required_cap =
  cap :: nat
  invert :: bool

record test =
  t_type :: test_type
  path :: string
  expected_rc :: int
  expected_sig :: int
  timeout :: int
  disabled :: bool
  ignored :: bool
  caps_required :: "required_cap list"
  stdout_fd :: int
  pid :: int
  out_buf :: "char list option"
  out_len :: nat
  bufsize :: nat
  outcome :: test_result

datatype printed =
    Header string
  | PASS
  | Result string
  | FAIL string
  | Output string
  | SKIPPED string
  | Unknown_parameter string
  | Dmesg_check_failed
  | Summary nat nat nat nat
  | Usage
  | No_tests_found
  | Running_benchmarks
  | Capability string bool

definition DEFAULT_TEST_TIMEOUT :: int where "DEFAULT_TEST_TIMEOUT = 10"
definition DEFAULT_BENCHMARK_TIMEOUT :: int where "DEFAULT_BENCHMARK_TIMEOUT = 60"

definition test_create :: "string \<Rightarrow> test_type \<Rightarrow> test" where
  "test_create p t = \<lparr>t_type = t, path = p, expected_rc = 0, expected_sig = 0,
     timeout = (if t = TEST_TYPE_BENCHMARK then DEFAULT_BENCHMARK_TIMEOUT else DEFAULT_TEST_TIMEOUT),
     disabled = False, ignored = False, caps_required = [], stdout_fd = -1, pid = 0,
     out_buf = None, out_len = 0, bufsize = 0, outcome = TEST_NOTRUN\<rparr>"

definition test_add_required_cap :: "test \<Rightarrow> nat \<Rightarrow> bool \<Rightarrow> test" where
  "test_add_required_cap t c i = t\<lparr>caps_required := caps_required t @ [\<lparr>cap = c, invert = i\<rparr>]\<rparr>"

section \<open>Reporting\<close>

definition test_header :: "test \<Rightarrow> printed list" where
  "test_header t = [Header (path t)]"

text \<open>
  The time a benchmark printed: \<open>talloc_strndup(test, buf, len + 1)\<close>, then white space is
  skipped at the front, a zero byte is put \<open>len\<close> bytes behind the new start, and white
  space is cut off at the back.
\<close>

fun strnlen_buf :: "char list \<Rightarrow> nat \<Rightarrow> nat res" where
  "strnlen_buf buf 0 = Inr 0"
| "strnlen_buf [] (Suc n) = Inl Bad_access"
| "strnlen_buf (c # cs) (Suc n) =
     (if c = NULc then Inr 0 else bnd (strnlen_buf cs n) (\<lambda>k. Inr (k + 1)))"

text \<open>The second loop, from index \<open>i\<close> of the block downwards; \<open>-1\<close> is before the block.\<close>

fun cut_back :: "nat \<Rightarrow> char list \<Rightarrow> int \<Rightarrow> char list res" where
  "cut_back 0 b i = Inl No_fuel"
| "cut_back (Suc n) b i =
     (if i < 0 then Inl Bad_access else
      bnd (char_at b (nat i)) (\<lambda>c.
      if isspace c then bnd (poke b (nat i) NULc) (\<lambda>b. cut_back n b (i - 1)) else Inr b))"

definition result_time :: "char list option \<Rightarrow> nat \<Rightarrow> string res" where
  "result_time buf len =
     bnd (case buf of
            None \<Rightarrow> Inl Bad_access \<comment> \<open>\<open>talloc_strndup\<close> returned null\<close>
          | Some buf \<Rightarrow> bnd (strnlen_buf buf (len + 1)) (\<lambda>k. Inr (take k buf @ [NULc]))) (\<lambda>b.
     bnd (skip_space b 0) (\<lambda>w.
     bnd (poke b (w + len) NULc) (\<lambda>b.
     bnd (cut_back (w + len + 1) b (int w + int len - 1)) (\<lambda>b.
     cstr_at b w))))"

definition test_pass :: "test \<Rightarrow> (test \<times> printed list) res" where
  "test_pass t =
     (let t = t\<lparr>outcome := TEST_PASSED\<rparr> in
      if t_type t = TEST_TYPE_TEST then Inr (t, [PASS])
      else bnd (result_time (out_buf t) (out_len t)) (\<lambda>s. Inr (t, [Result s])))"

text \<open>\<open>msg\<close> is the formatted message.\<close>

definition test_fail :: "test \<Rightarrow> string \<Rightarrow> (test \<times> printed list) res" where
  "test_fail t msg =
     (let t = t\<lparr>outcome := TEST_FAILED\<rparr> in
      if out_len t > 0 then
        (case out_buf t of
           None \<Rightarrow> Inl Bad_access
         | Some b \<Rightarrow> if out_len t \<le> length b then Inr (t, [FAIL msg, Output (take (out_len t) b)])
                    else Inl Bad_access)
      else Inr (t, [FAIL msg]))"

definition test_skip :: "test \<Rightarrow> string \<Rightarrow> test \<times> printed list" where
  "test_skip t msg = (t\<lparr>outcome := TEST_SKIPPED\<rparr>, [SKIPPED msg])"

section \<open>The configuration file\<close>

text \<open>The value behind \<open>param=\<close>, when the token starts with it.\<close>

definition is_param_str :: "string \<Rightarrow> string \<Rightarrow> string option" where
  "is_param_str str param =
     (if \<not> prefix param str then None
      else case drop (length param) str of
             [] \<Rightarrow> None
           | c # val \<Rightarrow> if c \<noteq> CHR ''='' then None else Some val)"

definition handle_testconf_token :: "test \<Rightarrow> char list \<Rightarrow> nat \<Rightarrow> (test \<times> printed list) res" where
  "handle_testconf_token t buf tok =
     bnd (cstr_at buf tok) (\<lambda>s.
     if s = ''disabled'' then Inr (t\<lparr>disabled := True\<rparr>, [])
     else if s = ''ignored'' then Inr (t\<lparr>ignored := True\<rparr>, [])
     else case is_param_str s ''timeout'' of
       Some val \<Rightarrow> bnd (atoi val) (\<lambda>v. Inr (t\<lparr>timeout := v\<rparr>, []))
     | None \<Rightarrow> (case is_param_str s ''expected_rc'' of
       Some val \<Rightarrow> bnd (atoi val) (\<lambda>v. Inr (t\<lparr>expected_rc := v\<rparr>, []))
     | None \<Rightarrow> (case is_param_str s ''signal'' of
       Some val \<Rightarrow> bnd (atoi val) (\<lambda>v. Inr (t\<lparr>expected_sig := v\<rparr>, []))
     | None \<Rightarrow>
       if prefix ''cap_'' s then Inr (test_add_required_cap t (tok + 4) False, [])
       else if prefix ''!cap_'' s then Inr (test_add_required_cap t (tok + 5) True, [])
       else Inr (t, [Unknown_parameter s]))))"

fun conf_tokens :: "nat \<Rightarrow> test \<Rightarrow> char list \<Rightarrow> nat \<Rightarrow> printed list \<Rightarrow> (test \<times> char list \<times> printed list) res" where
  "conf_tokens 0 t buf i out = Inl No_fuel"
| "conf_tokens (Suc n) t buf i out =
     bnd (strtok [CHR '' '', CHR 0x09] buf i) (\<lambda>(tok, i, buf).
     case tok of
       None \<Rightarrow> Inr (t, buf, out)
     | Some tok \<Rightarrow>
         bnd (handle_testconf_token t buf tok) (\<lambda>(t, o1).
         conf_tokens n t buf i (out @ o1)))"

fun conf_lines ::
    "nat \<Rightarrow> string \<Rightarrow> test \<Rightarrow> char list \<Rightarrow> nat option \<Rightarrow> printed list \<Rightarrow> (test \<times> char list \<times> printed list) res" where
  "conf_lines 0 pat t buf c out = Inl No_fuel"
| "conf_lines (Suc n) pat t buf c out =
     (case c of None \<Rightarrow> Inr (t, buf, out) | Some c \<Rightarrow>
      bnd (char_at buf c) (\<lambda>ch.
      if ch = NULc then Inr (t, buf, out) else
      bnd (skip_space (drop c buf) c) (\<lambda>c.
      bnd (strchr buf c CHR 0x0A) (\<lambda>newline.
      bnd (char_at buf c) (\<lambda>ch.
      bnd (if ch = CHR ''#'' then Inr None else
           bnd (strncmp_prefix buf c pat) (\<lambda>m.
           if m then Inr (Some (c + length pat)) else
           bnd (strncmp_prefix buf c ''*:'') (\<lambda>m.
           Inr (if m then Some (c + 2) else None)))) (\<lambda>match.
      bnd (case match of
             None \<Rightarrow> Inr (t, buf, out)
           | Some c \<Rightarrow>
               bnd (case newline of None \<Rightarrow> Inr buf | Some i \<Rightarrow> poke buf i NULc) (\<lambda>buf.
               conf_tokens (length buf + 1) t buf c out)) (\<lambda>(t, buf, out).
      conf_lines n pat t buf (map_option Suc newline) out)))))))"

text \<open>
  \<open>open\<close> and \<open>read\<close> of the file: \<open>None\<close> when it cannot be opened, \<open>Some None\<close> when it cannot be
  read.  \<open>frame\<close> is what the buffer holds beforehand.
\<close>

definition CONF_BUF :: nat where "CONF_BUF = 4096"

definition read_into :: "char list \<Rightarrow> string option \<Rightarrow> char list" where
  "read_into frame content = (case content of
       None \<Rightarrow> frame
     | Some s \<Rightarrow> take CONF_BUF s @ drop (length (take CONF_BUF s)) frame)"

definition split_path :: "string \<Rightarrow> (string \<times> string) option" where
  \<comment> \<open>\<open>strrchr(dir, '/')\<close>: what is before and behind the last slash\<close>
  "split_path p =
     (if CHR ''/'' \<in> set p
      then Some (rev (tl (dropWhile (\<lambda>c. c \<noteq> CHR ''/'') (rev p))), rev (takeWhile (\<lambda>c. c \<noteq> CHR ''/'') (rev p)))
      else None)"

definition test_read_config ::
    "(string \<Rightarrow> string option option) \<Rightarrow> char list \<Rightarrow> test \<Rightarrow> (test \<times> char list \<times> printed list) res" where
  "test_read_config files frame t = (case split_path (path t) of
       None \<Rightarrow> Inr (t, frame, [])
     | Some (dir, file) \<Rightarrow>
         (case files (dir @ ''/tests.conf'') of
            None \<Rightarrow> Inr (t, frame, [])
          | Some content \<Rightarrow>
              let buf = read_into frame content in
              conf_lines (CONF_BUF + 1) (file @ '':'') t buf (Some 0) []))"

section \<open>The decision\<close>

text \<open>
  \<open>frame\<close> is the memory that was \<open>buf\<close> in \<open>test_read_config\<close>, as it is when the pointers into
  it are followed.
\<close>

fun check_caps ::
    "('s \<Rightarrow> string \<Rightarrow> (int \<times> 's) res) \<Rightarrow> char list \<Rightarrow> 's \<Rightarrow> required_cap list \<Rightarrow> ((bool \<times> string) option \<times> 's) res" where
  "check_caps av frame s [] = Inr (None, s)"
| "check_caps av frame s (rc # rcs) =
     bnd (cstr_at frame (cap rc)) (\<lambda>name.
     bnd (av s name) (\<lambda>(v, s).
     if truth v = invert rc then Inr (Some (invert rc, name), s)
     else check_caps av frame s rcs))"

definition test_should_run ::
    "('s \<Rightarrow> string \<Rightarrow> (int \<times> 's) res) \<Rightarrow> char list \<Rightarrow> 's \<Rightarrow> test \<Rightarrow> (int \<times> 's \<times> test \<times> printed list) res" where
  "test_should_run av frame s t =
     (if disabled t then
        (let (t, o1) = test_skip t ''disabled'' in Inr (0, s, t, o1))
      else
        bnd (check_caps av frame s (caps_required t)) (\<lambda>(miss, s).
        case miss of
          Some (neg, name) \<Rightarrow>
            (let (t, o1) = test_skip t (''requires '' @ (if neg then ''!'' else '''') @ name)
             in Inr (0, s, t\<lparr>outcome := TEST_SKIPPED\<rparr>, o1))
        | None \<Rightarrow> Inr (1, s, t, [])))"

end
