(* ===== verification/Find_Tests.thy ===== *)
theory Find_Tests
  imports Test "HOL-Library.Multiset"
begin

unbundle bit_operations_syntax

text \<open>
  \<open>find_tests\<close> of \<open>bin/run-tests.c\<close>: the search of a directory tree for test programs.

  The file system is a parameter: what \<open>opendir\<close> and \<open>readdir\<close> give for a path, and the
  mode that \<open>stat\<close> gives.  It does not change during the search.  \<open>qsort\<close> is the sort of
  the library by the same key.
\<close>

section \<open>Files\<close>

record filesys =
  listing :: "string \<Rightarrow> string list option"
  mode_of :: "string \<Rightarrow> 32 word option"

text \<open>Character \<open>k\<close> of a string, up to its terminator.\<close>

definition at_str :: "string \<Rightarrow> nat \<Rightarrow> char" where
  "at_str s k = (if k < length s then s ! k else NULc)"

definition is_test :: "string \<Rightarrow> 32 word \<Rightarrow> bool" where
  "is_test fname m \<longleftrightarrow> S_ISREG m \<and> m AND S_IXUSR \<noteq> 0 \<and> isdigit (at_str fname 0) \<and> isdigit (at_str fname 1)"

definition qsort_testcmp :: "test \<Rightarrow> test \<Rightarrow> int" where
  "qsort_testcmp a b = (if path a < path b then - 1 else if path a = path b then 0 else 1)"

definition sort_tests :: "test list \<Rightarrow> test list" where
  "sort_tests ts = sort_key path ts"

section \<open>The search\<close>

text \<open>The loop over the entries of one directory: new directories, new tests.\<close>

fun read_entries ::
    "filesys \<Rightarrow> test_type \<Rightarrow> string \<Rightarrow> string list \<Rightarrow> string list \<Rightarrow> test list \<Rightarrow> string list \<times> test list" where
  "read_entries fs ty d [] dirs tests = (dirs, tests)"
| "read_entries fs ty d (e # es) dirs tests =
     (if at_str e 0 = CHR ''.'' then read_entries fs ty d es dirs tests
      else let p = d @ CHR ''/'' # e in
        case mode_of fs p of
          None \<Rightarrow> read_entries fs ty d es dirs tests
        | Some m \<Rightarrow>
            if S_ISDIR m then read_entries fs ty d es (dirs @ [p]) tests
            else if is_test e m then read_entries fs ty d es dirs (tests @ [test_create p ty])
            else read_entries fs ty d es dirs tests)"

text \<open>The loop over the list of directories, which grows; \<open>None\<close> is the null pointer.\<close>

fun search_dirs ::
    "nat \<Rightarrow> filesys \<Rightarrow> test_type \<Rightarrow> nat \<Rightarrow> string list \<Rightarrow> test list \<Rightarrow> test list option res" where
  "search_dirs 0 fs ty d dirs tests = Inl No_fuel"
| "search_dirs (Suc n) fs ty d dirs tests =
     (if d < length dirs then
        (case listing fs (dirs ! d) of
           None \<Rightarrow> Inr None
         | Some es \<Rightarrow>
             (case read_entries fs ty (dirs ! d) es dirs tests of
                (dirs, tests) \<Rightarrow> search_dirs n fs ty (d + 1) dirs tests))
      else Inr (Some tests))"

definition find_tests :: "nat \<Rightarrow> filesys \<Rightarrow> string \<Rightarrow> test_type \<Rightarrow> test list option res" where
  "find_tests n fs testpath ty =
     bnd (search_dirs n fs ty 0 [testpath] []) (\<lambda>r. Inr (map_option sort_tests r))"

lemma sort_tests_cmp: "sorted_wrt (\<lambda>a b. qsort_testcmp a b \<le> 0) (sort_tests ts)"
proof -
  have "sorted_wrt (\<lambda>a b. path a \<le> path b) (sort_tests ts)"
    unfolding sort_tests_def by (rule sorted_sort_key [unfolded sorted_map])
  then show ?thesis by (rule sorted_wrt_mono_rel [rotated]) (auto simp: qsort_testcmp_def)
qed

section \<open>What it should find\<close>

text \<open>
  The directories at and below a path, the test files in them; entries whose name starts
  with a dot are left out.
\<close>

inductive below :: "filesys \<Rightarrow> string \<Rightarrow> string \<Rightarrow> bool" for fs root where
  here: "below fs root root"
| sub: "below fs root d \<Longrightarrow> listing fs d = Some es \<Longrightarrow> e \<in> set es \<Longrightarrow> at_str e 0 \<noteq> CHR ''.'' \<Longrightarrow>
    mode_of fs (d @ CHR ''/'' # e) = Some m \<Longrightarrow> S_ISDIR m \<Longrightarrow> below fs root (d @ CHR ''/'' # e)"

definition test_file :: "filesys \<Rightarrow> string \<Rightarrow> string \<Rightarrow> bool" where
  "test_file fs root p \<longleftrightarrow>
     (\<exists>d es e m. below fs root d \<and> listing fs d = Some es \<and> e \<in> set es \<and> at_str e 0 \<noteq> CHR ''.'' \<and>
        p = d @ CHR ''/'' # e \<and> mode_of fs p = Some m \<and> is_test e m)"

text \<open>A listing as \<open>readdir\<close> gives it: no name twice, no name with a slash.\<close>

definition proper_listing :: "string list \<Rightarrow> bool" where
  "proper_listing es \<longleftrightarrow> distinct es \<and> (\<forall>e\<in>set es. CHR ''/'' \<notin> set e)"

section \<open>One directory\<close>

definition wanted :: "string \<Rightarrow> bool" where
  "wanted e \<longleftrightarrow> at_str e 0 \<noteq> CHR ''.''"

definition is_dir_entry :: "filesys \<Rightarrow> string \<Rightarrow> string \<Rightarrow> bool" where
  "is_dir_entry fs d e \<longleftrightarrow> wanted e \<and> (case mode_of fs (d @ CHR ''/'' # e) of None \<Rightarrow> False | Some m \<Rightarrow> S_ISDIR m)"

definition is_test_entry :: "filesys \<Rightarrow> string \<Rightarrow> string \<Rightarrow> bool" where
  "is_test_entry fs d e \<longleftrightarrow> wanted e \<and> (case mode_of fs (d @ CHR ''/'' # e) of None \<Rightarrow> False | Some m \<Rightarrow> is_test e m)"

definition subdirs :: "filesys \<Rightarrow> string \<Rightarrow> string list" where
  "subdirs fs d = (case listing fs d of None \<Rightarrow> [] | Some es \<Rightarrow> map (\<lambda>e. d @ CHR ''/'' # e) (filter (is_dir_entry fs d) es))"

definition test_paths :: "filesys \<Rightarrow> string \<Rightarrow> string list" where
  "test_paths fs d = (case listing fs d of None \<Rightarrow> [] | Some es \<Rightarrow> map (\<lambda>e. d @ CHR ''/'' # e) (filter (is_test_entry fs d) es))"

text \<open>A directory is not a regular file.\<close>

lemma dir_not_test: "S_ISDIR m \<Longrightarrow> \<not> is_test e m"
  by (simp add: S_ISDIR_def is_test_def S_ISREG_def S_IFREG_def S_IFDIR_def)

lemma read_entries_eq:
  "read_entries fs ty d es dirs tests =
    (dirs @ map (\<lambda>e. d @ CHR ''/'' # e) (filter (is_dir_entry fs d) es),
     tests @ map (\<lambda>p. test_create p ty) (map (\<lambda>e. d @ CHR ''/'' # e) (filter (is_test_entry fs d) es)))"
  by (induction es arbitrary: dirs tests)
    (auto simp: is_dir_entry_def is_test_entry_def wanted_def Let_def dir_not_test split: option.split)

lemma read_entries_listing:
  "listing fs d = Some es \<Longrightarrow> read_entries fs ty d es dirs tests =
    (dirs @ subdirs fs d, tests @ map (\<lambda>p. test_create p ty) (test_paths fs d))"
  by (simp add: read_entries_eq subdirs_def test_paths_def)

section \<open>The whole tree\<close>

lemma subdirs_below: "below fs root d \<Longrightarrow> p \<in> set (subdirs fs d) \<Longrightarrow> below fs root p"
proof -
  assume d: "below fs root d" and "p \<in> set (subdirs fs d)"
  then obtain es e m where "listing fs d = Some es" "e \<in> set es" "at_str e 0 \<noteq> CHR ''.''"
      "mode_of fs (d @ CHR ''/'' # e) = Some m" "S_ISDIR m" "p = d @ CHR ''/'' # e"
    by (cases "listing fs d") (auto simp: subdirs_def is_dir_entry_def wanted_def split: option.splits)
  then show ?thesis using below.sub [OF d] by simp
qed

lemma below_subdirs:
  "below fs root p \<Longrightarrow> root \<in> S \<Longrightarrow> (\<And>d. d \<in> S \<Longrightarrow> set (subdirs fs d) \<subseteq> S) \<Longrightarrow> p \<in> S"
proof (induction rule: below.induct)
  case (sub d es e m)
  have "d @ CHR ''/'' # e \<in> set (subdirs fs d)"
    using sub.hyps by (auto simp: subdirs_def is_dir_entry_def wanted_def)
  then show ?case using sub.IH [OF sub.prems] sub.prems(2) by blast
qed simp

lemma below_length: "below fs root p \<Longrightarrow> length root \<le> length p"
  by (induction rule: below.induct) simp_all

text \<open>A path with a slash-free last component determines its directory.\<close>

lemma join_inj:
  assumes "d @ CHR ''/'' # e = d' @ CHR ''/'' # e'" and "CHR ''/'' \<notin> set e" and "CHR ''/'' \<notin> set e'"
  shows "d = d' \<and> e = e'"
proof -
  have "rev e @ CHR ''/'' # rev d = rev e' @ CHR ''/'' # rev d'"
    using arg_cong [OF assms(1), of rev] by simp
  moreover have "takeWhile (\<lambda>c. c \<noteq> CHR ''/'') (rev u @ CHR ''/'' # v) = rev u" if "CHR ''/'' \<notin> set u" for u v
    using that by (subst takeWhile_append2) auto
  ultimately have "rev e = rev e'" using assms(2,3) by metis
  then show ?thesis using assms(1) by simp
qed

definition proper_tree :: "filesys \<Rightarrow> string \<Rightarrow> bool" where
  "proper_tree fs root \<longleftrightarrow> (\<forall>d es. below fs root d \<longrightarrow> listing fs d = Some es \<longrightarrow> proper_listing es)"

lemma proper_subdirs:
  assumes "proper_tree fs root" and "below fs root d"
  shows "distinct (subdirs fs d)" and "distinct (test_paths fs d)" and "root \<notin> set (subdirs fs d)"
proof -
  have inj: "inj_on (\<lambda>e. d @ CHR ''/'' # e) A" for A by (rule inj_onI) simp
  show "distinct (subdirs fs d)" "distinct (test_paths fs d)"
    using assms by (auto simp: proper_tree_def proper_listing_def subdirs_def test_paths_def distinct_map
        intro: inj split: option.split)
  show "root \<notin> set (subdirs fs d)"
    using below_length [OF assms(2)] by (auto simp: subdirs_def split: option.splits)
qed

lemma entries_disjoint:
  assumes "proper_tree fs root" and "below fs root d" and "below fs root d'" and "d \<noteq> d'"
  shows "set (subdirs fs d) \<inter> set (subdirs fs d') = {}" and "set (test_paths fs d) \<inter> set (test_paths fs d') = {}"
proof -
  have J: False if "d @ CHR ''/'' # e = d' @ CHR ''/'' # e'" "listing fs d = Some es" "listing fs d' = Some es'"
      "e \<in> set es" "e' \<in> set es'" for e e' es es'
    using join_inj [OF that(1)] assms that by (auto simp: proper_tree_def proper_listing_def)
  show "set (subdirs fs d) \<inter> set (subdirs fs d') = {}"
    unfolding subdirs_def by (auto split: option.split dest!: J)
  show "set (test_paths fs d) \<inter> set (test_paths fs d') = {}"
    unfolding test_paths_def by (auto split: option.split dest!: J)
qed

text \<open>What the loop has done when it comes to index \<open>d\<close>.\<close>

definition progress :: "filesys \<Rightarrow> string \<Rightarrow> nat \<Rightarrow> string list \<Rightarrow> bool" where
  "progress fs root d dirs \<longleftrightarrow>
     d \<le> length dirs \<and> dirs = root # concat (map (subdirs fs) (take d dirs)) \<and> distinct dirs \<and>
     (\<forall>p\<in>set dirs. below fs root p) \<and> (\<forall>p\<in>set (take d dirs). listing fs p \<noteq> None)"

lemma progress_start: "progress fs root 0 [root]"
  by (simp add: progress_def below.here)

lemma progress_step:
  assumes "proper_tree fs root" and P: "progress fs root d dirs" and d: "d < length dirs"
    and l: "listing fs (dirs ! d) \<noteq> None"
  shows "progress fs root (d + 1) (dirs @ subdirs fs (dirs ! d))"
proof -
  let ?p = "dirs ! d"
  have tk: "take (d + 1) (dirs @ subdirs fs ?p) = take d dirs @ [?p]"
    using d by (simp add: take_Suc_conv_app_nth)
  have dirs: "dirs = root # concat (map (subdirs fs) (take d dirs))" and dist: "distinct dirs"
    and bel: "\<And>p. p \<in> set dirs \<Longrightarrow> below fs root p" and ls: "\<forall>p\<in>set (take d dirs). listing fs p \<noteq> None"
    using P by (auto simp: progress_def)
  have p: "below fs root ?p" using bel d by simp
  have "set dirs \<inter> set (subdirs fs ?p) = {}"
  proof -
    have "q \<noteq> ?p \<and> below fs root q" if "q \<in> set (take d dirs)" for q
    proof -
      obtain i where "i < length (take d dirs)" "take d dirs ! i = q" using \<open>q \<in> set (take d dirs)\<close> by (metis in_set_conv_nth)
      then have "i < d" "q = dirs ! i" by auto
      then show ?thesis using d dist bel [of q] by (auto simp: nth_eq_iff_index_eq)
    qed
    then have "set (subdirs fs q) \<inter> set (subdirs fs ?p) = {}" if "q \<in> set (take d dirs)" for q
      using entries_disjoint(1) [OF assms(1) _ p] that by blast
    then have "set (concat (map (subdirs fs) (take d dirs))) \<inter> set (subdirs fs ?p) = {}" by auto
    moreover have "set dirs = insert root (set (concat (map (subdirs fs) (take d dirs))))"
      by (subst dirs) simp
    ultimately show ?thesis using proper_subdirs(3) [OF assms(1) p] by auto
  qed
  moreover have "dirs @ subdirs fs ?p = root # concat (map (subdirs fs) (take d dirs @ [?p]))"
    using dirs by simp
  ultimately show ?thesis
    unfolding progress_def tk using dist proper_subdirs(1) [OF assms(1) p] bel p ls l d
    by (auto dest: subdirs_below [OF p])
qed

lemma progress_end:
  assumes "progress fs root d dirs" and "length dirs \<le> d"
  shows "set dirs = {p. below fs root p}"
proof -
  have t: "take d dirs = dirs" using assms(2) by simp
  have e: "dirs = root # concat (map (subdirs fs) dirs)" using assms(1) unfolding progress_def t by blast
  have S: "set dirs = insert root (\<Union>d\<in>set dirs. set (subdirs fs d))"
    using arg_cong [OF e, of set] by simp
  have "p \<in> set dirs" if "below fs root p" for p
    by (rule below_subdirs [OF that]) (use S in blast)+
  then show ?thesis using assms(1) by (auto simp: progress_def)
qed

definition tests_in :: "filesys \<Rightarrow> test_type \<Rightarrow> string list \<Rightarrow> test list" where
  "tests_in fs ty ds = map (\<lambda>p. test_create p ty) (concat (map (test_paths fs) ds))"

lemma search_dirs_result:
  assumes T: "proper_tree fs root" "finite {d. below fs root d}"
  shows "progress fs root d dirs \<Longrightarrow> card {d. below fs root d} < n + d \<Longrightarrow>
    (\<exists>ds. set ds = {p. below fs root p} \<and> distinct ds \<and> (\<forall>p\<in>set ds. listing fs p \<noteq> None) \<and>
       search_dirs n fs ty d dirs (tests_in fs ty (take d dirs)) = Inr (Some (tests_in fs ty ds))) \<or>
    (\<exists>p. below fs root p \<and> listing fs p = None) \<and>
       search_dirs n fs ty d dirs (tests_in fs ty (take d dirs)) = Inr None"
proof (induction n arbitrary: d dirs)
  case 0
  have "length dirs \<le> card {d. below fs root d}"
    using 0(1) T(2) by (metis (mono_tags, lifting) card_mono distinct_card mem_Collect_eq progress_def subsetI)
  then show ?case using 0 by (auto simp: progress_def)
next
  case (Suc n)
  show ?case
  proof (cases "d < length dirs")
    case False
    then have "set dirs = {p. below fs root p}" using progress_end [OF Suc.prems(1)] by simp
    then show ?thesis using False Suc.prems(1) by (auto simp: progress_def)
  next
    case True
    show ?thesis
    proof (cases "listing fs (dirs ! d)")
      case None
      then show ?thesis using True Suc.prems(1) by (auto simp: progress_def)
    next
      case (Some es)
      have P: "progress fs root (d + 1) (dirs @ subdirs fs (dirs ! d))"
        using progress_step [OF T(1) Suc.prems(1) True] Some by simp
      have "tests_in fs ty (take d dirs) @ map (\<lambda>p. test_create p ty) (test_paths fs (dirs ! d)) =
          tests_in fs ty (take (d + 1) (dirs @ subdirs fs (dirs ! d)))"
        using True by (simp add: tests_in_def take_Suc_conv_app_nth)
      then have "search_dirs (Suc n) fs ty d dirs (tests_in fs ty (take d dirs)) =
          search_dirs n fs ty (d + 1) (dirs @ subdirs fs (dirs ! d))
            (tests_in fs ty (take (d + 1) (dirs @ subdirs fs (dirs ! d))))"
        using True Some by (simp add: read_entries_listing)
      then show ?thesis using Suc.IH [OF P] Suc.prems(2) by simp
    qed
  qed
qed

lemma tests_in_paths: "map path (tests_in fs ty ds) = concat (map (test_paths fs) ds)"
  by (simp add: tests_in_def comp_def test_create_def)

lemma tests_in_created: "t \<in> set (tests_in fs ty ds) \<Longrightarrow> t = test_create (path t) ty"
  by (auto simp: tests_in_def test_create_def)

lemma distinct_tests_in:
  assumes "proper_tree fs root" and "distinct ds" and "\<forall>d\<in>set ds. below fs root d"
  shows "distinct (concat (map (test_paths fs) ds))"
  using assms(2,3)
proof (induction ds)
  case (Cons d ds)
  have "below fs root d" "\<forall>q\<in>set ds. below fs root q \<and> q \<noteq> d" using Cons.prems by auto
  then have "\<forall>q\<in>set ds. set (test_paths fs d) \<inter> set (test_paths fs q) = {}"
    using entries_disjoint(2) [OF assms(1)] by metis
  then show ?case
    using Cons.IH Cons.prems proper_subdirs(2) [OF assms(1), of d] by auto
qed simp

lemma test_paths_files:
  "(p \<in> set (test_paths fs d)) \<longleftrightarrow>
   (\<exists>es e m. listing fs d = Some es \<and> e \<in> set es \<and> at_str e 0 \<noteq> CHR ''.'' \<and> p = d @ CHR ''/'' # e \<and>
      mode_of fs p = Some m \<and> is_test e m)"
  by (cases "listing fs d") (auto simp: test_paths_def is_test_entry_def wanted_def split: option.splits)

text \<open>
  C25.  \<open>find_tests\<close> on a finite tree terminates within one round for each directory and
  one more.  When every directory can be opened it returns the tests for exactly the test
  files of the tree, each once, with the default settings of their kind, in the order of
  their paths; when one directory, at any depth, cannot be opened, it returns null.
\<close>

theorem find_tests_finds:
  assumes T: "proper_tree fs root" and fin: "finite {d. below fs root d}" and n: "card {d. below fs root d} < n"
  shows "if \<forall>d. below fs root d \<longrightarrow> listing fs d \<noteq> None
    then \<exists>ts. find_tests n fs root ty = Inr (Some ts) \<and> sorted (map path ts) \<and> distinct (map path ts) \<and>
      set (map path ts) = {p. test_file fs root p} \<and> (\<forall>t\<in>set ts. t = test_create (path t) ty)
    else find_tests n fs root ty = Inr None"
proof -
  have start: "tests_in fs ty (take 0 [root]) = []" by (simp add: tests_in_def)
  note R = search_dirs_result [OF T fin progress_start, of n ty, unfolded start]
  show ?thesis
  proof (cases "\<forall>d. below fs root d \<longrightarrow> listing fs d \<noteq> None")
    case True
    then obtain ds where ds: "set ds = {p. below fs root p}" "distinct ds"
        "search_dirs n fs ty 0 [root] [] = Inr (Some (tests_in fs ty ds))"
      using R n by auto
    let ?ts = "sort_tests (tests_in fs ty ds)"
    have "find_tests n fs root ty = Inr (Some ?ts)" using ds(3) by (simp add: find_tests_def)
    moreover have "sorted (map path ?ts)" by (simp add: sort_tests_def)
    moreover have "mset (map path ?ts) = mset (concat (map (test_paths fs) ds))"
      by (simp only: sort_tests_def mset_map mset_sort tests_in_paths [of fs ty, symmetric])
    then have "distinct (map path ?ts)" "set (map path ?ts) = set (concat (map (test_paths fs) ds))"
      using distinct_tests_in [OF T ds(2)] ds(1) by (metis mem_Collect_eq mset_eq_imp_distinct_iff, metis mset_eq_setD)
    moreover have "set (concat (map (test_paths fs) ds)) = {p. test_file fs root p}"
      using ds(1) by (auto simp: test_paths_files test_file_def)
    moreover have "\<forall>t\<in>set ?ts. t = test_create (path t) ty"
      using tests_in_created by (auto simp: sort_tests_def)
    ultimately show ?thesis using True by auto
  next
    case False
    then have "search_dirs n fs ty 0 [root] [] = Inr None"
      using R n by fastforce
    then show ?thesis unfolding if_not_P [OF False] by (simp add: find_tests_def)
  qed
qed

text \<open>A tree of two directories.\<close>

definition small_tree :: filesys where
  "small_tree = \<lparr>
     listing = (\<lambda>p. if p = ''tests'' then Some [''..'', ''00-run'', ''99-all'', ''.'']
                    else if p = ''tests/00-run'' then Some [''02-b'', ''lib.o'', ''01-a''] else None),
     mode_of = (\<lambda>p. if p = ''tests/00-run'' then Some 0x41ED
                    else if p = ''tests/00-run/lib.o'' then Some 0x81A4 else Some 0x81ED)\<rparr>"

lemma small_modes: "S_ISDIR 0x41ED" "\<not> is_test e 0x41ED" "\<not> S_ISDIR 0x81ED" "\<not> S_ISDIR 0x81A4"
    "is_test e 0x81ED = (isdigit (at_str e 0) \<and> isdigit (at_str e 1))" "\<not> is_test e 0x81A4"
  by (simp_all add: S_ISDIR_def S_IFMT_def S_IFDIR_def is_test_def S_ISREG_def S_IFREG_def S_IXUSR_def)

lemma small_below: "below small_tree ''tests'' p \<Longrightarrow> p \<in> {''tests'', ''tests/00-run''}"
  by (erule below_subdirs)
    (auto simp: subdirs_def small_tree_def is_dir_entry_def wanted_def at_str_def small_modes)

theorem find_tests_finds_witness:
  "\<exists>ts. find_tests 3 small_tree ''tests'' TEST_TYPE_TEST = Inr (Some ts) \<and>
     map path ts = [''tests/00-run/01-a'', ''tests/00-run/02-b'', ''tests/99-all''] \<and>
     (\<forall>t\<in>set ts. timeout t = 10)"
proof -
  let ?B = "{d. below small_tree ''tests'' d}"
  have sub: "?B \<subseteq> {''tests'', ''tests/00-run''}" using small_below by blast
  then have fin: "finite ?B" using finite_subset by fastforce
  have "card ?B \<le> card {''tests'', ''tests/00-run''}" using sub by (intro card_mono) auto
  then have card: "card ?B < 3" by simp
  have "proper_tree small_tree ''tests''"
    using small_below by (fastforce simp: proper_tree_def proper_listing_def small_tree_def split: if_splits)
  from find_tests_finds [OF this fin card, of TEST_TYPE_TEST]
  have "\<forall>ts. find_tests 3 small_tree ''tests'' TEST_TYPE_TEST = Inr (Some ts) \<longrightarrow>
      (\<forall>t\<in>set ts. t = test_create (path t) TEST_TYPE_TEST)"
    by (auto split: if_splits)
  moreover obtain ts where ts: "find_tests 3 small_tree ''tests'' TEST_TYPE_TEST = Inr (Some ts)"
     "map path ts = [''tests/00-run/01-a'', ''tests/00-run/02-b'', ''tests/99-all'']"
    by (simp add: find_tests_def eval_nat_numeral read_entries_eq small_tree_def is_dir_entry_def
        is_test_entry_def wanted_def at_str_def small_modes isdigit_def sort_tests_def test_create_def)
  ultimately have c: "\<forall>t\<in>set ts. t = test_create (path t) TEST_TYPE_TEST" by blast
  have "timeout (test_create p TEST_TYPE_TEST) = 10" for p by (simp add: test_create_def DEFAULT_TEST_TIMEOUT_def)
  then have "\<forall>t\<in>set ts. timeout t = 10" using c by metis
  then show ?thesis using ts by (intro exI [of _ ts] conjI)
qed

end
