(* ===== verification/Run_Tests.thy ===== *)
theory Run_Tests
  imports Find_Tests
begin

unbundle bit_operations_syntax

text \<open>
  \<open>bin/run-tests.c\<close>: the output of a test, the check of the kernel log, the life of one test
  process, the sequence of tests, the summary and the main program.

  What the system calls answer is a parameter, one record per call or per round of a loop;
  what the program does in return (signals sent, waiting times asked for, text printed) is
  part of the result.
\<close>

section \<open>The output of a test\<close>

text \<open>What \<open>poll\<close> and \<open>read\<close> do in one call of \<open>read_test_output\<close>.\<close>

datatype poll_result =
    Poll_failed               \<comment> \<open>interrupted, or an error\<close>
  | Poll_timeout
  | Poll_err                  \<comment> \<open>\<open>POLLERR\<close>\<close>
  | Poll_ready "string option"  \<comment> \<open>readable; what \<open>read\<close> gives, \<open>None\<close> for an error\<close>

definition readsize :: nat where "readsize = 4096"

text \<open>\<open>talloc_realloc\<close> to \<open>n\<close> characters; new ones are not initialised, their values a parameter.\<close>

definition MAX_ALLOC :: nat where "MAX_ALLOC = 0x10000000"

definition grow :: "(nat \<Rightarrow> char) \<Rightarrow> char list option \<Rightarrow> nat \<Rightarrow> char list option" where
  "grow junk buf n =
     (if n \<ge> MAX_ALLOC then None
      else let b = (case buf of None \<Rightarrow> [] | Some b \<Rightarrow> b) in Some (take n b @ map junk [length b..<n]))"

definition read_test_output :: "(nat \<Rightarrow> char) \<Rightarrow> poll_result \<Rightarrow> test \<Rightarrow> (int \<times> test) res" where
  "read_test_output junk p t =
     (if \<not> stdout_fd t > 0 then Inr (0, t)
      else case p of
        Poll_failed \<Rightarrow> Inr (0, t)
      | Poll_timeout \<Rightarrow> Inr (0, t)
      | Poll_err \<Rightarrow> Inr (-1, t)
      | Poll_ready rd \<Rightarrow>
          let t = (if bufsize t < out_len t + readsize
                   then let n = max readsize (bufsize t * 2) in t\<lparr>out_buf := grow junk (out_buf t) n, bufsize := n\<rparr>
                   else t) in
          (case rd of
             None \<Rightarrow> Inr (-1, t)
           | Some s \<Rightarrow>
               let s = take readsize s in
               if s = [] then Inr (-1, t)
               else case out_buf t of
                 None \<Rightarrow> Inl Bad_access
               | Some b \<Rightarrow>
                   if out_len t + length s \<le> length b
                   then Inr (0, t\<lparr>out_buf := Some (take (out_len t) b @ s @ drop (out_len t + length s) b),
                                 out_len := out_len t + length s\<rparr>)
                   else Inl Bad_access))"

section \<open>The kernel log\<close>

text \<open>
  \<open>klogctl(10)\<close> gives the size of the log, \<open>klogctl(3)\<close> its text or an error.  The buffer and
  its size are static: they live as long as the program.
\<close>

record klog =
  log_size :: nat
  log_text :: "string option"

record dmesg =
  kbuf :: "char list option"
  kbufsize :: nat

definition dmesg_check :: "(nat \<Rightarrow> char) \<Rightarrow> klog \<Rightarrow> dmesg \<Rightarrow> (int \<times> dmesg) res" where
  "dmesg_check junk k d =
     (let d = (if log_size k \<noteq> kbufsize d
               then d\<lparr>kbufsize := log_size k, kbuf := grow junk (kbuf d) (log_size k)\<rparr> else d) in
      case log_text k of
        None \<Rightarrow> Inr (-1, d)
      | Some s \<Rightarrow>
          let s = take (kbufsize d) s in
          (case kbuf d of
             None \<Rightarrow> Inl Bad_access
           | Some b \<Rightarrow>
               let b = s @ drop (length s) b in
               bnd (strstr_found b ''Badness'') (\<lambda>found. Inr (of_truth found, d\<lparr>kbuf := Some b\<rparr>))))"

section \<open>One test\<close>

text \<open>\<open>siginfo\<close> after \<open>waitid(\<dots>, WEXITED | WNOHANG)\<close>.\<close>

datatype wait_result =
    Wait_failed
  | Running
  | CLD_EXITED int
  | CLD_KILLED int
  | CLD_DUMPED int

type_synonym timeval = "int \<times> int"

definition timer_gt :: "timeval \<Rightarrow> timeval \<Rightarrow> bool" where
  "timer_gt a b \<longleftrightarrow> (if fst a = fst b then snd a > snd b else fst a > fst b)"

definition SIGALRM :: int where "SIGALRM = 14"

text \<open>One round of the loop: the state of the child, the time, what \<open>poll\<close> gives.\<close>

record tick =
  waited :: wait_result
  now :: timeval
  polled :: poll_result

text \<open>What the loop asks of the system: signals to the child, waiting times in milliseconds.\<close>

datatype request = Kill int | Poll int

text \<open>The conversion of a \<open>time_t\<close> expression to \<open>int\<close>.\<close>

definition to_int32 :: "int \<Rightarrow> int" where
  "to_int32 v = sint (word_of_int v :: 32 word)"

text \<open>
  The verdict on a child that has ended.  It gives the value of \<open>rc\<close>, which \<open>waitid\<close> has set
  to 0, and which a dumped core leaves so.
\<close>

definition fail_with :: "test \<Rightarrow> string \<Rightarrow> dmesg \<Rightarrow> (int \<times> test \<times> dmesg \<times> printed list) res" where
  "fail_with t msg d = bnd (test_fail t msg) (\<lambda>(t, out). Inr (-1, t, d, out))"

definition pass_with :: "test \<Rightarrow> dmesg \<Rightarrow> (int \<times> test \<times> dmesg \<times> printed list) res" where
  "pass_with t d = bnd (test_pass t) (\<lambda>(t, out). Inr (0, t, d, out))"

fun show_nat :: "nat \<Rightarrow> string" where
  "show_nat n = (if n < 10 then [char_of (48 + n)] else show_nat (n div 10) @ [char_of (48 + n mod 10)])"

declare show_nat.simps [simp del]

definition show_int :: "int \<Rightarrow> string" where
  "show_int v = (if v < 0 then CHR ''-'' # show_nat (nat (- v)) else show_nat (nat v))"

definition verdict ::
    "(nat \<Rightarrow> char) \<Rightarrow> klog \<Rightarrow> dmesg \<Rightarrow> test \<Rightarrow> wait_result \<Rightarrow> (int \<times> test \<times> dmesg \<times> printed list) res" where
  "verdict junk k d t w = (case w of
       CLD_EXITED status \<Rightarrow>
         if status \<noteq> expected_rc t then
           fail_with t (''rc '' @ show_int status @ '', expected '' @ show_int (expected_rc t)) d
         else if expected_sig t \<noteq> 0 then fail_with t (''expected sig '' @ show_int (expected_sig t)) d
         else bnd (dmesg_check junk k d) (\<lambda>(bad, d).
              if truth bad then fail_with t ''dmesg'' d else pass_with t d)
     | CLD_KILLED status \<Rightarrow>
         if status = expected_sig t then pass_with t d
         else if status = SIGALRM then fail_with t ''timeout'' d
         else fail_with t (''killed, sig '' @ show_int status) d
     | _ \<Rightarrow> Inr (0, t, d, []))"

record outcome_state =
  o_test :: test
  o_dmesg :: dmesg
  o_printed :: "printed list"
  o_requests :: "request list"

text \<open>
  The loop.  When the list of rounds ends before the child does, the loop is still running
  and the result is \<open>No_fuel\<close>.
\<close>

fun wait_loop ::
    "(nat \<Rightarrow> char) \<Rightarrow> klog \<Rightarrow> bool \<Rightarrow> timeval \<Rightarrow> tick list \<Rightarrow> dmesg \<Rightarrow> test \<Rightarrow> request list \<Rightarrow>
     (int \<times> outcome_state) res" where
  "wait_loop junk k enable_timeout deadline [] d t rq = Inl No_fuel"
| "wait_loop junk k enable_timeout deadline (w # ws) d t rq =
     (case waited w of
        Wait_failed \<Rightarrow> Inr (-1, \<lparr>o_test = t, o_dmesg = d, o_printed = [], o_requests = rq\<rparr>)
      | Running \<Rightarrow>
          let rq = (if enable_timeout \<and> timer_gt (now w) deadline then rq @ [Kill SIGALRM] else rq);
              ms = to_int32 (1 + 1000 * (fst deadline - fst (now w))) in
          bnd (read_test_output junk (polled w) t) (\<lambda>(_, t).
          wait_loop junk k enable_timeout deadline ws d t (rq @ [Poll ms]))
      | e \<Rightarrow>
          bnd (verdict junk k d t e) (\<lambda>(rc, t, d, out).
          Inr (rc, \<lparr>o_test = t\<lparr>pid := 0\<rparr>, o_dmesg = d, o_printed = out, o_requests = rq\<rparr>)))"

section \<open>The child process\<close>

text \<open>
  What the child does between \<open>fork\<close> and its new program.  \<open>exec_ok\<close> tells which programs
  \<open>execl\<close> can start; \<open>path_env\<close> is \<open>getenv("PATH")\<close>.
\<close>

datatype child_result = Child_exit int | Child_exec string "string option"

record child_env =
  dup_stdout_ok :: bool
  dup_stderr_ok :: bool
  fchdir_ok :: bool
  path_env :: "string option"
  exec_ok :: "string \<Rightarrow> bool"

definition EXIT_SUCCESS :: int where "EXIT_SUCCESS = 0"
definition EXIT_FAILURE :: int where "EXIT_FAILURE = 1"

definition child_path :: "child_env \<Rightarrow> string \<Rightarrow> string option res" where
  "child_path e p = (case split_path p of
       None \<Rightarrow> Inr (path_env e)
     | Some (dir, f) \<Rightarrow>
         (case path_env e of
            None \<Rightarrow> Inl Bad_access
          | Some old \<Rightarrow> Inr (Some (''../'' @ dir @ '':'' @ old))))"

definition child_main :: "child_env \<Rightarrow> test \<Rightarrow> child_result res" where
  "child_main e t =
     (if \<not> dup_stdout_ok e then Inr (Child_exit EXIT_FAILURE)
      else if \<not> dup_stderr_ok e then Inr (Child_exit EXIT_FAILURE)
      else if \<not> fchdir_ok e then Inr (Child_exit EXIT_FAILURE)
      else bnd (child_path e (path t)) (\<lambda>newpath.
        let arg = ''../'' @ path t in
        Inr (if exec_ok e arg then Child_exec arg newpath else Child_exit EXIT_FAILURE)))"

section \<open>From the header to the result\<close>

text \<open>
  What one run of a test meets: the memory that becomes the buffer of \<open>test_read_config\<close>,
  what has become of it when \<open>test_should_run\<close> reads the names in it, and the answers of
  the system calls.
\<close>

record run_env =
  stack :: "char list"
  stale :: "char list \<Rightarrow> char list"
  pipe_fd :: "int option"
  fork_pid :: "int option"
  sigaction_ok :: bool
  started :: timeval
  ticks :: "tick list"
  end_log :: klog

record prog =
  cap_table :: cap_state
  log_buf :: dmesg

type_synonym run_result = "int \<times> test \<times> prog \<times> printed list \<times> request list"

definition run_test ::
    "(nat \<Rightarrow> char) \<Rightarrow> (string \<Rightarrow> string option option) \<Rightarrow> bool \<Rightarrow> run_env \<Rightarrow> prog \<Rightarrow> test \<Rightarrow> run_result res" where
  "run_test junk files enable_timeout e p t =
     (let o0 = test_header t in
      bnd (test_read_config files (stack e) t) (\<lambda>(t, buf, o1).
      bnd (test_should_run cap_available (stale e buf) (cap_table p) t) (\<lambda>(run, c, t, o2).
      let p = p\<lparr>cap_table := c\<rparr> in
      if run = 0 then Inr (0, t, p, o0 @ o1 @ o2, []) else
      case pipe_fd e of
        None \<Rightarrow> Inr (-1, t, p, o0 @ o1 @ o2, [])
      | Some fd \<Rightarrow>
          let t = t\<lparr>stdout_fd := fd\<rparr> in
          (case fork_pid e of
             None \<Rightarrow> Inr (-1, t\<lparr>pid := -1\<rparr>, p, o0 @ o1 @ o2, [])
           | Some child \<Rightarrow>
               let t = t\<lparr>pid := child\<rparr> in
               if \<not> sigaction_ok e then Inr (-1, t, p, o0 @ o1 @ o2, [])
               else
                 let deadline = (fst (started e) + timeout t, snd (started e)) in
                 bnd (wait_loop junk (end_log e) enable_timeout deadline (ticks e) (log_buf p) t []) (\<lambda>(rc, s).
                 Inr (rc, o_test s, p\<lparr>log_buf := o_dmesg s\<rparr>, o0 @ o1 @ o2 @ o_printed s, o_requests s))))))"

section \<open>All tests\<close>

record tm =
  tm_year :: nat   \<comment> \<open>the year itself\<close>
  tm_mon :: nat    \<comment> \<open>from 1\<close>
  tm_mday :: nat
  tm_hour :: nat
  tm_min :: nat
  tm_sec :: nat

definition two_digits :: "nat \<Rightarrow> string" where
  "two_digits n = (if n < 10 then CHR ''0'' # show_nat n else show_nat n)"

text \<open>The format is \<open>"run.%Y-%m-%d.%H:%m:%S"\<close>.\<close>

definition working_dir :: "tm \<Rightarrow> string" where
  "working_dir t = ''run.'' @ show_nat (tm_year t) @ ''-'' @ two_digits (tm_mon t) @ ''-'' @
     two_digits (tm_mday t) @ ''.'' @ two_digits (tm_hour t) @ '':'' @ two_digits (tm_mon t) @ '':'' @
     two_digits (tm_sec t)"

datatype mkdir_result = Mkdir_ok | Mkdir_exists | Mkdir_failed

record start_env =
  start_log :: klog
  local_time :: tm
  mkdir :: "string \<Rightarrow> mkdir_result"
  open_dir :: "string \<Rightarrow> bool"

text \<open>The loop over the tests; test number \<open>i\<close> meets \<open>envs i\<close>.\<close>

fun tests_loop ::
    "(nat \<Rightarrow> char) \<Rightarrow> (string \<Rightarrow> string option option) \<Rightarrow> bool \<Rightarrow> bool \<Rightarrow> (nat \<Rightarrow> run_env) \<Rightarrow> nat \<Rightarrow>
     int \<Rightarrow> prog \<Rightarrow> test list \<Rightarrow> (int \<times> test list \<times> prog \<times> printed list) res" where
  "tests_loop junk files cont enable_timeout envs i rc p [] = Inr (rc, [], p, [])"
| "tests_loop junk files cont enable_timeout envs i rc p (t # ts) =
     bnd (run_test junk files enable_timeout (envs i) p t) (\<lambda>(r, t, p, out, _).
     let rc = rc OR r in
     if rc \<noteq> 0 \<and> \<not> cont then Inr (-1, t # ts, p, out)
     else bnd (tests_loop junk files cont enable_timeout envs (i + 1) rc p ts) (\<lambda>(rc, ts, p, out2).
          Inr (rc, t # ts, p, out @ out2)))"

definition run_tests ::
    "(nat \<Rightarrow> char) \<Rightarrow> (string \<Rightarrow> string option option) \<Rightarrow> start_env \<Rightarrow> (nat \<Rightarrow> run_env) \<Rightarrow> bool \<Rightarrow> bool \<Rightarrow> prog \<Rightarrow>
     test list option \<Rightarrow> (int \<times> test list option \<times> prog \<times> printed list) res" where
  "run_tests junk files s envs cont enable_timeout p tests =
     bnd (dmesg_check junk (start_log s) (log_buf p)) (\<lambda>(bad, d).
     let p = p\<lparr>log_buf := d\<rparr> in
     if truth bad then Inr (-1, tests, p, [Dmesg_check_failed]) else
     let dir = working_dir (local_time s) in
     if mkdir s dir = Mkdir_failed then Inr (-1, tests, p, [])
     else if \<not> open_dir s dir then Inr (-1, tests, p, [])
     else case tests of
       None \<Rightarrow> Inl Bad_access
     | Some ts \<Rightarrow>
         bnd (tests_loop junk files cont enable_timeout envs 0 0 p ts) (\<lambda>(rc, ts, p, out).
         Inr (rc, Some ts, p, out)))"

fun summary_counts :: "test list \<Rightarrow> nat \<times> nat \<times> nat \<times> nat \<Rightarrow> nat \<times> nat \<times> nat \<times> nat" where
  "summary_counts [] c = c"
| "summary_counts (t # ts) (n_tests, n_pass, n_fail, n_skip) =
     (if outcome t = TEST_NOTRUN then summary_counts ts (n_tests, n_pass, n_fail, n_skip)
      else if ignored t then summary_counts ts (n_tests, n_pass, n_fail, n_skip)
      else if outcome t = TEST_PASSED then summary_counts ts (n_tests + 1, n_pass + 1, n_fail, n_skip)
      else if outcome t = TEST_FAILED then summary_counts ts (n_tests + 1, n_pass, n_fail + 1, n_skip)
      else if outcome t = TEST_SKIPPED then summary_counts ts (n_tests + 1, n_pass, n_fail, n_skip + 1)
      else summary_counts ts (n_tests + 1, n_pass, n_fail, n_skip))"

definition print_summary :: "test list \<Rightarrow> printed list" where
  "print_summary ts = (case summary_counts ts (0, 0, 0, 0) of (n, a, b, c) \<Rightarrow> [Summary n a b c])"

section \<open>The main program\<close>

text \<open>
  \<open>getopt_long\<close> is a library function: the list of the values it returns and the arguments
  that are left over are parameters.  An unknown option is \<open>'?'\<close>.
\<close>

datatype opts = Opts bool bool bool | Opt_capabilities | Opt_help | Opt_bad

definition usage :: "printed list" where
  "usage = [Usage]"

fun read_options :: "char list \<Rightarrow> bool \<Rightarrow> bool \<Rightarrow> bool \<Rightarrow> opts" where
  "read_options [] cont benchmark enable_timeout = Opts cont benchmark enable_timeout"
| "read_options (c # cs) cont benchmark enable_timeout =
     (if c = CHR ''c'' then read_options cs True benchmark enable_timeout
      else if c = CHR ''b'' then read_options cs cont True enable_timeout
      else if c = CHR ''t'' then read_options cs cont benchmark False
      else if c = CHR ''p'' then Opt_capabilities
      else if c = CHR ''h'' then Opt_help
      else Opt_bad)"

definition TEST_DIR :: string where "TEST_DIR = ''tests''"
definition BENCHMARK_DIR :: string where "BENCHMARK_DIR = ''benchmarks''"

record world =
  junk_of :: "nat \<Rightarrow> char"
  tree :: filesys
  conf_files :: "string \<Rightarrow> string option option"
  search_fuel :: nat
  test_start :: start_env
  test_envs :: "nat \<Rightarrow> run_env"
  bench_start :: start_env
  bench_envs :: "nat \<Rightarrow> run_env"

text \<open>After the options: \<open>testdir\<close> is the directory, \<open>None\<close> when there are too many arguments.\<close>

definition choose_dir :: "string list \<Rightarrow> string option" where
  "choose_dir args = (case args of [] \<Rightarrow> Some TEST_DIR | [d] \<Rightarrow> Some d | _ \<Rightarrow> None)"

definition run_everything :: "world \<Rightarrow> bool \<Rightarrow> bool \<Rightarrow> bool \<Rightarrow> prog \<Rightarrow> string \<Rightarrow> (int \<times> printed list) res" where
  "run_everything w cont benchmark enable_timeout p testdir =
     bnd (find_tests (search_fuel w) (tree w) testdir TEST_TYPE_TEST) (\<lambda>tests.
     case tests of
       None \<Rightarrow> Inr (EXIT_FAILURE, [No_tests_found])
     | Some ts \<Rightarrow>
         bnd (run_tests (junk_of w) (conf_files w) (test_start w) (test_envs w) cont enable_timeout p (Some ts))
           (\<lambda>(rc, ts', p, out).
         let out = out @ print_summary (case ts' of None \<Rightarrow> [] | Some ts \<Rightarrow> ts) in
         if rc \<noteq> 0 \<or> \<not> benchmark then Inr (rc, out)
         else
           bnd (find_tests (search_fuel w) (tree w) BENCHMARK_DIR TEST_TYPE_BENCHMARK) (\<lambda>bs.
           bnd (run_tests (junk_of w) (conf_files w) (bench_start w) (bench_envs w) False False p bs)
             (\<lambda>(_, _, _, out2). Inr (0, out @ [Running_benchmarks] @ out2)))))"

definition main :: "world \<Rightarrow> prog \<Rightarrow> char list \<Rightarrow> string list \<Rightarrow> (int \<times> printed list) res" where
  "main w p options args = (case read_options options False False True of
       Opt_capabilities \<Rightarrow>
         bnd (print_capabilities (cap_table p)) (\<lambda>(ls, _).
         Inr (EXIT_SUCCESS, map (\<lambda>(n, a). Capability n a) ls))
     | Opt_help \<Rightarrow> Inr (EXIT_SUCCESS, usage)
     | Opt_bad \<Rightarrow> Inr (EXIT_FAILURE, usage)
     | Opts cont benchmark enable_timeout \<Rightarrow>
         (case choose_dir args of
            None \<Rightarrow> Inr (EXIT_FAILURE, usage)
          | Some d \<Rightarrow> run_everything w cont benchmark enable_timeout p d))"

end
