(* ===== verification/Run_Output.thy ===== *)
theory Run_Output
  imports Run_Tests
begin

text \<open>
  The output buffer of a test and the life of its process: the invariant of the buffer, what
  the loop of \<open>run_test\<close> collects, asks for and decides.
\<close>

section \<open>The buffer\<close>

text \<open>
  Its size is what was allocated; it is not larger than twice what the output and one more
  read need.
\<close>

definition out_ok :: "test \<Rightarrow> bool" where
  "out_ok t \<longleftrightarrow> out_len t \<le> bufsize t \<and> bufsize t \<le> 2 * (out_len t + readsize) \<and>
     (case out_buf t of None \<Rightarrow> bufsize t = 0 | Some b \<Rightarrow> length b = bufsize t \<and> readsize \<le> bufsize t)"

definition collected :: "test \<Rightarrow> string" where
  "collected t = (case out_buf t of None \<Rightarrow> [] | Some b \<Rightarrow> take (out_len t) b)"

fun data_of :: "poll_result \<Rightarrow> string" where
  "data_of (Poll_ready (Some s)) = take readsize s"
| "data_of p = []"

definition no_output :: "test \<Rightarrow> test" where
  "no_output t = t\<lparr>out_buf := None, out_len := 0, bufsize := 0\<rparr>"

lemma length_collected: "out_ok t \<Longrightarrow> length (collected t) = out_len t"
  by (auto simp: out_ok_def collected_def split: option.splits)

lemma out_ok_create: "out_ok (test_create p ty)" and collected_create: "collected (test_create p ty) = []"
  by (simp_all add: out_ok_def collected_def test_create_def)

lemma grow_Some:
  assumes "n < MAX_ALLOC" and "case buf of None \<Rightarrow> k = 0 | Some b \<Rightarrow> k \<le> length b" and "k \<le> n"
  shows "\<exists>b. grow junk buf n = Some b \<and> length b = n \<and>
    take k b = (case buf of None \<Rightarrow> [] | Some b \<Rightarrow> take k b)"
  using assms by (cases buf) (auto simp: grow_def Let_def)

text \<open>The first half of a call: afterwards one more read fits.\<close>

definition make_room :: "(nat \<Rightarrow> char) \<Rightarrow> test \<Rightarrow> test" where
  "make_room junk t =
     (if bufsize t < out_len t + readsize
      then let n = max readsize (bufsize t * 2) in t\<lparr>out_buf := grow junk (out_buf t) n, bufsize := n\<rparr>
      else t)"

lemma make_room_ok:
  assumes ok: "out_ok t" and small: "2 * (out_len t + readsize) < MAX_ALLOC"
  shows "\<exists>b. out_buf (make_room junk t) = Some b \<and> out_len (make_room junk t) = out_len t \<and>
    out_len t + readsize \<le> length b \<and> out_ok (make_room junk t) \<and>
    take (out_len t) b = collected t \<and> no_output (make_room junk t) = no_output t"
proof (cases "bufsize t < out_len t + readsize")
  case True
  define n where "n = max readsize (bufsize t * 2)"
  have n: "n \<le> 2 * (out_len t + readsize)" "out_len t \<le> n" "out_len t + readsize \<le> n" "readsize \<le> n"
    using ok True by (auto simp: n_def out_ok_def split: option.splits)
  have "case out_buf t of None \<Rightarrow> out_len t = 0 | Some b \<Rightarrow> out_len t \<le> length b"
    using ok by (auto simp: out_ok_def split: option.splits)
  from grow_Some [OF _ this n(2), of junk] n(1) small
  obtain b where b: "grow junk (out_buf t) n = Some b" "length b = n"
      "take (out_len t) b = collected t"
    by (auto simp: collected_def split: option.splits)
  have "make_room junk t = t\<lparr>out_buf := Some b, bufsize := n\<rparr>"
    using True b(1) by (simp add: make_room_def n_def Let_def)
  then show ?thesis using b n by (simp add: out_ok_def no_output_def)
next
  case False
  then have "make_room junk t = t" by (simp add: make_room_def)
  moreover obtain b where b: "out_buf t = Some b" "length b = bufsize t"
    using ok False by (auto simp: out_ok_def readsize_def split: option.splits)
  ultimately show ?thesis using ok False b by (simp add: collected_def)
qed

lemma read_test_output_ready:
  "stdout_fd t > 0 \<Longrightarrow> read_test_output junk (Poll_ready rd) t =
    (let t = make_room junk t in
     case rd of
       None \<Rightarrow> Inr (-1, t)
     | Some s \<Rightarrow>
         let s = take readsize s in
         if s = [] then Inr (-1, t)
         else case out_buf t of
           None \<Rightarrow> Inl Bad_access
         | Some b \<Rightarrow>
             if out_len t + length s \<le> length b
             then Inr (0, t\<lparr>out_buf := Some (take (out_len t) b @ s @ drop (out_len t + length s) b),
                           out_len := out_len t + length s\<rparr>)
             else Inl Bad_access)"
  by (simp add: read_test_output_def make_room_def Let_def cong: option.case_cong)

lemma read_output:
  assumes ok: "out_ok t" and small: "2 * (out_len t + readsize) < MAX_ALLOC" and fd: "stdout_fd t > 0"
  shows "\<exists>rc t'. read_test_output junk p t = Inr (rc, t') \<and> out_ok t' \<and>
    collected t' = collected t @ data_of p \<and> no_output t' = no_output t"
proof -
  obtain b where b: "out_buf (make_room junk t) = Some b" "out_len (make_room junk t) = out_len t"
      "out_len t + readsize \<le> length b" "out_ok (make_room junk t)"
      "take (out_len t) b = collected t" "no_output (make_room junk t) = no_output t"
    using make_room_ok [OF ok small, of junk] by blast
  have room: "collected (make_room junk t) = collected t" using b by (simp add: collected_def)
  show ?thesis
  proof (cases p)
    case (Poll_ready rd)
    show ?thesis
    proof (cases rd)
      case None
      then show ?thesis using Poll_ready fd b room by (simp add: read_test_output_ready)
    next
      case (Some s)
      define s' where "s' = take readsize s"
      have len: "length s' \<le> readsize" by (simp add: s'_def)
      show ?thesis
      proof (cases "s' = []")
        case True
        then show ?thesis using Poll_ready Some fd b room s'_def by (simp add: read_test_output_ready Let_def)
      next
        case False
        define t' where "t' = (make_room junk t)\<lparr>out_buf := Some (take (out_len t) b @ s' @ drop (out_len t + length s') b),
          out_len := out_len t + length s'\<rparr>"
        have "read_test_output junk p t = Inr (0, t')"
          using Poll_ready Some fd b False len by (simp add: read_test_output_ready t'_def s'_def [symmetric] Let_def)
        moreover have "out_ok t'" using b len length_collected [OF ok] by (auto simp: t'_def out_ok_def)
        moreover have "collected t' = take (out_len t) b @ s'"
          using b(3) len by (simp add: t'_def collected_def)
        then have "collected t' = collected t @ s'" using b(5) by simp
        moreover have "no_output t' = no_output t" using b(6) by (simp add: t'_def no_output_def)
        ultimately show ?thesis using Poll_ready Some by (simp add: s'_def)
      qed
    qed
  qed (use fd ok in \<open>simp_all add: read_test_output_def\<close>)
qed

text \<open>
  C26.  \<open>read_test_output\<close> keeps the output buffer consistent: as long as the output fits in
  an allocation, every call, whatever \<open>poll\<close> and \<open>read\<close> do, stays within the buffer, which
  grows when less than one read fits, appends what was read to the output and changes
  nothing else of the test.
\<close>

theorem read_test_output_collects:
  assumes ok: "out_ok t" and small: "2 * (out_len t + readsize) < MAX_ALLOC" and fd: "stdout_fd t > 0"
  shows "\<exists>rc t'. read_test_output junk p t = Inr (rc, t') \<and> out_ok t' \<and>
    collected t' = collected t @ data_of p \<and> no_output t' = no_output t"
  by (rule read_output [OF assms])

definition piped_test :: test where
  "piped_test = (test_create ''tests/01-a'' TEST_TYPE_TEST)\<lparr>stdout_fd := 5\<rparr>"

theorem read_test_output_collects_witness:
  "\<exists>rc t'. read_test_output (\<lambda>_. CHR ''?'') (Poll_ready (Some ''hello'')) piped_test = Inr (rc, t') \<and>
     collected t' = ''hello''"
proof -
  have "out_ok piped_test" "collected piped_test = []" "2 * (out_len piped_test + readsize) < MAX_ALLOC"
      "stdout_fd piped_test > 0"
    by (simp_all add: piped_test_def out_ok_def collected_def test_create_def readsize_def MAX_ALLOC_def)
  then show ?thesis
    using read_test_output_collects [of piped_test "\<lambda>_. CHR ''?''" "Poll_ready (Some ''hello'')"]
    by (auto simp: readsize_def)
qed

section \<open>The loop\<close>

lemma no_output_eqD:
  assumes "no_output t' = no_output t"
  shows "t_type t' = t_type t" "path t' = path t" "expected_rc t' = expected_rc t"
    "expected_sig t' = expected_sig t" "timeout t' = timeout t" "ignored t' = ignored t"
    "disabled t' = disabled t" "stdout_fd t' = stdout_fd t" "pid t' = pid t" "outcome t' = outcome t"
    "caps_required t' = caps_required t"
  using assms by (cases t; cases t'; simp add: no_output_def)+

definition running :: "tick \<Rightarrow> bool" where
  "running w \<longleftrightarrow> waited w = Running"

text \<open>What one round asks of the system.\<close>

definition asked :: "bool \<Rightarrow> timeval \<Rightarrow> tick \<Rightarrow> request list" where
  "asked en deadline w =
     (if en \<and> timer_gt (now w) deadline then [Kill SIGALRM] else []) @
     [Poll (to_int32 (1 + 1000 * (fst deadline - fst (now w))))]"

definition read_by :: "tick list \<Rightarrow> string" where
  "read_by ws = concat (map (\<lambda>w. data_of (polled w)) ws)"

lemma length_data_of: "length (data_of p) \<le> readsize"
  by (cases p rule: data_of.cases) simp_all

text \<open>The rounds in which the child is running.\<close>

lemma wait_loop_running:
  assumes "\<forall>w\<in>set ws. running w" and "out_ok t" and "stdout_fd t > 0"
    and "2 * (out_len t + readsize * (length ws + 1)) < MAX_ALLOC"
  shows "\<exists>t'. out_ok t' \<and> collected t' = collected t @ read_by ws \<and> no_output t' = no_output t \<and>
    wait_loop junk k en deadline (ws @ rest) d t rq =
      wait_loop junk k en deadline rest d t' (rq @ concat (map (asked en deadline) ws))"
  using assms
proof (induction ws arbitrary: t rq)
  case Nil
  then show ?case by (auto simp: read_by_def)
next
  case (Cons w ws)
  have "2 * (out_len t + readsize) < MAX_ALLOC" using Cons.prems(4) by (simp add: algebra_simps)
  from read_output [OF Cons.prems(2) this Cons.prems(3)]
  obtain rc t1 where t1: "read_test_output junk (polled w) t = Inr (rc, t1)" "out_ok t1"
      "collected t1 = collected t @ data_of (polled w)" "no_output t1 = no_output t" by blast
  have "out_len t1 = out_len t + length (data_of (polled w))"
    using length_collected [OF t1(2)] length_collected [OF Cons.prems(2)] t1(3) by simp
  then have "2 * (out_len t1 + readsize * (length ws + 1)) < MAX_ALLOC"
    using Cons.prems(4) length_data_of [of "polled w"] by (simp add: algebra_simps)
  moreover have "stdout_fd t1 > 0" using Cons.prems(3) no_output_eqD [OF t1(4)] by simp
  ultimately obtain t2 where t2: "out_ok t2" "collected t2 = collected t1 @ read_by ws"
      "no_output t2 = no_output t1"
      "wait_loop junk k en deadline (ws @ rest) d t1 (rq @ asked en deadline w) =
        wait_loop junk k en deadline rest d t2 ((rq @ asked en deadline w) @ concat (map (asked en deadline) ws))"
    using Cons.IH [OF _ t1(2), of "rq @ asked en deadline w"] Cons.prems(1) by auto
  have "waited w = Running" using Cons.prems(1) by (simp add: running_def)
  then have "wait_loop junk k en deadline ((w # ws) @ rest) d t rq =
      wait_loop junk k en deadline (ws @ rest) d t1 (rq @ asked en deadline w)"
    using t1(1) by (simp add: asked_def Let_def)
  then show ?case using t1 t2 by (auto simp: read_by_def)
qed

section \<open>The verdict\<close>

text \<open>When a test passes.\<close>

definition passes :: "test \<Rightarrow> bool \<Rightarrow> wait_result \<Rightarrow> bool" where
  "passes t bad w = (case w of
       CLD_EXITED s \<Rightarrow> s = expected_rc t \<and> expected_sig t = 0 \<and> \<not> bad
     | CLD_KILLED s \<Rightarrow> s = expected_sig t
     | _ \<Rightarrow> False)"

definition ended :: "wait_result \<Rightarrow> bool" where
  "ended w \<longleftrightarrow> (case w of CLD_EXITED _ \<Rightarrow> True | CLD_KILLED _ \<Rightarrow> True | _ \<Rightarrow> False)"

lemma fail_with_ok:
  "out_ok t \<Longrightarrow> \<exists>out. fail_with t msg d = Inr (-1, t\<lparr>outcome := TEST_FAILED\<rparr>, d, FAIL msg # out) \<and>
     out = (if collected t = [] then [] else [Output (collected t)])"
  using length_collected [of t]
  by (auto simp: fail_with_def test_fail_def Let_def out_ok_def collected_def split: option.splits)

lemma pass_with_ok:
  "t_type t = TEST_TYPE_TEST \<Longrightarrow> pass_with t d = Inr (0, t\<lparr>outcome := TEST_PASSED\<rparr>, d, [PASS])"
  by (simp add: pass_with_def test_pass_def)

lemma verdict_ended:
  assumes ok: "out_ok t" and ty: "t_type t = TEST_TYPE_TEST" and w: "ended w"
    and log: "dmesg_check junk k d = Inr (bad, d')"
  shows "\<exists>d2 out. verdict junk k d t w =
    Inr (if passes t (truth bad) w then 0 else -1,
         t\<lparr>outcome := if passes t (truth bad) w then TEST_PASSED else TEST_FAILED\<rparr>, d2, out) \<and>
    (if passes t (truth bad) w then out = [PASS]
     else \<exists>msg. out = FAIL msg # (if collected t = [] then [] else [Output (collected t)]))"
proof -
  have F: "\<exists>out. fail_with t msg d = Inr (-1, t\<lparr>outcome := TEST_FAILED\<rparr>, d, FAIL msg # out) \<and>
      out = (if collected t = [] then [] else [Output (collected t)])" for msg d
    by (rule fail_with_ok [OF ok])
  note P = pass_with_ok [OF ty]
  show ?thesis
  proof (cases w)
    case (CLD_EXITED s)
    show ?thesis
    proof (cases "s = expected_rc t \<and> expected_sig t = 0")
      case True
      then show ?thesis using CLD_EXITED log F [of "''dmesg''" d'] P by (auto simp: verdict_def passes_def)
    next
      case False
      then show ?thesis
        using CLD_EXITED F [of "''rc '' @ show_int s @ '', expected '' @ show_int (expected_rc t)" d]
          F [of "''expected sig '' @ show_int (expected_sig t)" d]
        by (auto simp: verdict_def passes_def)
    qed
  next
    case (CLD_KILLED s)
    then show ?thesis
      using F [of "''timeout''" d] F [of "''killed, sig '' @ show_int s" d] P
      by (auto simp: verdict_def passes_def)
  qed (use w in \<open>simp_all add: ended_def\<close>)
qed

lemma collected_updates [simp]:
  "collected (t\<lparr>outcome := r\<rparr>) = collected t" "collected (t\<lparr>pid := i\<rparr>) = collected t"
  by (simp_all add: collected_def split: option.split)

lemma passes_no_output: "no_output t' = no_output t \<Longrightarrow> passes t' bad w = passes t bad w"
proof -
  assume e: "no_output t' = no_output t"
  show ?thesis unfolding passes_def no_output_eqD(3,4) [OF e] ..
qed

text \<open>
  C27.  The verdict on a test whose process ends by itself or by a signal: it passes
  exactly when it exits with the expected code, no signal is expected and the kernel log
  is clean, or when the expected signal killed it; then the loop returns 0, otherwise -1
  and the test has failed.  All that was read while it ran is in its output, printed with
  a failure, and the signals and waiting times are those of the rounds before.
\<close>

theorem wait_loop_verdict:
  assumes ws: "\<forall>w\<in>set ws. running w" and w: "ended (waited w)" and ok: "out_ok t" and fd: "stdout_fd t > 0"
    and small: "2 * (out_len t + readsize * (length ws + 1)) < MAX_ALLOC"
    and ty: "t_type t = TEST_TYPE_TEST" and log: "dmesg_check junk k d = Inr (bad, d')"
  shows "let pass = passes t (truth bad) (waited w); txt = collected t @ read_by ws in
    \<exists>s. wait_loop junk k en deadline (ws @ w # rest) d t [] = Inr (if pass then 0 else -1, s) \<and>
      outcome (o_test s) = (if pass then TEST_PASSED else TEST_FAILED) \<and> pid (o_test s) = 0 \<and>
      collected (o_test s) = txt \<and> o_requests s = concat (map (asked en deadline) ws) \<and>
      (if pass then o_printed s = [PASS]
       else \<exists>msg. o_printed s = FAIL msg # (if txt = [] then [] else [Output txt]))"
proof -
  obtain t1 where t1: "out_ok t1" "collected t1 = collected t @ read_by ws" "no_output t1 = no_output t"
      "wait_loop junk k en deadline (ws @ w # rest) d t [] =
        wait_loop junk k en deadline (w # rest) d t1 (concat (map (asked en deadline) ws))"
    using wait_loop_running [OF ws ok fd small, of junk k en deadline "w # rest" d "[]"] by auto
  have ty1: "t_type t1 = TEST_TYPE_TEST" using ty no_output_eqD [OF t1(3)] by simp
  define pass where "pass = passes t (truth bad) (waited w)"
  have p1: "passes t1 (truth bad) (waited w) = pass" using passes_no_output [OF t1(3)] by (simp add: pass_def)
  obtain d2 out where v: "verdict junk k d t1 (waited w) =
      Inr (if pass then 0 else -1, t1\<lparr>outcome := if pass then TEST_PASSED else TEST_FAILED\<rparr>, d2, out)"
      "if pass then out = [PASS] else \<exists>msg. out = FAIL msg # (if collected t1 = [] then [] else [Output (collected t1)])"
    using verdict_ended [OF t1(1) ty1 w log] p1 by auto
  define s where "s = \<lparr>o_test = t1\<lparr>outcome := if pass then TEST_PASSED else TEST_FAILED, pid := 0\<rparr>,
    o_dmesg = d2, o_printed = out, o_requests = concat (map (asked en deadline) ws)\<rparr>"
  have "wait_loop junk k en deadline (ws @ w # rest) d t [] = Inr (if pass then 0 else -1, s)"
    using w v(1) t1(4) by (cases "waited w") (simp_all add: ended_def s_def)
  moreover have "collected (o_test s) = collected t @ read_by ws" using t1(2) by (simp add: s_def)
  ultimately show ?thesis
    using v(2) t1(2) by (auto simp: Let_def pass_def [symmetric] s_def intro!: exI [of _ s])
qed

text \<open>
  The check for kernel messages.  The buffer has the size the kernel has given; its first
  bytes are the log, and \<open>strstr\<close> looks for the word up to the first zero byte.  \<open>klogctl\<close> writes
  none: a log that fills the buffer is read past its end.
\<close>

definition log_ok :: "dmesg \<Rightarrow> bool" where
  "log_ok d \<longleftrightarrow> (case kbuf d of None \<Rightarrow> kbufsize d = 0 | Some b \<Rightarrow> length b = kbufsize d)"

lemma dmesg_check_reads:
  assumes ok: "log_ok d" and size: "0 < log_size k" "log_size k < MAX_ALLOC" and lt: "log_text k = Some s"
  obtains (closed) r d' where "dmesg_check junk k d = Inr (of_truth (sublist ''Badness'' r), d')" "log_ok d'"
      "NULc \<in> set s \<or> length s < log_size k"
  | (overrun) "dmesg_check junk k d = Inl Bad_access" "NULc \<notin> set (take (log_size k) s)"
proof -
  define d1 where "d1 = (if log_size k \<noteq> kbufsize d
    then d\<lparr>kbufsize := log_size k, kbuf := grow junk (kbuf d) (log_size k)\<rparr> else d)"
  have n: "kbufsize d1 = log_size k" by (simp add: d1_def)
  obtain b where b: "kbuf d1 = Some b" "length b = log_size k"
    using ok size by (cases "log_size k = kbufsize d")
      (auto simp: d1_def log_ok_def grow_def Let_def split: option.splits)
  let ?s = "take (log_size k) s"
  let ?b = "?s @ drop (length ?s) b"
  have run: "dmesg_check junk k d =
      bnd (cstr ?b) (\<lambda>r. Inr (of_truth (sublist ''Badness'' r), d1\<lparr>kbuf := Some ?b\<rparr>))"
    unfolding dmesg_check_def d1_def [symmetric] Let_def
    by (simp add: lt b(1) n strstr_found_def bnd_assoc)
  show thesis
  proof (cases "NULc \<in> set ?b")
    case True
    then obtain r z where "?b = r @ NULc # z" "NULc \<notin> set r" by (meson split_list_first)
    then have "cstr ?b = Inr r" by (simp only: cstr_terminated not_False_eq_True)
    moreover have "log_ok (d1\<lparr>kbuf := Some ?b\<rparr>)" by (simp add: log_ok_def n b(2))
    moreover have "NULc \<in> set s \<or> length s < log_size k" using True b(2) by (auto dest: in_set_takeD)
    ultimately show thesis using run by (intro closed) auto
  next
    case False
    then show thesis using run by (intro overrun) (simp_all add: cstr_unterminated)
  qed
qed

lemma dmesg_check_overrun:
  assumes "log_ok d" and "0 < log_size k" "log_size k < MAX_ALLOC" and "log_text k = Some s"
    and "log_size k \<le> length s" "NULc \<notin> set s"
  shows "dmesg_check junk k d = Inl Bad_access"
  by (cases rule: dmesg_check_reads [OF assms(1-4), of junk, case_names closed overrun]) (use assms(5,6) in auto)

definition quiet_log :: klog where
  "quiet_log = \<lparr>log_size = 4, log_text = Some ''ok''\<rparr>"

definition fresh_log :: dmesg where
  "fresh_log = \<lparr>kbuf = None, kbufsize = 0\<rparr>"

lemma quiet_check: "\<exists>d. dmesg_check (\<lambda>_. NULc) quiet_log fresh_log = Inr (0, d)"
proof -
  have "strstr_found ''ok'' ''Badness'' = Inl Bad_access" by (simp add: strstr_found_def)
  have n: "\<not> sublist ''Badness'' ''ok''"
    by (auto dest: sublist_length_le)
  have "[NULc, NULc, NULc, NULc] = map (\<lambda>_. NULc) [0..<4::nat]" by (simp add: upt_rec)
  then show ?thesis
    using n by (simp add: dmesg_check_def quiet_log_def fresh_log_def grow_def MAX_ALLOC_def strstr_found_def
        of_truth_def upt_rec)
qed

theorem wait_loop_verdict_witness:
  "\<exists>s. wait_loop (\<lambda>_. NULc) quiet_log True (10, 0)
      [\<lparr>waited = Running, now = (0, 5), polled = Poll_ready (Some ''hello'')\<rparr>,
       \<lparr>waited = CLD_EXITED 1, now = (0, 9), polled = Poll_timeout\<rparr>] fresh_log piped_test [] = Inr (-1, s) \<and>
     outcome (o_test s) = TEST_FAILED \<and> (\<exists>msg. o_printed s = [FAIL msg, Output ''hello''])"
proof -
  obtain d where d: "dmesg_check (\<lambda>_. NULc) quiet_log fresh_log = Inr (0, d)" using quiet_check by blast
  have "out_ok piped_test" "collected piped_test = []" "stdout_fd piped_test > 0"
      "t_type piped_test = TEST_TYPE_TEST" "2 * (out_len piped_test + readsize * (1 + 1)) < MAX_ALLOC"
      "\<not> passes piped_test (truth 0) (CLD_EXITED 1)"
    by (simp_all add: piped_test_def out_ok_def collected_def test_create_def readsize_def MAX_ALLOC_def passes_def)
  then show ?thesis
    using wait_loop_verdict [of "[\<lparr>waited = Running, now = (0, 5), polled = Poll_ready (Some ''hello'')\<rparr>]"
        "\<lparr>waited = CLD_EXITED 1, now = (0, 9), polled = Poll_timeout\<rparr>" piped_test "\<lambda>_. NULc" quiet_log
        fresh_log 0 d True "(10, 0)" "[]"] d
    by (auto simp: Let_def running_def ended_def read_by_def readsize_def)
qed

text \<open>
  A child that dumps core is neither a pass nor a failure: whatever is expected of
  the test, the loop returns 0, prints nothing and leaves the outcome as it was.
\<close>

theorem wait_loop_core_dump:
  assumes ws: "\<forall>w\<in>set ws. running w" and w: "waited w = CLD_DUMPED n" and ok: "out_ok t" and fd: "stdout_fd t > 0"
    and small: "2 * (out_len t + readsize * (length ws + 1)) < MAX_ALLOC"
  shows "\<exists>s. wait_loop junk k en deadline (ws @ w # rest) d t [] = Inr (0, s) \<and>
    outcome (o_test s) = outcome t \<and> o_printed s = [] \<and> o_dmesg s = d"
proof -
  obtain t1 where t1: "no_output t1 = no_output t"
      "wait_loop junk k en deadline (ws @ w # rest) d t [] =
        wait_loop junk k en deadline (w # rest) d t1 (concat (map (asked en deadline) ws))"
    using wait_loop_running [OF ws ok fd small, of junk k en deadline "w # rest" d "[]"] by auto
  show ?thesis using w t1(2) no_output_eqD(10) [OF t1(1)] by (simp add: verdict_def)
qed

theorem wait_loop_core_dump_witness:
  "\<exists>s. wait_loop (\<lambda>_. NULc) quiet_log True (10, 0)
      [\<lparr>waited = CLD_DUMPED 11, now = (0, 9), polled = Poll_timeout\<rparr>] fresh_log piped_test [] = Inr (0, s) \<and>
     outcome (o_test s) = TEST_NOTRUN"
proof -
  have "out_ok piped_test" "stdout_fd piped_test > 0" "2 * (out_len piped_test + readsize * (0 + 1)) < MAX_ALLOC"
      "outcome piped_test = TEST_NOTRUN"
    by (simp_all add: piped_test_def out_ok_def test_create_def readsize_def MAX_ALLOC_def)
  then show ?thesis
    using wait_loop_core_dump [of "[]" "\<lparr>waited = CLD_DUMPED 11, now = (0, 9), polled = Poll_timeout\<rparr>" 11
        piped_test "\<lambda>_. NULc" quiet_log True "(10, 0)" "[]" fresh_log]
    by auto
qed

section \<open>Waiting\<close>

lemma wait_loop_requests:
  "wait_loop junk k en deadline ws d t rq = Inr (rc, s) \<Longrightarrow>
   o_requests s = rq @ concat (map (asked en deadline) (takeWhile running ws))"
proof (induction ws arbitrary: t rq)
  case (Cons w ws)
  show ?case
  proof (cases "waited w = Running")
    case True
    obtain r t1 where t1: "read_test_output junk (polled w) t = Inr (r, t1)"
      using Cons.prems True by (auto simp: bnd_eq_Inr Let_def)
    then have "wait_loop junk k en deadline ws d t1 (rq @ asked en deadline w) = Inr (rc, s)"
      using Cons.prems True by (auto simp: asked_def Let_def split: if_splits)
    from Cons.IH [OF this] show ?thesis using True by (simp add: running_def)
  next
    case False
    then show ?thesis
      using Cons.prems by (cases "waited w") (auto simp: running_def bnd_eq_Inr)
  qed
qed simp

lemma to_int32_small: "\<bar>v\<bar> < 2 ^ 31 \<Longrightarrow> to_int32 v = v"
  unfolding to_int32_def sint_sbintrunc' by (simp add: signed_take_bit_int_eq_self abs_less_iff)

text \<open>
  C29.  What \<open>run_test\<close> asks of the system while it waits.  A signal is sent only when
  timeouts are enabled, it is \<open>SIGALRM\<close>, and the time is past the deadline; the waiting
  times are positive and at most a millisecond longer than the seconds that are left, until
  the second of the deadline has passed: from then on they are negative, which for \<open>poll\<close>
  means without limit.
\<close>

theorem wait_loop_timing:
  assumes run: "wait_loop junk k en deadline ws d t [] = Inr (rc, s)"
    and near: "\<forall>w\<in>set ws. \<bar>fst deadline - fst (now w)\<bar> < 2000000"
  shows "(\<forall>g. Kill g \<in> set (o_requests s) \<longrightarrow> g = SIGALRM \<and> en \<and>
      (\<exists>w\<in>set ws. waited w = Running \<and> timer_gt (now w) deadline)) \<and>
    (\<forall>ms. Poll ms \<in> set (o_requests s) \<longrightarrow>
      (\<exists>w\<in>set ws. waited w = Running \<and>
        (if fst (now w) \<le> fst deadline then 0 < ms \<and> ms = 1000 * (fst deadline - fst (now w)) + 1 else ms < 0)))"
proof -
  have R: "o_requests s = concat (map (asked en deadline) (takeWhile running ws))"
    using wait_loop_requests [OF run] by simp
  have W: "w \<in> set ws \<and> waited w = Running" if "w \<in> set (takeWhile running ws)" for w
    using set_takeWhileD [OF that] by (simp add: running_def)
  have A: "to_int32 (1 + 1000 * (fst deadline - fst (now w))) = 1 + 1000 * (fst deadline - fst (now w))"
    if "w \<in> set ws" for w
    using near that by (intro to_int32_small) (fastforce simp: abs_less_iff)
  show ?thesis
  proof (intro conjI allI impI)
    fix g assume "Kill g \<in> set (o_requests s)"
    then obtain w where "w \<in> set (takeWhile running ws)" "Kill g \<in> set (asked en deadline w)" using R by auto
    then show "g = SIGALRM" "en" "\<exists>w\<in>set ws. waited w = Running \<and> timer_gt (now w) deadline"
      using W [of w] by (auto simp: asked_def split: if_splits)
  next
    fix ms assume "Poll ms \<in> set (o_requests s)"
    then obtain w where w: "w \<in> set (takeWhile running ws)" "Poll ms \<in> set (asked en deadline w)" using R by auto
    then have "ms = 1 + 1000 * (fst deadline - fst (now w))"
      using A [of w] W [of w] by (auto simp: asked_def split: if_splits)
    then show "\<exists>w\<in>set ws. waited w = Running \<and>
        (if fst (now w) \<le> fst deadline then 0 < ms \<and> ms = 1000 * (fst deadline - fst (now w)) + 1 else ms < 0)"
      using W [OF w(1)] by (intro bexI [of _ w]) auto
  qed
qed

theorem wait_loop_timing_witness:
  "\<exists>s. wait_loop (\<lambda>_. NULc) quiet_log True (10, 0)
      [\<lparr>waited = Running, now = (12, 5), polled = Poll_timeout\<rparr>,
       \<lparr>waited = CLD_DUMPED 11, now = (13, 9), polled = Poll_timeout\<rparr>] fresh_log piped_test [] = Inr (0, s) \<and>
     (\<forall>ms. Poll ms \<in> set (o_requests s) \<longrightarrow> ms < 0)"
proof -
  let ?ws = "[\<lparr>waited = Running, now = (12, 5), polled = Poll_timeout\<rparr>,
    \<lparr>waited = CLD_DUMPED 11, now = (13, 9), polled = Poll_timeout\<rparr>]"
  have "\<exists>s. wait_loop (\<lambda>_. NULc) quiet_log True (10, 0) ?ws fresh_log piped_test [] = Inr (0, s)"
    by (simp add: verdict_def read_test_output_def Let_def piped_test_def)
  then obtain s where s: "wait_loop (\<lambda>_. NULc) quiet_log True (10, 0) ?ws fresh_log piped_test [] = Inr (0, s)"
    by blast
  show ?thesis using wait_loop_timing [OF s] s by fastforce
qed

text \<open>
  C28.  A test that does not end is stopped.  In each round that sees the child running it is sent
  \<open>SIGALRM\<close> when timeouts are enabled and the deadline has passed, and only then, before the round
  waits for output; nothing else is sent.  When the child then dies of that signal, and that
  signal is not the one the test expects, the loop returns -1, and the test has failed with the
  reason "timeout" and all of its output.  The output fits an allocation and the pipe is open.
\<close>

theorem wait_loop_times_out:
  assumes rs: "\<forall>r\<in>set rs. waited r = Running"
    and w: "waited w = CLD_KILLED SIGALRM" and sig: "expected_sig t \<noteq> SIGALRM"
    and ok: "out_ok t" and fd: "stdout_fd t > 0"
    and small: "2 * (out_len t + readsize * (length rs + 1)) < MAX_ALLOC"
  shows "\<exists>s. wait_loop junk k en deadline (rs @ w # rest) d t [] = Inr (-1, s) \<and>
    outcome (o_test s) = TEST_FAILED \<and>
    (let txt = collected t @ read_by rs in
      o_printed s = FAIL ''timeout'' # (if txt = [] then [] else [Output txt])) \<and>
    o_requests s = concat (map (\<lambda>r.
      (if en \<and> timer_gt (now r) deadline then [Kill SIGALRM] else []) @
      [Poll (to_int32 (1 + 1000 * (fst deadline - fst (now r))))]) rs)"
proof -
  have running: "\<forall>r\<in>set rs. running r" using rs by (simp add: running_def)
  obtain t1 where t1: "out_ok t1" "collected t1 = collected t @ read_by rs" "no_output t1 = no_output t"
      "wait_loop junk k en deadline (rs @ w # rest) d t [] =
        wait_loop junk k en deadline (w # rest) d t1 (concat (map (asked en deadline) rs))"
    using wait_loop_running [of rs t junk k en deadline "w # rest" d "[]"] running ok fd small by auto
  obtain out where f: "fail_with t1 ''timeout'' d = Inr (-1, t1\<lparr>outcome := TEST_FAILED\<rparr>, d, FAIL ''timeout'' # out)"
      "out = (if collected t1 = [] then [] else [Output (collected t1)])"
    using fail_with_ok [OF t1(1)] by blast
  have "verdict junk k d t1 (CLD_KILLED SIGALRM) = fail_with t1 ''timeout'' d"
    using sig no_output_eqD(4) [OF t1(3)] by (simp add: verdict_def)
  then obtain s where s: "wait_loop junk k en deadline (rs @ w # rest) d t [] = Inr (-1, s)"
      "outcome (o_test s) = TEST_FAILED" "o_printed s = FAIL ''timeout'' # out"
      "o_requests s = concat (map (asked en deadline) rs)"
    using t1(4) f(1) w by auto
  moreover have "asked en deadline = (\<lambda>r. (if en \<and> timer_gt (now r) deadline then [Kill SIGALRM] else []) @
      [Poll (to_int32 (1 + 1000 * (fst deadline - fst (now r))))])"
    by (rule ext) (simp add: asked_def)
  ultimately show ?thesis using f(2) t1(2) by (simp add: Let_def)
qed

theorem wait_loop_times_out_witness:
  "\<exists>s. wait_loop (\<lambda>_. NULc) quiet_log True (10, 0)
      [\<lparr>waited = Running, now = (9, 0), polled = Poll_timeout\<rparr>,
       \<lparr>waited = Running, now = (12, 5), polled = Poll_timeout\<rparr>,
       \<lparr>waited = CLD_KILLED SIGALRM, now = (13, 9), polled = Poll_timeout\<rparr>] fresh_log piped_test [] = Inr (-1, s) \<and>
     o_printed s = [FAIL ''timeout''] \<and> o_requests s = [Poll 1001, Kill SIGALRM, Poll (- 1999)]"
proof -
  have "out_ok piped_test" "collected piped_test = []" "stdout_fd piped_test > 0"
      "2 * (out_len piped_test + readsize * (2 + 1)) < MAX_ALLOC" "expected_sig piped_test \<noteq> SIGALRM"
    by (simp_all add: piped_test_def out_ok_def collected_def test_create_def readsize_def MAX_ALLOC_def SIGALRM_def)
  moreover have "to_int32 1001 = 1001" "to_int32 (- 1999) = - 1999" by (simp_all add: to_int32_small)
  ultimately show ?thesis
    using wait_loop_times_out [of "[\<lparr>waited = Running, now = (9, 0), polled = Poll_timeout\<rparr>,
          \<lparr>waited = Running, now = (12, 5), polled = Poll_timeout\<rparr>]"
        "\<lparr>waited = CLD_KILLED SIGALRM, now = (13, 9), polled = Poll_timeout\<rparr>" piped_test
        "\<lambda>_. NULc" quiet_log True "(10, 0)" "[]" fresh_log]
    by (simp add: timer_gt_def read_by_def Let_def) blast
qed

text \<open>
  A benchmark that ends before any of its output was read makes the test suite follow
  a null pointer, even when its exit code is the expected one: \<open>run_test\<close> reads output only
  in rounds that see the child running.
\<close>

theorem benchmark_unread_output:
  assumes ty: "t_type t = TEST_TYPE_BENCHMARK" and buf: "out_buf t = None"
    and w: "waited w = CLD_EXITED (expected_rc t)" and sg: "expected_sig t = 0"
    and log: "dmesg_check junk k d = Inr (0, d')"
  shows "wait_loop junk k en deadline (w # rest) d t [] = Inl Bad_access"
  using assms by (simp add: verdict_def pass_with_def test_pass_def result_time_def truth_def)

theorem benchmark_unread_output_witness:
  "wait_loop (\<lambda>_. NULc) quiet_log True (60, 0)
     [\<lparr>waited = CLD_EXITED 0, now = (0, 9), polled = Poll_ready (Some ''12.5'')\<rparr>] fresh_log
     (test_create ''benchmarks/01-a'' TEST_TYPE_BENCHMARK) [] = Inl Bad_access"
proof -
  obtain d where "dmesg_check (\<lambda>_. NULc) quiet_log fresh_log = Inr (0, d)" using quiet_check by blast
  then show ?thesis
    using benchmark_unread_output [of "test_create ''benchmarks/01-a'' TEST_TYPE_BENCHMARK"
      "\<lparr>waited = CLD_EXITED 0, now = (0, 9), polled = Poll_ready (Some ''12.5'')\<rparr>" "\<lambda>_. NULc" quiet_log fresh_log d
      True "(60, 0)" "[]"]
    by (simp add: test_create_def)
qed

end
