(* ===== verification/Test_Config.thy ===== *)
theory Test_Config
  imports Test
begin

text \<open>
  The parser of \<open>tests.conf\<close> against a description of the file format: lines, an optional
  pattern that selects the test, words separated by blanks, one option each.
\<close>

section \<open>The format\<close>

datatype conf_option =
    Disabled | Ignored | Timeout int | Expected_rc int | Signal int
  | Need string bool            \<comment> \<open>capability, inverted\<close>
  | Unknown string

definition parse_option :: "string \<Rightarrow> conf_option res" where
  "parse_option s =
     (if s = ''disabled'' then Inr Disabled
      else if s = ''ignored'' then Inr Ignored
      else case is_param_str s ''timeout'' of Some v \<Rightarrow> bnd (atoi v) (\<lambda>v. Inr (Timeout v))
      | None \<Rightarrow> (case is_param_str s ''expected_rc'' of Some v \<Rightarrow> bnd (atoi v) (\<lambda>v. Inr (Expected_rc v))
      | None \<Rightarrow> (case is_param_str s ''signal'' of Some v \<Rightarrow> bnd (atoi v) (\<lambda>v. Inr (Signal v))
      | None \<Rightarrow>
        if prefix ''cap_'' s then Inr (Need (drop 4 s) False)
        else if prefix ''!cap_'' s then Inr (Need (drop 5 s) True)
        else Inr (Unknown s))))"

type_synonym conf_state = "test \<times> (string \<times> bool) list \<times> printed list"

fun apply_option :: "conf_option \<Rightarrow> conf_state \<Rightarrow> conf_state" where
  "apply_option Disabled (t, cs, out) = (t\<lparr>disabled := True\<rparr>, cs, out)"
| "apply_option Ignored (t, cs, out) = (t\<lparr>ignored := True\<rparr>, cs, out)"
| "apply_option (Timeout v) (t, cs, out) = (t\<lparr>timeout := v\<rparr>, cs, out)"
| "apply_option (Expected_rc v) (t, cs, out) = (t\<lparr>expected_rc := v\<rparr>, cs, out)"
| "apply_option (Signal v) (t, cs, out) = (t\<lparr>expected_sig := v\<rparr>, cs, out)"
| "apply_option (Need c i) (t, cs, out) = (t, cs @ [(c, i)], out)"
| "apply_option (Unknown s) (t, cs, out) = (t, cs, out @ [Unknown_parameter s])"

fun apply_words :: "string list \<Rightarrow> conf_state \<Rightarrow> conf_state res" where
  "apply_words [] st = Inr st"
| "apply_words (w # ws) st = bnd (parse_option w) (\<lambda>p. apply_words ws (apply_option p st))"

abbreviation NL :: char where "NL \<equiv> CHR 0x0A"

function words :: "string \<Rightarrow> string \<Rightarrow> string list" where
  "words ds s = (case dropWhile (\<lambda>c. c \<in> set ds) s of
       [] \<Rightarrow> []
     | c # cs \<Rightarrow> (c # takeWhile (\<lambda>c. c \<notin> set ds) cs) # words ds (dropWhile (\<lambda>c. c \<notin> set ds) cs))"
  by pat_completeness auto
termination
proof (relation "measure (\<lambda>(ds, s). length s)"; clarsimp)
  fix ds s c and cs :: string
  assume "dropWhile (\<lambda>c. c \<in> set ds) s = c # cs"
  then have "length (c # cs) \<le> length s" by (metis length_dropWhile_le)
  moreover have "length (dropWhile (\<lambda>c. c \<notin> set ds) cs) \<le> length cs" by (rule length_dropWhile_le)
  ultimately show "length (dropWhile (\<lambda>c. c \<notin> set ds) cs) < length s" by simp
qed

declare words.simps [simp del]

fun lines_of :: "string \<Rightarrow> string list" where
  "lines_of [] = [[]]"
| "lines_of (c # cs) =
     (if c = NL then [] # lines_of cs else (c # hd (lines_of cs)) # tl (lines_of cs))"

definition line_words :: "string \<Rightarrow> string \<Rightarrow> string list" where
  "line_words pat line =
     (let l = dropWhile isspace line in
      if l \<noteq> [] \<and> hd l = CHR ''#'' then []
      else if prefix pat l then words [CHR '' '', CHR 0x09] (drop (length pat) l)
      else if prefix ''*:'' l then words [CHR '' '', CHR 0x09] (drop 2 l)
      else [])"

definition conf_words :: "string \<Rightarrow> string \<Rightarrow> string list" where
  "conf_words pat content = concat (map (line_words pat) (lines_of content))"

section \<open>Strings that later writes leave alone\<close>

definition settled :: "char list \<Rightarrow> nat \<Rightarrow> string \<Rightarrow> bool" where
  "settled pre i s \<longleftrightarrow> NULc \<notin> set s \<and> (\<exists>q. drop i pre = s @ NULc # q)"

lemma settled_append: "settled pre i s \<Longrightarrow> settled (pre @ z) i s"
proof -
  assume "settled pre i s"
  then obtain q where q: "NULc \<notin> set s" "drop i pre = s @ NULc # q" by (auto simp: settled_def)
  then have "i < length pre" by (metis append_is_Nil_conv drop_eq_Nil leI list.distinct(1))
  then show ?thesis using q by (auto simp: settled_def)
qed

lemma settled_cstr_at: "settled pre i s \<Longrightarrow> cstr_at (pre @ z) i = Inr s"
  by (drule settled_append [where z = z]) (auto simp: settled_def cstr_at_def cstr_terminated)

text \<open>The concrete test and the state of the description.\<close>

definition conf_rel :: "char list \<Rightarrow> test \<Rightarrow> test \<Rightarrow> (string \<times> bool) list \<Rightarrow> bool" where
  "conf_rel pre t t0 cs \<longleftrightarrow> t\<lparr>caps_required := []\<rparr> = t0\<lparr>caps_required := []\<rparr> \<and>
     list_all2 (\<lambda>rc (s, i). settled pre (cap rc) s \<and> invert rc = i) (caps_required t) cs"

lemma conf_rel_append: "conf_rel pre t t0 cs \<Longrightarrow> conf_rel (pre @ z) t t0 cs"
  unfolding conf_rel_def by (auto elim!: list_all2_mono intro: settled_append)

section \<open>One token\<close>

lemma settled_token:
  assumes "NULc \<notin> set s" and "length p = i" and "k \<le> length s"
  shows "settled (p @ s @ [NULc]) (i + k) (drop k s)"
  using assms by (auto simp: settled_def dest: in_set_dropD)

lemma test_caps_simps [simp]:
  "test_add_required_cap t c i\<lparr>caps_required := []\<rparr> = t\<lparr>caps_required := []\<rparr>"
  "caps_required (test_add_required_cap t c i) = caps_required t @ [\<lparr>cap = c, invert = i\<rparr>]"
  by (simp_all add: test_add_required_cap_def)

lemma conf_rel_update:
  assumes "conf_rel pre t t0 cs"
  shows "conf_rel pre (t\<lparr>disabled := b\<rparr>) (t0\<lparr>disabled := b\<rparr>) cs"
    "conf_rel pre (t\<lparr>ignored := b\<rparr>) (t0\<lparr>ignored := b\<rparr>) cs"
    "conf_rel pre (t\<lparr>timeout := v\<rparr>) (t0\<lparr>timeout := v\<rparr>) cs"
    "conf_rel pre (t\<lparr>expected_rc := v\<rparr>) (t0\<lparr>expected_rc := v\<rparr>) cs"
    "conf_rel pre (t\<lparr>expected_sig := v\<rparr>) (t0\<lparr>expected_sig := v\<rparr>) cs"
  using assms by (cases t; cases t0; simp add: conf_rel_def)+

lemma conf_rel_need:
  assumes "conf_rel pre t t0 cs" and "settled pre i s"
  shows "conf_rel pre (test_add_required_cap t i neg) t0 (cs @ [(s, neg)])"
  using assms by (simp add: conf_rel_def list_all2_appendI)

lemma handle_token:
  assumes rel: "conf_rel pre t t0 cs" and s: "NULc \<notin> set s" and i: "i = length pre + length sp"
    and buf: "buf = pre @ sp @ s @ NULc # g"
  shows "case parse_option s of
      Inl e \<Rightarrow> handle_testconf_token t buf i = Inl e
    | Inr p \<Rightarrow> \<exists>t' o1. handle_testconf_token t buf i = Inr (t', o1) \<and>
        (case apply_option p (t0, cs, out) of (t1, cs1, out1) \<Rightarrow>
           out1 = out @ o1 \<and> conf_rel (pre @ sp @ s @ [NULc]) t' t1 cs1)"
proof -
  define post where "post = pre @ sp @ s @ [NULc]"
  have rel': "conf_rel post t t0 cs"
    unfolding post_def using conf_rel_append [OF rel, of "sp @ s @ [NULc]"] by simp
  have at: "cstr_at buf i = Inr s"
    using cstr_at_append [OF s, of "pre @ sp" i g] by (simp add: i buf)
  have k: "settled post (i + k) (drop k s)" if "k \<le> length s" for k
    unfolding post_def using settled_token [OF s _ that, of "pre @ sp" i] i by simp
  note upd = conf_rel_update [OF rel']
  have "case parse_option s of
      Inl e \<Rightarrow> handle_testconf_token t buf i = Inl e
    | Inr p \<Rightarrow> \<exists>t' o1. handle_testconf_token t buf i = Inr (t', o1) \<and>
        (case apply_option p (t0, cs, out) of (t1, cs1, out1) \<Rightarrow>
           out1 = out @ o1 \<and> conf_rel post t' t1 cs1)"
  proof (cases "s = ''disabled'' \<or> s = ''ignored''")
    case True
    then show ?thesis
      by (elim disjE) (simp_all add: parse_option_def handle_testconf_token_def at upd)
  next
    case False
    show ?thesis
    proof (cases "is_param_str s ''timeout'' = None \<and> is_param_str s ''expected_rc'' = None \<and>
        is_param_str s ''signal'' = None")
      case True
      have "prefix ''cap_'' s \<Longrightarrow> 4 \<le> length s" "prefix ''!cap_'' s \<Longrightarrow> 5 \<le> length s"
        by (auto dest: prefix_length_le)
      then show ?thesis
        using True False k [of 4] k [of 5]
        by (auto simp: parse_option_def handle_testconf_token_def at rel' intro: conf_rel_need)
    next
      case False
      then show ?thesis
        using \<open>\<not> (s = ''disabled'' \<or> s = ''ignored'')\<close>
        by (auto simp: parse_option_def handle_testconf_token_def at upd bnd_def
            split: option.split sum.split)
    qed
  qed
  then show ?thesis by (simp only: post_def)
qed

section \<open>One line\<close>

lemma skip_delims_run:
  "\<forall>c\<in>set sp. c \<in> set ds \<Longrightarrow> d \<notin> set ds \<Longrightarrow> skip_delims ds (sp @ d # z) i = Inr (i + length sp)"
  by (induction sp arbitrary: i) auto

lemma token_end_run:
  "\<forall>c\<in>set s. c \<notin> set ds \<and> c \<noteq> NULc \<Longrightarrow> d \<in> set ds \<or> d = NULc \<Longrightarrow>
   token_end ds (s @ d # z) i = Inr (i + length s)"
  by (induction s arbitrary: i) auto

lemma char_at_append: "length p = i \<Longrightarrow> char_at (p @ c # z) i = Inr c"
  by (auto simp: char_at_def)

lemma poke_append: "length p = i \<Longrightarrow> poke (p @ c # z) i d = Inr (p @ d # z)"
  by (auto simp: poke_def)

text \<open>What \<open>strtok\<close> does on the rest of a line that ends in a zero byte.\<close>

lemma strtok_none:
  assumes "dropWhile (\<lambda>c. c \<in> set ds) r = []" and "NULc \<notin> set ds" and "i = length pre"
  shows "strtok ds (pre @ r @ NULc # g) i = Inr (None, i + length r, pre @ r @ NULc # g)"
proof -
  have "skip_delims ds (r @ NULc # g) i = Inr (i + length r)"
    using assms by (intro skip_delims_run) (auto simp: dropWhile_eq_Nil_conv)
  moreover have "char_at (pre @ r @ NULc # g) (i + length r) = Inr NULc"
    using char_at_append [of "pre @ r" "i + length r" NULc g] assms(3) by simp
  ultimately show ?thesis using assms(3) by (simp add: strtok_def)
qed

lemma strtok_token:
  assumes r: "r = sp @ s @ rest" and sp: "\<forall>c\<in>set sp. c \<in> set ds" and s: "s \<noteq> []" "\<forall>c\<in>set s. c \<notin> set ds"
    and nul: "NULc \<notin> set ds" "NULc \<notin> set r" and i: "i = length pre"
  shows "rest = [] \<Longrightarrow> strtok ds (pre @ r @ NULc # g) i =
      Inr (Some (i + length sp), i + length r, pre @ r @ NULc # g)"
    and "rest = d # u \<Longrightarrow> d \<in> set ds \<Longrightarrow> strtok ds (pre @ r @ NULc # g) i =
      Inr (Some (i + length sp), i + length sp + length s + 1, pre @ sp @ s @ NULc # u @ NULc # g)"
proof -
  obtain a s' where a: "s = a # s'" using s(1) by (cases s) simp_all
  have skip: "skip_delims ds (sp @ s @ z) i = Inr (i + length sp)" for z
    using skip_delims_run [OF sp, of a "s' @ z" i] s(2) a by simp
  have at1: "char_at (pre @ sp @ s @ z) (i + length sp) = Inr a" for z
    using char_at_append [of "pre @ sp" "i + length sp" a "s' @ z"] i a by simp
  have a0: "a \<noteq> NULc" using nul(2) r a by auto
  have s0: "\<forall>c\<in>set s. c \<notin> set ds \<and> c \<noteq> NULc" using s(2) nul(2) r by auto
  have at2: "char_at (pre @ sp @ s @ c # z) (i + length sp + length s) = Inr c" for c z
    using char_at_append [of "pre @ sp @ s" "i + length sp + length s" c z] i by simp
  have dr: "drop (i + length sp) (pre @ sp @ z) = z" for z using i by simp
  show "strtok ds (pre @ r @ NULc # g) i = Inr (Some (i + length sp), i + length r, pre @ r @ NULc # g)"
    if "rest = []"
    using skip [of "NULc # g"] at1 [of "NULc # g"] a0 at2 [of NULc g] i
      token_end_run [OF s0, of NULc g "i + length sp"]
    by (simp add: strtok_def r that dr add.assoc)
  show "strtok ds (pre @ r @ NULc # g) i =
      Inr (Some (i + length sp), i + length sp + length s + 1, pre @ sp @ s @ NULc # u @ NULc # g)"
    if rest: "rest = d # u" "d \<in> set ds"
  proof -
    have d0: "d \<noteq> NULc" using rest nul(1) by auto
    have "poke (pre @ sp @ s @ d # u @ NULc # g) (i + length sp + length s) NULc =
        Inr (pre @ sp @ s @ NULc # u @ NULc # g)"
      using poke_append [of "pre @ sp @ s" "i + length sp + length s" d "u @ NULc # g" NULc] i by simp
    then show ?thesis
      using skip [of "d # u @ NULc # g"] at1 [of "d # u @ NULc # g"] a0 at2 [of d "u @ NULc # g"] i d0
        token_end_run [OF s0, of d "u @ NULc # g" "i + length sp"] rest
      by (simp add: strtok_def r dr add.assoc)
  qed
qed

lemma words_Nil: "words ds [] = []"
  by (simp add: words.simps)

lemma words_delim: "d \<in> set ds \<Longrightarrow> words ds (d # u) = words ds u"
  by (subst (1 2) words.simps) simp

lemma words_Cons:
  "dropWhile (\<lambda>c. c \<in> set ds) r = c # cs \<Longrightarrow>
   words ds r = (c # takeWhile (\<lambda>c. c \<notin> set ds) cs) # words ds (dropWhile (\<lambda>c. c \<notin> set ds) cs)"
  by (subst words.simps) simp

lemma words_split:
  assumes "dropWhile (\<lambda>c. c \<in> set ds) r = c # cs"
  shows "\<exists>sp s rest. r = sp @ s @ rest \<and> (\<forall>c\<in>set sp. c \<in> set ds) \<and> s \<noteq> [] \<and>
    (\<forall>c\<in>set s. c \<notin> set ds) \<and> words ds r = s # words ds rest \<and> (rest = [] \<or> hd rest \<in> set ds)"
proof -
  define sp where "sp = takeWhile (\<lambda>c. c \<in> set ds) r"
  define s where "s = c # takeWhile (\<lambda>c. c \<notin> set ds) cs"
  define rest where "rest = dropWhile (\<lambda>c. c \<notin> set ds) cs"
  have "r = sp @ c # cs"
    using takeWhile_dropWhile_id [of "\<lambda>c. c \<in> set ds" r] assms by (simp add: sp_def)
  then have "r = sp @ s @ rest" by (simp add: s_def rest_def)
  moreover have "c \<notin> set ds" using hd_dropWhile [of "\<lambda>c. c \<in> set ds" r] assms by simp
  then have "\<forall>c\<in>set s. c \<notin> set ds" by (auto simp: s_def dest: set_takeWhileD)
  moreover have "rest = [] \<or> hd rest \<in> set ds"
    using hd_dropWhile [of "\<lambda>c. c \<notin> set ds" cs] by (auto simp: rest_def)
  moreover have "\<forall>c\<in>set sp. c \<in> set ds" by (auto simp: sp_def dest: set_takeWhileD)
  moreover have "s \<noteq> []" by (simp add: s_def)
  moreover have "words ds r = s # words ds rest" using words_Cons [OF assms] by (simp add: s_def rest_def)
  ultimately show ?thesis by blast
qed

abbreviation BLANKS :: string where "BLANKS \<equiv> [CHR '' '', CHR 0x09]"

lemma conf_tokens_words:
  assumes "conf_rel pre t t0 cs" and "NULc \<notin> set r" and "length r < n"
  shows "case apply_words (words BLANKS r) (t0, cs, out) of
      Inl e \<Rightarrow> conf_tokens n t (pre @ r @ NULc # g) (length pre) out = Inl e
    | Inr (t1, cs1, out1) \<Rightarrow> \<exists>t' r'.
        conf_tokens n t (pre @ r @ NULc # g) (length pre) out = Inr (t', pre @ r' @ NULc # g, out1) \<and>
        length r' = length r \<and> conf_rel (pre @ r' @ [NULc]) t' t1 cs1"
  using assms
proof (induction n arbitrary: pre t t0 cs r out)
  case 0
  then show ?case by simp
next
  case (Suc n)
  let ?ds = BLANKS
  let ?i = "length pre"
  have nul: "NULc \<notin> set ?ds" by simp
  show ?case
  proof (cases "dropWhile (\<lambda>c. c \<in> set ?ds) r")
    case Nil
    have "words ?ds r = []" by (subst words.simps) (simp only: Nil list.case)
    moreover have "conf_rel (pre @ r @ [NULc]) t t0 cs"
      using conf_rel_append [OF Suc.prems(1), of "r @ [NULc]"] by simp
    ultimately show ?thesis
      using strtok_none [OF Nil nul refl, of pre g] by auto
  next
    case (Cons c rs)
    obtain sp s rest where r: "r = sp @ s @ rest" and sp: "\<forall>c\<in>set sp. c \<in> set ?ds"
        and s: "s \<noteq> []" "\<forall>c\<in>set s. c \<notin> set ?ds" and w: "words ?ds r = s # words ?ds rest"
        and hd: "rest = [] \<or> hd rest \<in> set ?ds"
      using words_split [OF Cons] by blast
    have s0: "NULc \<notin> set s" using Suc.prems(2) r by simp
    note tok = strtok_token [where pre = pre and g = g, OF r sp s nul Suc.prems(2) refl]
    show ?thesis
    proof (cases rest)
      case Nil
      have buf: "pre @ r @ NULc # g = pre @ sp @ s @ NULc # g" using r Nil by simp
      note H = handle_token [OF Suc.prems(1) s0 refl buf, of out]
      obtain m where m: "n = Suc m" using Suc.prems(3) r s(1) by (cases n) auto
      have none: "strtok ?ds (pre @ r @ NULc # g) (?i + length r) = Inr (None, ?i + length r, pre @ r @ NULc # g)"
        using strtok_none [of ?ds "[]" "?i + length r" "pre @ r" g] by simp
      have pr: "pre @ sp @ s @ [NULc] = pre @ r @ [NULc]" using r Nil by simp
      show ?thesis
      proof (cases "parse_option s")
        case (Inl e)
        then show ?thesis using H tok(1) [OF Nil] w by simp
      next
        case (Inr p)
        obtain t1 cs1 out1 where ap: "apply_option p (t0, cs, out) = (t1, cs1, out1)" by (metis prod_cases3)
        obtain t' o1 where t': "handle_testconf_token t (pre @ r @ NULc # g) (?i + length sp) = Inr (t', o1)"
            "out1 = out @ o1" "conf_rel (pre @ r @ [NULc]) t' t1 cs1"
          using H Inr ap pr by auto
        have "conf_tokens (Suc n) t (pre @ r @ NULc # g) ?i out = Inr (t', pre @ r @ NULc # g, out1)"
          using tok(1) [OF Nil] t'(1,2) none m by simp
        moreover have "apply_words (words ?ds r) (t0, cs, out) = Inr (t1, cs1, out1)"
          using w Nil Inr ap by (simp add: words_Nil)
        ultimately show ?thesis using t'(3) by auto
      qed
    next
      case rest: (Cons d u)
      have d: "d \<in> set ?ds" using hd rest by simp
      have wu: "words ?ds rest = words ?ds u" using rest words_delim [OF d] by simp
      define b1 where "b1 = pre @ sp @ s @ NULc # u @ NULc # g"
      note H = handle_token [OF Suc.prems(1) s0 refl b1_def, of out]
      have pos: "?i + length sp + length s + 1 = length (pre @ sp @ s @ [NULc])" by simp
      note T = tok(2) [OF rest d, folded b1_def]
      show ?thesis
      proof (cases "parse_option s")
        case (Inl e)
        then show ?thesis using H T w by simp
      next
        case (Inr p)
        obtain t1 cs1 out1 where ap: "apply_option p (t0, cs, out) = (t1, cs1, out1)" by (metis prod_cases3)
        obtain t' o1 where t': "handle_testconf_token t b1 (?i + length sp) = Inr (t', o1)"
            "out1 = out @ o1" "conf_rel (pre @ sp @ s @ [NULc]) t' t1 cs1"
          using H Inr ap by auto
        have run: "conf_tokens (Suc n) t (pre @ r @ NULc # g) ?i out =
            conf_tokens n t' b1 (length (pre @ sp @ s @ [NULc])) out1"
          using T t'(1,2) pos by (simp add: add.assoc)
        have ap2: "apply_words (words ?ds r) (t0, cs, out) = apply_words (words ?ds u) (t1, cs1, out1)"
          using w wu Inr ap by simp
        have b1: "b1 = (pre @ sp @ s @ [NULc]) @ u @ NULc # g" by (simp add: b1_def)
        have u: "NULc \<notin> set u" "length u < n" using Suc.prems(2,3) r rest by auto
        have IH: "case apply_words (words ?ds u) (t1, cs1, out1) of
            Inl e \<Rightarrow> conf_tokens n t' b1 (length (pre @ sp @ s @ [NULc])) out1 = Inl e
          | Inr (t2, cs2, out2) \<Rightarrow> \<exists>t'' r'.
              conf_tokens n t' b1 (length (pre @ sp @ s @ [NULc])) out1 =
                Inr (t'', (pre @ sp @ s @ [NULc]) @ r' @ NULc # g, out2) \<and>
              length r' = length u \<and> conf_rel ((pre @ sp @ s @ [NULc]) @ r' @ [NULc]) t'' t2 cs2"
          unfolding b1 by (rule Suc.IH [OF t'(3) u])
        show ?thesis
        proof (cases "apply_words (words ?ds u) (t1, cs1, out1)")
          case (Inl e)
          then show ?thesis using IH run ap2 by simp
        next
          case (Inr st)
          obtain t2 cs2 out2 where st: "st = (t2, cs2, out2)" by (metis prod_cases3)
          obtain t'' r' where "conf_tokens n t' b1 (length (pre @ sp @ s @ [NULc])) out1 =
                Inr (t'', (pre @ sp @ s @ [NULc]) @ r' @ NULc # g, out2)"
              "length r' = length u" "conf_rel ((pre @ sp @ s @ [NULc]) @ r' @ [NULc]) t'' t2 cs2"
            using IH Inr st by auto
          then have "conf_tokens (Suc n) t (pre @ r @ NULc # g) ?i out =
                Inr (t'', pre @ (sp @ s @ NULc # r') @ NULc # g, out2) \<and>
              length (sp @ s @ NULc # r') = length r \<and>
              conf_rel (pre @ (sp @ s @ NULc # r') @ [NULc]) t'' t2 cs2"
            using run r rest by simp
          then show ?thesis using ap2 Inr st by auto
        qed
      qed
    qed
  qed
qed

section \<open>The file\<close>

lemma skip_space_run:
  "d = NULc \<or> \<not> isspace d \<Longrightarrow> \<forall>c\<in>set sp. isspace c \<Longrightarrow> skip_space (sp @ d # z) i = Inr (i + length sp)"
  by (induction sp arbitrary: i) auto

lemma skip_space_text:
  assumes "NULc \<notin> set r"
  shows "skip_space (r @ NULc # g) i = Inr (i + length (takeWhile isspace r))"
proof (cases "dropWhile isspace r")
  case Nil
  then have "\<forall>c\<in>set r. isspace c" "takeWhile isspace r = r"
    by (auto simp: dropWhile_eq_Nil_conv takeWhile_eq_all_conv)
  then show ?thesis using skip_space_run [of NULc r g i] by (simp del: takeWhile_eq_all_conv)
next
  case (Cons d u)
  then have d: "\<not> isspace d" using hd_dropWhile [of isspace r] by simp
  have r: "r = takeWhile isspace r @ d # u" using takeWhile_dropWhile_id [of isspace r] Cons by simp
  have "skip_space (takeWhile isspace r @ d # u @ NULc # g) i = Inr (i + length (takeWhile isspace r))"
    using d by (intro skip_space_run) (auto dest: set_takeWhileD)
  moreover have "takeWhile isspace r @ d # u @ NULc # g = r @ NULc # g" by (subst (2) r) simp
  ultimately show ?thesis by simp
qed

lemma lines_of_nonempty [simp]: "lines_of s \<noteq> []"
  by (cases s) simp_all

lemma lines_of_line:
  "NL \<notin> set l \<Longrightarrow> lines_of (l @ NL # rest) = l # lines_of rest"
  by (induction l) auto

lemma lines_of_last: "NL \<notin> set l \<Longrightarrow> lines_of l = [l]"
  by (induction l) auto

text \<open>White space at the front of the rest of the file, line ends included, selects nothing.\<close>

lemma line_words_blank: "pat \<noteq> [] \<Longrightarrow> line_words pat [] = []"
  by (simp add: line_words_def)

lemma conf_words_skip:
  assumes "pat \<noteq> []"
  shows "conf_words pat r = conf_words pat (dropWhile isspace r)"
proof (induction r)
  case (Cons c r)
  show ?case
  proof (cases "isspace c")
    case True
    have "conf_words pat (c # r) = conf_words pat r"
    proof (cases "c = NL")
      case True
      then show ?thesis by (simp add: conf_words_def line_words_blank [OF assms])
    next
      case False
      have "line_words pat (c # l) = line_words pat l" for l
        using True by (simp add: line_words_def)
      then show ?thesis
        using False by (cases "lines_of r") (simp_all add: conf_words_def)
    qed
    then show ?thesis using Cons True by simp
  qed simp
qed simp

text \<open>The part of a line that is cut into words, as an offset into the line.\<close>

definition line_match :: "string \<Rightarrow> string \<Rightarrow> nat option" where
  "line_match pat l =
     (if l \<noteq> [] \<and> hd l = CHR ''#'' then None
      else if prefix pat l then Some (length pat)
      else if prefix ''*:'' l then Some 2 else None)"

lemma line_words_match:
  "\<not> (l \<noteq> [] \<and> isspace (hd l)) \<Longrightarrow> line_words pat l =
    (case line_match pat l of None \<Rightarrow> [] | Some k \<Rightarrow> words BLANKS (drop k l))"
  by (cases l) (auto simp: line_words_def line_match_def)

lemma prefix_line:
  "NL \<notin> set p \<Longrightarrow> prefix p (l @ NL # rest) = prefix p l"
proof
  assume "NL \<notin> set p" and p: "prefix p (l @ NL # rest)"
  show "prefix p l"
  proof (cases "length p \<le> length l")
    case True
    then show ?thesis using p by (metis prefix_append prefix_length_prefix prefixI)
  next
    case False
    then have "prefix (l @ [NL]) p" using p by (metis append.assoc append_Cons append_Nil length_append_singleton not_less_eq_eq prefixI prefix_length_prefix)
    then show ?thesis using \<open>NL \<notin> set p\<close> by (auto simp: prefix_def)
  qed
qed (auto simp: prefix_def)

lemma match_run:
  assumes p: "NULc \<notin> set pat" "NL \<notin> set pat" and l: "NL \<notin> set l" "NULc \<notin> set l" and i: "i = length pre"
    and z: "z = [] \<or> (\<exists>rest. z = NL # rest)"
  shows "bnd (char_at (pre @ l @ z @ NULc # g) i) (\<lambda>ch.
      if ch = CHR ''#'' then Inr None else
      bnd (strncmp_prefix (pre @ l @ z @ NULc # g) i pat) (\<lambda>m.
      if m then Inr (Some (i + length pat)) else
      bnd (strncmp_prefix (pre @ l @ z @ NULc # g) i ''*:'') (\<lambda>m.
      Inr (if m then Some (i + 2) else None)))) = Inr (map_option (\<lambda>k. i + k) (line_match pat l))"
proof -
  have cmp: "strncmp_prefix (pre @ l @ z @ NULc # g) i q = Inr (prefix q l)" if "NULc \<notin> set q" "NL \<notin> set q" for q
  proof (cases "z = []")
    case True
    then show ?thesis using has_prefix_terminated [OF that(1), of l g] i by (simp add: strncmp_prefix_def)
  next
    case False
    then obtain rest where r: "z = NL # rest" using z by blast
    show ?thesis
      using has_prefix_terminated [OF that(1), of "l @ NL # rest" g] i prefix_line [OF that(2), of l rest]
      by (simp add: strncmp_prefix_def r)
  qed
  obtain c y where c: "l @ z @ NULc # g = c # y" "l \<noteq> [] \<longrightarrow> c = hd l" "l = [] \<longrightarrow> c \<noteq> CHR ''#''"
    using z by (cases l) auto
  have "char_at (pre @ l @ z @ NULc # g) i = Inr c"
    using char_at_append [of pre i c y] i c(1) by simp
  then show ?thesis
    using cmp [of pat] p cmp [of "''*:''"] c by (auto simp: line_match_def)
qed

text \<open>One round of the loop on a line \<open>l\<close>, which is the last one or is followed by a line end.\<close>

lemma conf_line_run:
  assumes rel: "conf_rel pre t t0 cs" and p: "NULc \<notin> set pat" "NL \<notin> set pat"
    and l: "NL \<notin> set l" "NULc \<notin> set l" "\<not> (l \<noteq> [] \<and> isspace (hd l))" and i: "i = length pre"
    and z: "z = [] \<or> z = NL # rest" and z0: "NULc \<notin> set z"
    and nl: "newline = (if z = [] then None else Some (i + length l))"
    and buf: "buf = pre @ l @ z @ NULc # g"
    and run_def: "run = (case map_option (\<lambda>k. i + k) (line_match pat l) of
             None \<Rightarrow> Inr (t, buf, out)
           | Some c \<Rightarrow>
               bnd (case newline of None \<Rightarrow> Inr buf | Some i \<Rightarrow> poke buf i NULc) (\<lambda>buf.
               conf_tokens (length buf + 1) t buf c out))"
  shows "case apply_words (line_words pat l) (t0, cs, out) of
      Inl e \<Rightarrow> run = Inl e
    | Inr (t1, cs1, out1) \<Rightarrow> \<exists>t' q. length q = length l \<and>
        (if z = [] then run = Inr (t', pre @ q @ NULc # g, out1) \<and> conf_rel (pre @ q @ [NULc]) t' t1 cs1
         else \<exists>e. run = Inr (t', pre @ q @ e # rest @ NULc # g, out1) \<and> conf_rel (pre @ q @ [e]) t' t1 cs1)"
proof (cases "line_match pat l")
  case None
  then have "line_words pat l = []" using line_words_match [OF l(3), of pat] by simp
  moreover have "conf_rel (pre @ l @ y) t t0 cs" for y
    using conf_rel_append [OF rel, of "l @ y"] by simp
  ultimately show ?thesis using None z by (auto simp: run_def buf)
next
  case (Some k)
  have k: "k \<le> length l" using Some by (auto simp: line_match_def dest: prefix_length_le split: if_splits)
  define l1 where "l1 = take k l"
  define r where "r = drop k l"
  have lr: "l = l1 @ r" "length l1 = k" using k by (simp_all add: l1_def r_def)
  have w: "line_words pat l = words BLANKS r" using line_words_match [OF l(3), of pat] Some by (simp add: r_def)
  define h where "h = (if z = [] then g else rest @ NULc # g)"
  define b1 where "b1 = (pre @ l1) @ r @ NULc # h"
  have pk: "(case newline of None \<Rightarrow> Inr buf | Some i \<Rightarrow> poke buf i NULc) = Inr b1"
  proof (cases "z = []")
    case True
    then show ?thesis by (simp add: nl buf b1_def h_def lr)
  next
    case False
    then have zz: "z = NL # rest" using z by simp
    have "poke ((pre @ l) @ NL # rest @ NULc # g) (i + length l) NULc = Inr ((pre @ l) @ NULc # rest @ NULc # g)"
      by (rule poke_append) (simp add: i)
    then show ?thesis using zz by (simp add: nl buf b1_def h_def lr)
  qed
  have run: "run = conf_tokens (length b1 + 1) t b1 (length (pre @ l1)) out"
    using pk Some by (simp add: run_def lr i)
  have "NULc \<notin> set r" using l(2) by (auto simp: r_def dest: in_set_dropD)
  from conf_tokens_words [OF conf_rel_append [OF rel, of l1] this, where n = "length b1 + 1" and out = out and g = h]
  have C: "case apply_words (words BLANKS r) (t0, cs, out) of
      Inl e \<Rightarrow> run = Inl e
    | Inr (t1, cs1, out1) \<Rightarrow> \<exists>t' r'. run = Inr (t', (pre @ l1) @ r' @ NULc # h, out1) \<and>
        length r' = length r \<and> conf_rel ((pre @ l1) @ r' @ [NULc]) t' t1 cs1"
    unfolding run unfolding b1_def by simp
  show ?thesis
  proof (cases "apply_words (words BLANKS r) (t0, cs, out)")
    case (Inl e)
    then show ?thesis using C w by simp
  next
    case (Inr st)
    obtain t1 cs1 out1 where st: "st = (t1, cs1, out1)" by (metis prod_cases3)
    obtain t' r' where "run = Inr (t', (pre @ l1) @ r' @ NULc # h, out1)" "length r' = length r"
        "conf_rel ((pre @ l1) @ r' @ [NULc]) t' t1 cs1"
      using C Inr st by auto
    then show ?thesis
      using Inr st w lr z by (auto simp: h_def intro!: exI [of _ t'] exI [of _ "l1 @ r'"])
  qed
qed

lemma apply_words_append:
  "apply_words (u @ v) st = bnd (apply_words u st) (apply_words v)"
  by (induction u arbitrary: st) (simp_all add: bnd_assoc)

lemma conf_lines_words:
  assumes "conf_rel pre t t0 cs" and "NULc \<notin> set r" and "length r < n"
    and p: "NULc \<notin> set pat" "NL \<notin> set pat" "pat \<noteq> []"
  shows "case apply_words (conf_words pat r) (t0, cs, out) of
      Inl e \<Rightarrow> conf_lines n pat t (pre @ r @ NULc # g) (Some (length pre)) out = Inl e
    | Inr (t1, cs1, out1) \<Rightarrow> \<exists>t' q.
        conf_lines n pat t (pre @ r @ NULc # g) (Some (length pre)) out = Inr (t', pre @ q @ NULc # g, out1) \<and>
        length q = length r \<and> conf_rel (pre @ q @ [NULc]) t' t1 cs1"
  using assms(1-3)
proof (induction n arbitrary: pre t t0 cs r out)
  case 0
  then show ?case by simp
next
  case (Suc n)
  let ?buf = "pre @ r @ NULc # g"
  show ?case
  proof (cases "r = []")
    case True
    have "char_at ?buf (length pre) = Inr NULc" using True char_at_append [of pre _ NULc g] by simp
    moreover have "conf_rel (pre @ [NULc]) t t0 cs" by (rule conf_rel_append [OF Suc.prems(1)])
    ultimately show ?thesis using True line_words_blank [OF p(3)] by (simp add: conf_words_def)
  next
    case False
    define sp where "sp = takeWhile isspace r"
    define r2 where "r2 = dropWhile isspace r"
    define l where "l = takeWhile (\<lambda>c. c \<noteq> NL) r2"
    define z where "z = dropWhile (\<lambda>c. c \<noteq> NL) r2"
    define rest where "rest = tl z"
    define newline where "newline = (if z = [] then None else Some (length (pre @ sp) + length l))"
    have r: "r = sp @ r2" "r2 = l @ z" by (simp_all add: sp_def r2_def l_def z_def)
    have zr: "z = [] \<or> z = NL # rest"
    proof (cases z)
      case (Cons a u)
      then have d: "dropWhile (\<lambda>c. c \<noteq> NL) r2 = a # u" unfolding z_def .
      have "a = NL" using hd_dropWhile [of "\<lambda>c. c \<noteq> NL" r2] unfolding d by simp
      then show ?thesis using Cons by (simp add: rest_def)
    qed simp
    have l: "NL \<notin> set l" "NULc \<notin> set l" "\<not> (l \<noteq> [] \<and> isspace (hd l))"
    proof -
      show "NL \<notin> set l" by (auto simp: l_def dest: set_takeWhileD)
      show "NULc \<notin> set l" using Suc.prems(2) r by simp
      show "\<not> (l \<noteq> [] \<and> isspace (hd l))"
      proof (cases l)
        case (Cons a u)
        then have d: "dropWhile isspace r = a # (u @ z)" using r(2) unfolding r2_def by simp
        show ?thesis using hd_dropWhile [of isspace r] Cons unfolding d by simp
      qed simp
    qed
    have z0: "NULc \<notin> set z" using Suc.prems(2) r by simp
    obtain c r' where cr: "r = c # r'" using False by (cases r) simp_all
    have at0: "char_at ?buf (length pre) = Inr c" "c \<noteq> NULc"
      using char_at_append [of pre _ c "r' @ NULc # g"] cr Suc.prems(2) by auto
    have sk: "skip_space (drop (length pre) ?buf) (length pre) = Inr (length (pre @ sp))"
      using skip_space_text [OF Suc.prems(2), of g "length pre"] by (simp add: sp_def)
    have nlr: "strchr ?buf (length (pre @ sp)) NL = Inr newline"
    proof -
      have "NULc \<notin> set r2" using Suc.prems(2) r by simp
      then have "cstr_at ?buf (length (pre @ sp)) = Inr r2"
        using cstr_at_append [of r2 "pre @ sp" "length (pre @ sp)" g] by (simp add: r)
      moreover have "NL \<in> set r2 \<longleftrightarrow> z \<noteq> []" by (auto simp: z_def dropWhile_eq_Nil_conv)
      ultimately show ?thesis by (simp add: strchr_def newline_def l_def)
    qed
    have bufE: "?buf = (pre @ sp) @ l @ z @ NULc # g" by (simp add: r)
    have rel: "conf_rel (pre @ sp) t t0 cs" by (rule conf_rel_append [OF Suc.prems(1)])
    note M = match_run [OF p(1,2) l(1,2) refl, of z "pre @ sp" g]
    have Mz: "z = [] \<or> (\<exists>rest. z = NL # rest)" using zr by blast
    define run where "run = (case map_option (\<lambda>k. length (pre @ sp) + k) (line_match pat l) of
             None \<Rightarrow> Inr (t, ?buf, out)
           | Some c \<Rightarrow>
               bnd (case newline of None \<Rightarrow> Inr ?buf | Some i \<Rightarrow> poke ?buf i NULc) (\<lambda>buf.
               conf_tokens (length buf + 1) t buf c out))"
    note L = conf_line_run [OF rel p(1,2) l refl zr z0 newline_def bufE run_def]
    have step: "conf_lines (Suc n) pat t ?buf (Some (length pre)) out =
        bnd run (\<lambda>(t, buf, out). conf_lines n pat t buf (map_option Suc newline) out)"
    proof -
      have "bnd (char_at ?buf (length (pre @ sp))) (\<lambda>ch.
          bnd (if ch = CHR ''#'' then Inr None else
            bnd (strncmp_prefix ?buf (length (pre @ sp)) pat) (\<lambda>m.
            if m then Inr (Some (length (pre @ sp) + length pat)) else
            bnd (strncmp_prefix ?buf (length (pre @ sp)) ''*:'') (\<lambda>m.
            Inr (if m then Some (length (pre @ sp) + 2) else None)))) F) =
          F (map_option (\<lambda>k. length (pre @ sp) + k) (line_match pat l))" for F :: "nat option \<Rightarrow> (test \<times> char list \<times> printed list) res"
        using arg_cong [OF M [OF Mz, folded bufE], of "\<lambda>m. bnd m F"] unfolding bnd_assoc by simp
      then show ?thesis
        using at0 sk nlr by (simp only: conf_lines.simps option.case bnd_Inr if_False run_def)
    qed
    have split: "conf_words pat r = line_words pat l @ (if z = [] then [] else conf_words pat rest)"
    proof -
      have "conf_words pat r = conf_words pat r2"
        using conf_words_skip [OF p(3), of r] by (simp add: r2_def)
      then show ?thesis
        using zr lines_of_line [OF l(1), of rest] lines_of_last [OF l(1)] by (auto simp: r(2) conf_words_def)
    qed
    show ?thesis
    proof (cases "apply_words (line_words pat l) (t0, cs, out)")
      case (Inl e)
      then show ?thesis using L step split by (simp add: apply_words_append)
    next
      case (Inr st)
      obtain t1 cs1 out1 where st: "st = (t1, cs1, out1)" by (metis prod_cases3)
      show ?thesis
      proof (cases "z = []")
        case True
        obtain t' q where q: "length q = length l" "run = Inr (t', (pre @ sp) @ q @ NULc # g, out1)"
            "conf_rel ((pre @ sp) @ q @ [NULc]) t' t1 cs1"
          using L Inr st True by auto
        obtain m where m: "n = Suc m" using Suc.prems(3) False by (cases n) auto
        have "apply_words (conf_words pat r) (t0, cs, out) = Inr (t1, cs1, out1)"
          using split True Inr st by simp
        moreover have "conf_lines (Suc n) pat t ?buf (Some (length pre)) out =
            Inr (t', pre @ (sp @ q) @ NULc # g, out1)"
          using step q(2) True m by (simp add: newline_def)
        ultimately show ?thesis using q r True by (auto intro!: exI [of _ "sp @ q"])
      next
        case z1: False
        then have zz: "z = NL # rest" using zr by simp
        obtain t' q e where q: "length q = length l" "run = Inr (t', (pre @ sp) @ q @ e # rest @ NULc # g, out1)"
            "conf_rel ((pre @ sp) @ q @ [e]) t' t1 cs1"
          using L Inr st z1 by auto
        define pre2 where "pre2 = (pre @ sp) @ q @ [e]"
        have nl2: "map_option Suc newline = Some (length pre2)"
          using z1 q(1) by (simp add: newline_def pre2_def)
        have run2: "conf_lines (Suc n) pat t ?buf (Some (length pre)) out =
            conf_lines n pat t' (pre2 @ rest @ NULc # g) (Some (length pre2)) out1"
          using step q(2) nl2 by (simp add: pre2_def)
        have "NULc \<notin> set rest" "length rest < n" using z0 zz Suc.prems(3) r by auto
        from Suc.IH [OF q(3) [folded pre2_def] this, of out1]
        have IH: "case apply_words (conf_words pat rest) (t1, cs1, out1) of
            Inl e \<Rightarrow> conf_lines (Suc n) pat t ?buf (Some (length pre)) out = Inl e
          | Inr (t2, cs2, out2) \<Rightarrow> \<exists>t'' q'.
              conf_lines (Suc n) pat t ?buf (Some (length pre)) out = Inr (t'', pre2 @ q' @ NULc # g, out2) \<and>
              length q' = length rest \<and> conf_rel (pre2 @ q' @ [NULc]) t'' t2 cs2"
          unfolding run2 .
        have ap: "apply_words (conf_words pat r) (t0, cs, out) = apply_words (conf_words pat rest) (t1, cs1, out1)"
          using split z1 Inr st by (simp add: apply_words_append)
        show ?thesis
        proof (cases "apply_words (conf_words pat rest) (t1, cs1, out1)")
          case (Inl e)
          then show ?thesis using IH ap by simp
        next
          case (Inr st2)
          obtain t2 cs2 out2 where st2: "st2 = (t2, cs2, out2)" by (metis prod_cases3)
          obtain t'' q' where "conf_lines (Suc n) pat t ?buf (Some (length pre)) out =
                Inr (t'', pre2 @ q' @ NULc # g, out2)" "length q' = length rest"
              "conf_rel (pre2 @ q' @ [NULc]) t'' t2 cs2"
            using IH Inr st2 by auto
          then show ?thesis
            using ap Inr st2 r zz q(1) by (auto simp: pre2_def intro!: exI [of _ "sp @ q @ e # q'"])
        qed
      qed
    qed
  qed
qed

end
