(* ===== verification/Test_Props.thy ===== *)
theory Test_Props
  imports Test_Config
begin

text \<open>
  Properties of \<open>bin/test.c\<close>: the configuration file is read as its format says, a required
  capability decides as the table of capabilities answers, and what is printed for a
  benchmark is its output without the white space at its ends.
\<close>

section \<open>The configuration file\<close>

definition conf_text :: "char list \<Rightarrow> string" where
  "conf_text buf = takeWhile (\<lambda>c. c \<noteq> NULc) buf"

lemma conf_text_split: "NULc \<in> set buf \<Longrightarrow> \<exists>g. buf = conf_text buf @ NULc # g"
  unfolding conf_text_def by (rule terminated_split)

lemma conf_text_no_NUL: "NULc \<notin> set (conf_text buf)"
  by (auto simp: conf_text_def dest: set_takeWhileD)

lemma length_read_into: "length frame = CONF_BUF \<Longrightarrow> length (read_into frame c) = CONF_BUF"
  by (auto simp: read_into_def min_def split: option.split)

lemma conf_rel_start: "caps_required t = [] \<Longrightarrow> conf_rel [] t t []"
  by (simp add: conf_rel_def)

lemma conf_rel_names:
  "conf_rel pre t t0 cs \<Longrightarrow>
   list_all2 (\<lambda>rc (s, i). cstr_at (pre @ z) (cap rc) = Inr s \<and> invert rc = i) (caps_required t) cs"
  unfolding conf_rel_def by (auto elim!: list_all2_mono intro: settled_cstr_at)

definition example_test :: test where
  "example_test = test_create ''tests/02-run/01-run'' TEST_TYPE_TEST"

definition example_conf :: string where
  "example_conf = ''# quick'' @ [NL] @ ''01-run: timeout=2 !cap_root'' @ [NL] @ ''*: ignored'' @ [NL]"

lemma read_config_parses:
  assumes p: "split_path (path t) = Some (dir, fname)" and f: "files (dir @ ''/tests.conf'') = Some content"
    and frame: "length frame = CONF_BUF" and nul: "NULc \<in> set (read_into frame content)"
    and fn: "NULc \<notin> set fname" "NL \<notin> set fname" and c: "caps_required t = []"
  shows "case apply_words (conf_words (fname @ '':'') (conf_text (read_into frame content))) (t, [], []) of
      Inl e \<Rightarrow> test_read_config files frame t = Inl e
    | Inr (t1, cs, out) \<Rightarrow> \<exists>t' buf. test_read_config files frame t = Inr (t', buf, out) \<and>
        t'\<lparr>caps_required := []\<rparr> = t1\<lparr>caps_required := []\<rparr> \<and>
        list_all2 (\<lambda>rc (s, i). cstr_at buf (cap rc) = Inr s \<and> invert rc = i) (caps_required t') cs"
proof -
  define b where "b = read_into frame content"
  obtain g where g: "b = conf_text b @ NULc # g" using conf_text_split nul b_def by blast
  have n: "length (conf_text b) < CONF_BUF + 1"
    using arg_cong [OF g, of length] length_read_into [OF frame, of content] by (simp add: b_def)
  have "test_read_config files frame t = conf_lines (CONF_BUF + 1) (fname @ '':'') t b (Some 0) []"
    by (simp add: test_read_config_def p f b_def Let_def del: conf_lines.simps)
  then have run: "test_read_config files frame t =
      conf_lines (CONF_BUF + 1) (fname @ '':'') t (conf_text b @ NULc # g) (Some 0) []"
    unfolding g [symmetric] .
  have pat: "NULc \<notin> set (fname @ '':'')" "NL \<notin> set (fname @ '':'')" "fname @ '':'' \<noteq> []" using fn by auto
  note L = conf_lines_words [OF conf_rel_start [OF c] conf_text_no_NUL n pat, where out = "[]" and g = g]
  have L: "case apply_words (conf_words (fname @ '':'') (conf_text b)) (t, [], []) of
      Inl e \<Rightarrow> test_read_config files frame t = Inl e
    | Inr (t1, cs1, out1) \<Rightarrow> \<exists>t' q. test_read_config files frame t = Inr (t', q @ NULc # g, out1) \<and>
        length q = length (conf_text b) \<and> conf_rel (q @ [NULc]) t' t1 cs1"
    unfolding run using L unfolding append_Nil list.size(3) .
  show ?thesis
  proof (cases "apply_words (conf_words (fname @ '':'') (conf_text b)) (t, [], [])")
    case (Inl e)
    then show ?thesis using L by (simp add: b_def)
  next
    case (Inr st)
    obtain t1 cs1 out1 where st: "st = (t1, cs1, out1)" by (metis prod_cases3)
    obtain t' q where q: "test_read_config files frame t = Inr (t', q @ NULc # g, out1)"
        "conf_rel (q @ [NULc]) t' t1 cs1"
      using L Inr st by auto
    have "t'\<lparr>caps_required := []\<rparr> = t1\<lparr>caps_required := []\<rparr>" using q(2) by (simp add: conf_rel_def)
    then show ?thesis using q conf_rel_names [OF q(2), of g] Inr st by (auto simp: b_def)
  qed
qed

text \<open>
  C17.  \<open>test_read_config\<close> implements the format of \<open>tests.conf\<close>: of the text in the buffer, the
  lines that begin, after white space, with the file name of the test and a colon, or
  with \<open>*:\<close>, hold options separated by blanks, which apply in order; comments and other
  lines have no effect, unknown options are reported, and the names of the required
  capabilities can be read from the buffer when all is done.
\<close>

theorem test_read_config_parses:
  assumes p: "split_path (path t) = Some (dir, fname)" and f: "files (dir @ ''/tests.conf'') = Some content"
    and frame: "length frame = CONF_BUF" and nul: "NULc \<in> set (read_into frame content)"
    and fn: "NULc \<notin> set fname" "NL \<notin> set fname" and c: "caps_required t = []"
  shows "case apply_words (conf_words (fname @ '':'') (conf_text (read_into frame content))) (t, [], []) of
      Inl e \<Rightarrow> test_read_config files frame t = Inl e
    | Inr (t1, cs, out) \<Rightarrow> \<exists>t' buf. test_read_config files frame t = Inr (t', buf, out) \<and>
        t'\<lparr>caps_required := []\<rparr> = t1\<lparr>caps_required := []\<rparr> \<and>
        list_all2 (\<lambda>rc (s, i). cstr_at buf (cap rc) = Inr s \<and> invert rc = i) (caps_required t') cs"
  by (rule read_config_parses [where files = files and dir = dir, OF assms])


definition example_frame :: "char list" where
  "example_frame = replicate CONF_BUF NULc"

lemma example_length: "length example_conf < CONF_BUF"
  by (simp add: example_conf_def CONF_BUF_def)

lemma example_buffer:
  "read_into example_frame (Some example_conf) = example_conf @ replicate (CONF_BUF - length example_conf) NULc"
  using example_length by (simp add: read_into_def example_frame_def)

lemma conf_text_replicate: "NULc \<notin> set s \<Longrightarrow> conf_text (s @ replicate k NULc) = s"
proof -
  assume "NULc \<notin> set s"
  then have "takeWhile (\<lambda>c. c \<noteq> NULc) (s @ replicate k NULc) = s @ takeWhile (\<lambda>c. c \<noteq> NULc) (replicate k NULc)"
    by (intro takeWhile_append2) auto
  also have "takeWhile (\<lambda>c. c \<noteq> NULc) (replicate k NULc) = []" by (cases k) auto
  finally show ?thesis by (simp add: conf_text_def)
qed

lemma example_text: "conf_text (read_into example_frame (Some example_conf)) = example_conf"
  unfolding example_buffer by (rule conf_text_replicate) (simp add: example_conf_def)

lemma example_lines: "lines_of example_conf = [''# quick'', ''01-run: timeout=2 !cap_root'', ''*: ignored'', []]"
  using lines_of_line [of "''# quick''" "''01-run: timeout=2 !cap_root'' @ NL # ''*: ignored'' @ NL # []"]
    lines_of_line [of "''01-run: timeout=2 !cap_root''" "''*: ignored'' @ NL # []"]
    lines_of_line [of "''*: ignored''" "[]"]
  unfolding example_conf_def append_Cons [where xs = "[]"] append_Nil by (simp del: lines_of.simps(2))
lemma example_comment: "line_words ''01-run:'' ''# quick'' = []" by (simp add: line_words_def isspace_def)
lemma example_star: "line_words ''01-run:'' ''*: ignored'' = [''ignored'']" by (simp add: line_words_def isspace_def words.simps)
lemma example_named: "line_words ''01-run:'' ''01-run: timeout=2 !cap_root'' = [''timeout=2'', ''!cap_root'']" by (simp add: line_words_def isspace_def words.simps)

lemma example_words: "conf_words ''01-run:'' example_conf = [''timeout=2'', ''!cap_root'', ''ignored'']"
proof -
  have "line_words ''01-run:'' [] = []" by (simp add: line_words_def)
  then show ?thesis
    by (simp only: conf_words_def example_lines list.map example_comment example_star example_named
        concat.simps append.simps)
qed

lemma same_apart_from_caps:
  "t\<lparr>caps_required := []\<rparr> = u\<lparr>caps_required := []\<rparr> \<Longrightarrow> timeout t = timeout u \<and> ignored t = ignored u"
  by (cases t; cases u) simp

definition example_files :: "string \<Rightarrow> string option option" where
  "example_files = (\<lambda>p. if p = ''tests/02-run/tests.conf'' then Some (Some example_conf) else None)"

lemma example_parse:
  "apply_words (conf_words (''01-run'' @ '':'') (conf_text (read_into example_frame (Some example_conf)))) (example_test, [], []) =
   Inr (example_test\<lparr>timeout := 2, ignored := True\<rparr>, [(''root'', True)], [])"
  unfolding example_text append.simps example_words
  by (simp add: parse_option_def is_param_str_def atoi_def isdigit_def isspace_def)

lemma example_setting:
  "split_path (path example_test) = Some (''tests/02-run'', ''01-run'')"
  "example_files (''tests/02-run'' @ ''/tests.conf'') = Some (Some example_conf)"
  "length example_frame = CONF_BUF" "NULc \<in> set (read_into example_frame (Some example_conf))"
  "NULc \<notin> set ''01-run''" "NL \<notin> set ''01-run''" "caps_required example_test = []"
proof -
  show "NULc \<in> set (read_into example_frame (Some example_conf))"
    unfolding example_buffer using example_length by simp
qed (simp_all add: example_test_def test_create_def split_path_def example_files_def example_frame_def)

theorem test_read_config_parses_witness:
  "\<exists>t' buf rc. test_read_config example_files example_frame example_test = Inr (t', buf, []) \<and>
     timeout t' = 2 \<and> ignored t' \<and> caps_required t' = [rc] \<and> cstr_at buf (cap rc) = Inr ''root'' \<and> invert rc"
  using test_read_config_parses [where files = example_files and dir = "''tests/02-run''", OF example_setting]
  unfolding example_parse by (auto simp: list_all2_Cons2 dest: same_apart_from_caps)

lemma skip_space_fault: "skip_space b i = Inl e \<Longrightarrow> e = Bad_access"
  by (induction b arbitrary: i) (auto split: if_splits)

text \<open>
  C18.  A configuration file that fills the buffer, or any file when the memory of the
  buffer holds no zero byte behind what was read, makes \<open>test_read_config\<close> read past the end
  of its buffer: nothing terminates the text, and the count that \<open>read\<close> returned is not used.
\<close>

theorem test_read_config_unterminated:
  assumes "split_path (path t) = Some (dir, fname)" and "files (dir @ ''/tests.conf'') = Some content"
    and frame: "length frame = CONF_BUF" and nul: "NULc \<notin> set (read_into frame content)"
  shows "test_read_config files frame t = Inl Bad_access"
proof -
  define b where "b = read_into frame content"
  have run: "test_read_config files frame t = conf_lines (Suc CONF_BUF) (fname @ '':'') t b (Some 0) []"
    by (simp add: test_read_config_def assms(1,2) b_def Let_def del: conf_lines.simps)
  have len: "0 < length b" using length_read_into [OF frame] by (simp add: b_def CONF_BUF_def)
  have no: "NULc \<notin> set b" using nul by (simp add: b_def)
  have fst: "char_at b 0 = Inr (b ! 0)" "b ! 0 \<noteq> NULc" using len no nth_mem [of 0 b] by (auto simp: char_at_def simp del: nth_mem)
  have stop: "strchr b i c = Inl Bad_access" for i c
  proof -
    have "NULc \<notin> set (drop i b)" using no by (auto dest: in_set_dropD)
    then show ?thesis by (simp add: strchr_def cstr_at_def cstr_unterminated)
  qed
  show ?thesis
    using fst skip_space_fault [of b 0] by (cases "skip_space b 0") (simp_all add: run stop)
qed

theorem test_read_config_unterminated_witness:
  "test_read_config (\<lambda>p. Some (Some (replicate CONF_BUF CHR ''#''))) (replicate CONF_BUF NULc) example_test =
    Inl Bad_access"
proof -
  have "split_path (path example_test) = Some (''tests/02-run'', ''01-run'')"
    by (simp add: example_test_def test_create_def split_path_def)
  moreover have "read_into (replicate CONF_BUF NULc) (Some (replicate CONF_BUF CHR ''#'')) = replicate CONF_BUF CHR ''#''"
    by (simp add: read_into_def)
  ultimately show ?thesis
    by (intro test_read_config_unterminated) (auto simp: set_replicate_conv_if split: if_splits)
qed

section \<open>Requirements\<close>

text \<open>What a required capability asks of the table.\<close>

definition met :: "('s \<Rightarrow> string \<Rightarrow> (int \<times> 's) res) \<Rightarrow> char list \<Rightarrow> 's \<Rightarrow> required_cap \<Rightarrow> bool" where
  "met av frame s rc \<longleftrightarrow> (\<exists>n v. cstr_at frame (cap rc) = Inr n \<and> av s n = Inr (v, s) \<and> truth v \<noteq> invert rc)"

definition unmet :: "('s \<Rightarrow> string \<Rightarrow> (int \<times> 's) res) \<Rightarrow> char list \<Rightarrow> 's \<Rightarrow> required_cap \<Rightarrow> string \<Rightarrow> bool" where
  "unmet av frame s rc n \<longleftrightarrow> cstr_at frame (cap rc) = Inr n \<and> (\<exists>v. av s n = Inr (v, s) \<and> truth v = invert rc)"

context capability_source
begin

lemma check_caps_settled:
  "available s n = Inr (v, s) \<Longrightarrow> check_caps available frame s rcs = Inr (m, t) \<Longrightarrow> available t n = Inr (v, t)"
proof (induction rcs arbitrary: s)
  case (Cons rc rcs)
  obtain k w u where k: "cstr_at frame (cap rc) = Inr k" "available s k = Inr (w, u)"
    using Cons.prems(2) by (auto simp: bnd_eq_Inr)
  have "available u n = Inr (v, u)" by (rule kept [OF Cons.prems(1) k(2)])
  then show ?case using Cons.IH [of u] Cons.prems(2) k by (auto split: if_splits)
qed simp

text \<open>After the check, the requirements before the first unmet one are met.\<close>

lemma check_caps_result:
  "check_caps available frame s rcs = Inr (m, t) \<Longrightarrow>
   (case m of
      None \<Rightarrow> \<forall>rc\<in>set rcs. met available frame t rc
    | Some (neg, n) \<Rightarrow> \<exists>us rc ws. rcs = us @ rc # ws \<and> (\<forall>rc\<in>set us. met available frame t rc) \<and>
        unmet available frame t rc n \<and> invert rc = neg)"
proof (induction rcs arbitrary: s)
  case Nil
  then show ?case by simp
next
  case (Cons rc rcs)
  obtain k w u where k: "cstr_at frame (cap rc) = Inr k" "available s k = Inr (w, u)"
    using Cons.prems by (auto simp: bnd_eq_Inr)
  note again = same_answer [OF k(2)]
  show ?case
  proof (cases "truth w = invert rc")
    case True
    then have "m = Some (invert rc, k)" "t = u" using Cons.prems k by auto
    moreover have "unmet available frame u rc k" using k(1) again True by (auto simp: unmet_def)
    ultimately show ?thesis
      by (auto intro: exI [of _ "[]"])
  next
    case False
    then have c: "check_caps available frame u rcs = Inr (m, t)" using Cons.prems k by simp
    have met: "met available frame t rc"
      using k(1) check_caps_settled [OF again c] False by (auto simp: met_def)
    show ?thesis
    proof (cases m)
      case None
      then show ?thesis using Cons.IH [OF c] met by simp
    next
      case (Some p)
      obtain neg n where p: "p = (neg, n)" by fastforce
      then obtain us rc' ws where "rcs = us @ rc' # ws" "\<forall>rc\<in>set us. met available frame t rc"
          "unmet available frame t rc' n" "invert rc' = neg"
        using Cons.IH [OF c] Some by auto
      then have "rc # rcs = (rc # us) @ rc' # ws" "\<forall>x\<in>set (rc # us). met available frame t x"
          "unmet available frame t rc' n" "invert rc' = neg"
        using met by auto
      then show ?thesis unfolding Some p option.case prod.case by blast
    qed
  qed
qed

end

lemma should_run_decides:
  assumes run: "test_should_run cap_available frame st t = Inr (r, st', t', out)"
  shows "if disabled t then r = 0 \<and> st' = st \<and> t' = t\<lparr>outcome := TEST_SKIPPED\<rparr> \<and> out = [SKIPPED ''disabled'']
    else if \<forall>rc\<in>set (caps_required t). met cap_available frame st' rc then r = 1 \<and> t' = t \<and> out = []
    else r = 0 \<and> t' = t\<lparr>outcome := TEST_SKIPPED\<rparr> \<and>
      (\<exists>us rc ws n. caps_required t = us @ rc # ws \<and> (\<forall>rc\<in>set us. met cap_available frame st' rc) \<and>
        unmet cap_available frame st' rc n \<and>
        out = [SKIPPED (''requires '' @ (if invert rc then ''!'' else '''') @ n)])"
proof (cases "disabled t")
  case True
  then show ?thesis using run by (auto simp: test_should_run_def test_skip_def)
next
  case False
  obtain m u where m: "check_caps cap_available frame st (caps_required t) = Inr (m, u)"
    using run False by (auto simp: test_should_run_def bnd_eq_Inr)
  note R = caps.check_caps_result [OF m]
  show ?thesis
  proof (cases m)
    case None
    then show ?thesis using run False m R by (auto simp: test_should_run_def)
  next
    case (Some p)
    obtain neg n where p: "p = (neg, n)" by fastforce
    obtain us rc ws where u: "caps_required t = us @ rc # ws" "\<forall>rc\<in>set us. met cap_available frame u rc"
        "unmet cap_available frame u rc n" "invert rc = neg"
      using R Some p by auto
    have "\<not> met cap_available frame u rc" using u(3) by (auto simp: met_def unmet_def)
    then have "\<not> (\<forall>rc\<in>set (caps_required t). met cap_available frame u rc)" using u(1) by auto
    moreover have "r = 0" "st' = u" "t' = t\<lparr>outcome := TEST_SKIPPED\<rparr>"
        "out = [SKIPPED (''requires '' @ (if invert rc then ''!'' else '''') @ n)]"
      using run False m Some p u(4) by (auto simp: test_should_run_def test_skip_def Let_def)
    ultimately show ?thesis using False u by auto
  qed
qed

text \<open>
  C23.  The decision of \<open>test_should_run\<close>.  It returns 1, and changes nothing of the test,
  exactly when the test is not disabled and the table's answers meet every requirement;
  otherwise it returns 0, the test is marked as skipped, and the reason given is
  "disabled", without any question to the table, or the first requirement that is not
  met.  The answers are those the table keeps giving from then on.
\<close>

theorem test_should_run_decides:
  assumes run: "test_should_run cap_available frame st t = Inr (r, st', t', out)"
  shows "if disabled t then r = 0 \<and> st' = st \<and> t' = t\<lparr>outcome := TEST_SKIPPED\<rparr> \<and> out = [SKIPPED ''disabled'']
    else if \<forall>rc\<in>set (caps_required t). met cap_available frame st' rc then r = 1 \<and> t' = t \<and> out = []
    else r = 0 \<and> t' = t\<lparr>outcome := TEST_SKIPPED\<rparr> \<and>
      (\<exists>us rc ws n. caps_required t = us @ rc # ws \<and> (\<forall>rc\<in>set us. met cap_available frame st' rc) \<and>
        unmet cap_available frame st' rc n \<and>
        out = [SKIPPED (''requires '' @ (if invert rc then ''!'' else '''') @ n)])"
  by (rule should_run_decides [OF run])

text \<open>A memory that holds the name \<open>root\<close>, and a test that must not be run as root.\<close>

definition guarded_test :: test where
  "guarded_test = test_add_required_cap example_test 0 True"

lemmas guarded_eval = test_should_run_def guarded_test_def test_add_required_cap_def example_test_def
  test_create_def cstr_at_def cap_available_def caps_table_def entry_def u_cap_available_def
  cap_root_def cap_always_def desktop_def of_truth_def truth_def

theorem test_should_run_decides_witness:
  "\<exists>st'. test_should_run cap_available (''root'' @ [NULc]) (desktop, caps_table) guarded_test =
      Inr (1, st', guarded_test, []) \<and>
     met cap_available (''root'' @ [NULc]) st' \<lparr>cap = 0, invert = True\<rparr>"
proof -
  have "\<exists>st'. test_should_run cap_available (''root'' @ [NULc]) (desktop, caps_table) guarded_test =
      Inr (1, st', guarded_test, [])"
    by (simp add: guarded_eval)
  then obtain st' where run: "test_should_run cap_available (''root'' @ [NULc]) (desktop, caps_table) guarded_test =
      Inr (1, st', guarded_test, [])" by blast
  have "\<not> disabled guarded_test" "caps_required guarded_test = [\<lparr>cap = 0, invert = True\<rparr>]"
    by (simp_all add: guarded_test_def test_add_required_cap_def example_test_def test_create_def)
  then show ?thesis using test_should_run_decides [OF run] run by (auto split: if_splits)
qed

text \<open>
  The names of the requirements are pointers into a local array of \<open>test_read_config\<close>, which
  has returned: what its memory holds by now decides, the name that was read, another one, or
  characters without an end.
\<close>

lemma requirement_dangles:
  "(\<exists>c. test_should_run cap_available (''root'' @ [NULc]) (desktop, caps_table) guarded_test =
      Inr (1, c, guarded_test, [])) \<and>
   (\<exists>c t. test_should_run cap_available (''always'' @ [NULc]) (desktop, caps_table) guarded_test =
      Inr (0, c, t, [SKIPPED ''requires !always''])) \<and>
   test_should_run cap_available ''root'' (desktop, caps_table) guarded_test = Inl Bad_access"
  by (simp add: guarded_eval test_skip_def)

section \<open>The result of a benchmark\<close>

lemma strnlen_buf_text:
  "NULc \<notin> set out \<Longrightarrow>
   strnlen_buf (out @ x # g) (length out + 1) = Inr (if x = NULc then length out else length out + 1)"
  by (induction out) auto

lemma result_time_copied:
  assumes "NULc \<notin> set out"
  shows "result_time (Some (out @ x # g)) (length out) =
    (let b = take (if x = NULc then length out else length out + 1) (out @ x # g) @ [NULc] in
     bnd (skip_space b 0) (\<lambda>w.
     bnd (poke b (w + length out) NULc) (\<lambda>b.
     bnd (cut_back (w + length out + 1) b (int w + int (length out) - 1)) (\<lambda>b.
     cstr_at b w))))"
  unfolding result_time_def option.case strnlen_buf_text [OF assms] by (simp add: Let_def del: cut_back.simps)

lemma cut_back_run:
  "\<forall>c\<in>set sp. isspace c \<Longrightarrow> \<not> isspace d \<Longrightarrow> length sp < n \<Longrightarrow>
   cut_back n (p @ d # sp @ q) (int (length p + length sp)) = Inr (p @ d # replicate (length sp) NULc @ q)"
proof (induction sp arbitrary: n q rule: rev_induct)
  case Nil
  then show ?case by (cases n) (auto simp: char_at_append nat_add_distrib)
next
  case (snoc c sp)
  obtain m where m: "n = Suc m" "length sp < m" using snoc.prems(3) by (cases n) auto
  have i: "nat (int (length p + length (sp @ [c]))) = length (p @ d # sp)" by simp
  have at: "char_at (p @ d # (sp @ [c]) @ q) (length (p @ d # sp)) = Inr c"
    using char_at_append [of "p @ d # sp" _ c q] by simp
  have pk: "poke (p @ d # (sp @ [c]) @ q) (length (p @ d # sp)) NULc = Inr (p @ d # sp @ NULc # q)"
    using poke_append [of "p @ d # sp" _ c q NULc] by simp
  have "cut_back m (p @ d # sp @ NULc # q) (int (length p + length sp)) =
      Inr (p @ d # replicate (length sp) NULc @ NULc # q)"
    using snoc.IH [of m "NULc # q"] snoc.prems(1,2) m(2) by simp
  moreover have "replicate (length sp) NULc @ NULc # q = replicate (length (sp @ [c])) NULc @ q"
    by (simp add: replicate_app_Cons_same)
  ultimately show ?case
    using at pk snoc.prems(1) unfolding m(1) cut_back.simps i by (simp add: algebra_simps)
qed

definition trim :: "string \<Rightarrow> string" where
  "trim s = rev (dropWhile isspace (rev s))"

lemma cut_back_trims:
  assumes "s \<noteq> []" and "\<not> isspace (hd s)" and "length s < n"
  shows "\<exists>k. cut_back n (q @ s @ z) (int (length q + length s) - 1) = Inr (q @ trim s @ replicate k NULc @ z)"
proof -
  define sp where "sp = rev (takeWhile isspace (rev s))"
  have s: "s = trim s @ sp"
    unfolding trim_def sp_def by (metis rev_append rev_rev_ident takeWhile_dropWhile_id)
  have "\<exists>x\<in>set (rev s). \<not> isspace x" using assms(1,2) by (cases s) auto
  then have ne: "dropWhile isspace (rev s) \<noteq> []" by (simp add: dropWhile_eq_Nil_conv)
  then obtain p d where d: "trim s = p @ [d]" by (cases "trim s" rule: rev_cases) (auto simp: trim_def)
  have "dropWhile isspace (rev s) = d # rev p" using arg_cong [OF d, of rev] by (simp add: trim_def)
  then have nd: "\<not> isspace d" using hd_dropWhile [OF ne] by simp
  have sp: "\<forall>c\<in>set sp. isspace c" by (auto simp: sp_def dest: set_takeWhileD)
  have "s = p @ d # sp" using s d by simp
  moreover from this have "length sp < n" using assms(3) by simp
  ultimately show ?thesis
    using cut_back_run [OF sp nd, of n "q @ p" z] d by (intro exI [of _ "length sp"]) (simp add: add.assoc del: cut_back.simps)
qed

lemma result_trimmed:
  assumes "s \<noteq> []" and "\<not> isspace (hd s)" and "NULc \<notin> set s" and "length s < n" and "i = int (length q + length s) - 1"
  shows "bnd (cut_back n (q @ s @ NULc # r) i) (\<lambda>b. cstr_at b (length q)) = Inr (trim s)"
proof -
  obtain k where k: "cut_back n (q @ s @ NULc # r) i = Inr (q @ trim s @ replicate k NULc @ NULc # r)"
    using cut_back_trims [OF assms(1,2,4), of q "NULc # r"] unfolding assms(5) by auto
  have "NULc \<notin> set (trim s)" using assms(3) by (auto simp: trim_def dest: set_dropWhileD)
  moreover have "\<exists>w. replicate k NULc @ NULc # r = NULc # w" by (cases k) auto
  ultimately have "cstr_at (q @ trim s @ replicate k NULc @ NULc # r) (length q) = Inr (trim s)"
    by (auto simp: cstr_at_def cstr_terminated)
  then show ?thesis unfolding k bnd_Inr .
qed

text \<open>
  C24.  What \<open>test_pass\<close> prints for a benchmark, by what its output starts with and what the
  buffer holds behind it, for output without a zero byte.  When the output starts with a
  character that is not white space and does not fill its buffer, the result is the output
  without the white space at its end, whatever follows in the buffer.  In other cases the code
  leaves its memory: it reads in front of its copy when the output is empty, behind the buffer
  when the output fills it, and writes behind its copy when white space is skipped, since the
  terminator is put \<open>len\<close> characters behind the new start.  Only one character of white space, with
  a character behind the output that is not zero, goes unpunished; but then that character is
  taken for the last one of the result.
\<close>

theorem result_time_trims:
  assumes nul: "NULc \<notin> set out"
  shows "result_time (Some (out @ z)) (length out) =
    (case z of
       [] \<Rightarrow> Inl Bad_access
     | x # g \<Rightarrow>
         if out = [] then Inl Bad_access
         else if \<not> isspace (hd out) then Inr (trim out)
         else if x = NULc \<or> isspace (hd (tl out @ [x])) then Inl Bad_access
         else Inr (trim (tl out @ [x])))"
proof (cases z)
  case Nil
  have "strnlen_buf out (length out + 1) = Inl Bad_access" using nul by (induction out) auto
  then show ?thesis unfolding result_time_def Nil by simp
next
  case (Cons x g)
  define b where "b = take (if x = NULc then length out else length out + 1) (out @ x # g) @ [NULc]"
  define r where "r = (if x = NULc then [] else [NULc])"
  have b: "b = out @ x # r" by (simp add: b_def r_def)
  have skip: "skip_space b 0 = Inr (length (takeWhile isspace (out @ (if x = NULc then [] else [x]))))"
    using nul skip_space_text [of "out @ (if x = NULc then [] else [x])" "[]" 0] by (auto simp: b r_def)
  note run = result_time_copied [OF nul, of x g, unfolded Let_def, folded b_def]
  consider (empty) "out = []" | (first) "out \<noteq> []" "\<not> isspace (hd out)"
    | (one) c s where "out = c # s" "isspace c" "x \<noteq> NULc" "\<not> isspace (hd (s @ [x]))"
    | (more) c s where "out = c # s" "isspace c" "x = NULc \<or> isspace (hd (s @ [x]))"
    by (cases out) auto
  then show ?thesis
  proof cases
    case empty
    then show ?thesis unfolding Cons run skip by (auto simp: b r_def poke_def char_at_def)
  next
    case first
    then have w: "skip_space b 0 = Inr 0" unfolding skip by (cases out) simp_all
    have "poke b (length out) NULc = Inr (out @ NULc # r)" using poke_append [OF refl, of out x] by (simp add: b)
    then show ?thesis
      using first result_trimmed [OF first nul, of "length out + 1" "int (length out) - 1" "[]" r]
      unfolding Cons run w by (simp del: cut_back.simps)
  next
    case one
    have w: "skip_space b 0 = Inr 1" using one unfolding skip by (cases s) (simp_all split: if_splits)
    have bb: "b = [c] @ (s @ [x]) @ [NULc]" using one by (simp add: b r_def)
    have pk: "poke b (1 + length out) NULc = Inr ([c] @ (s @ [x]) @ [NULc])"
      using poke_append [OF refl, of "[c] @ s @ [x]" NULc "[]" NULc] one(1) by (simp add: bb)
    have "NULc \<notin> set (s @ [x])" using nul one by auto
    then have "bnd (cut_back (1 + length out + 1) ([c] @ (s @ [x]) @ [NULc]) (int 1 + int (length out) - 1)) (\<lambda>b. cstr_at b 1) =
        Inr (trim (s @ [x]))"
      using result_trimmed [of "s @ [x]" "1 + length out + 1" _ "[c]" "[]"] one by (simp del: cut_back.simps)
    then show ?thesis unfolding Cons run w bnd_Inr pk using one by simp
  next
    case more
    define w where "w = length (takeWhile isspace (out @ (if x = NULc then [] else [x])))"
    have "length b \<le> w + length out"
      using more by (cases s) (auto simp: b r_def w_def split: if_splits)
    then have "poke b (w + length out) NULc = Inl Bad_access" by (simp add: poke_def)
    then show ?thesis unfolding Cons run skip w_def [symmetric] bnd_Inr using more by (auto simp: bnd_def)
  qed
qed

theorem result_time_trims_witness:
  "result_time (Some (''12.5'' @ [CHR 0x0A, CHR ''x'', CHR ''y''])) 5 = Inr ''12.5'' \<and>
   result_time (Some ('' 12.5'' @ [NULc, CHR ''y''])) 5 = Inl Bad_access"
  using result_time_trims [of "''12.5'' @ [CHR 0x0A]" "''xy''"] result_time_trims [of "'' 12.5''" "[NULc, CHR ''y'']"]
  by (simp add: trim_def isspace_def eval_nat_numeral)

end
