(* ===== verification/Run_Props.thy ===== *)
theory Run_Props
  imports Run_Output Test_Props
begin

unbundle bit_operations_syntax

text \<open>
  The result of one test, the sequence of tests, the summary and the exit status of
  \<open>bin/run-tests.c\<close>.
\<close>

section \<open>The result of one test\<close>

lemma bnd_InrE: "bnd m f = Inr r \<Longrightarrow> (\<And>x. m = Inr x \<Longrightarrow> f x = Inr r \<Longrightarrow> P) \<Longrightarrow> P"
  by (auto simp: bnd_eq_Inr)

lemma bnd_InrE3:
  "bnd m f = Inr r \<Longrightarrow> (\<And>a b c. m = Inr (a, b, c) \<Longrightarrow> f (a, b, c) = Inr r \<Longrightarrow> P) \<Longrightarrow> P"
  by (auto simp: bnd_eq_Inr)

lemma bnd_InrE4:
  "bnd m f = Inr r \<Longrightarrow> (\<And>a b c d. m = Inr (a, b, c, d) \<Longrightarrow> f (a, b, c, d) = Inr r \<Longrightarrow> P) \<Longrightarrow> P"
  by (auto simp: bnd_eq_Inr)

lemma bnd_InrE5:
  "bnd m f = Inr r \<Longrightarrow> (\<And>a b c d e. m = Inr (a, b, c, d, e) \<Longrightarrow> f (a, b, c, d, e) = Inr r \<Longrightarrow> P) \<Longrightarrow> P"
  by (auto simp: bnd_eq_Inr)

lemma handle_token_outcome:
  "handle_testconf_token t buf i = Inr (t', out) \<Longrightarrow> outcome t' = outcome t"
  by (auto simp: handle_testconf_token_def bnd_eq_Inr test_add_required_cap_def split: if_splits option.splits)

lemma conf_tokens_outcome:
  "conf_tokens n t buf i out = Inr (t', buf', out') \<Longrightarrow> outcome t' = outcome t"
proof (induction n arbitrary: t buf i out)
  case (Suc n)
  then show ?case by (fastforce simp: bnd_eq_Inr split: option.splits dest: handle_token_outcome)
qed simp

lemma conf_lines_outcome:
  "conf_lines n pat t buf c out = Inr (t', buf', out') \<Longrightarrow> outcome t' = outcome t"
proof (induction n arbitrary: t buf c out)
  case (Suc n)
  show ?case
  proof (cases c)
    case None
    then show ?thesis using Suc.prems by simp
  next
    case (Some c)
    obtain ch where ch: "char_at buf c = Inr ch" using Suc.prems Some by (auto simp: bnd_eq_Inr)
    show ?thesis
    proof (cases "ch = NULc")
      case True
      then show ?thesis using Suc.prems Some ch by simp
    next
      case False
      obtain mt nl t1 b1 o1 where m: "(case mt of None \<Rightarrow> Inr (t, buf, out)
           | Some c \<Rightarrow>
               bnd (case nl of None \<Rightarrow> Inr buf | Some i \<Rightarrow> poke buf i NULc) (\<lambda>buf.
               conf_tokens (length buf + 1) t buf c out)) = Inr (t1, b1, o1)"
          "conf_lines n pat t1 b1 (map_option Suc nl) o1 = Inr (t', buf', out')"
        using Suc.prems unfolding Some conf_lines.simps option.case ch bnd_Inr if_not_P [OF False]
        by (elim bnd_InrE) (simp only: split_paired_all prod.case)
      have "outcome t1 = outcome t"
        using m(1) by (auto elim!: bnd_InrE split: option.splits dest: conf_tokens_outcome simp del: conf_tokens.simps)
      then show ?thesis using Suc.IH [OF m(2)] by simp
    qed
  qed
qed simp

lemma read_config_outcome:
  "test_read_config files frame t = Inr (t', buf, out) \<Longrightarrow> outcome t' = outcome t"
  by (auto simp: test_read_config_def Let_def split: option.splits dest: conf_lines_outcome simp del: conf_lines.simps)

lemma read_output_outcome: "read_test_output junk p t = Inr (r, t') \<Longrightarrow> outcome t' = outcome t"
  by (auto simp: read_test_output_def Let_def split: if_splits poll_result.splits option.splits)

lemma test_pass_outcome: "test_pass t = Inr (t', out) \<Longrightarrow> outcome t' = TEST_PASSED"
  by (auto simp: test_pass_def Let_def bnd_eq_Inr split: if_splits)

lemma test_fail_outcome: "test_fail t msg = Inr (t', out) \<Longrightarrow> outcome t' = TEST_FAILED"
  by (auto simp: test_fail_def Let_def split: if_splits option.splits)

lemma verdict_outcome:
  "verdict junk k d t w = Inr (rc, t', d', out) \<Longrightarrow>
   rc = 0 \<and> outcome t' = TEST_PASSED \<or> rc = -1 \<and> outcome t' = TEST_FAILED \<or>
   rc = 0 \<and> outcome t' = outcome t \<and> \<not> ended w"
  by (auto simp: verdict_def ended_def fail_with_def pass_with_def bnd_eq_Inr
      dest!: test_pass_outcome test_fail_outcome split: wait_result.splits if_splits)

text \<open>How a test ends: what \<open>run_test\<close> returns and what it leaves in the test.\<close>

definition watched_ok :: "tick list \<Rightarrow> int \<Rightarrow> test_result \<Rightarrow> bool" where
  "watched_ok ws rc r \<longleftrightarrow>
     rc = 0 \<and> (r = TEST_PASSED \<or> r = TEST_NOTRUN \<and> (\<exists>w\<in>set ws. \<exists>n. waited w = CLD_DUMPED n)) \<or>
     rc = -1 \<and> (r = TEST_FAILED \<or> r = TEST_NOTRUN)"

definition result_ok :: "tick list \<Rightarrow> int \<Rightarrow> test_result \<Rightarrow> bool" where
  "result_ok ws rc r \<longleftrightarrow> rc = 0 \<and> r = TEST_SKIPPED \<or> watched_ok ws rc r"

lemma wait_loop_result:
  "wait_loop junk k en deadline ws d t rq = Inr (rc, s) \<Longrightarrow> outcome t = TEST_NOTRUN \<Longrightarrow>
   watched_ok ws rc (outcome (o_test s))"
proof (induction ws arbitrary: t rq)
  case (Cons w ws)
  show ?case
  proof (cases "waited w")
    case Wait_failed
    then show ?thesis using Cons.prems by (auto simp: watched_ok_def)
  next
    case Running
    then obtain r t1 where t1: "read_test_output junk (polled w) t = Inr (r, t1)"
        "\<exists>rq. wait_loop junk k en deadline ws d t1 rq = Inr (rc, s)"
      using Cons.prems(1) by (auto simp: bnd_eq_Inr Let_def split: if_splits)
    then have "watched_ok ws rc (outcome (o_test s))"
      using Cons.IH Cons.prems(2) read_output_outcome [OF t1(1)] by auto
    then show ?thesis by (auto simp: watched_ok_def)
  next
    case (CLD_EXITED n)
    then show ?thesis using Cons.prems
      by (auto simp: bnd_eq_Inr watched_ok_def ended_def dest!: verdict_outcome)
  next
    case (CLD_KILLED n)
    then show ?thesis using Cons.prems
      by (auto simp: bnd_eq_Inr watched_ok_def ended_def dest!: verdict_outcome)
  next
    case (CLD_DUMPED n)
    then show ?thesis using Cons.prems
      by (auto simp: bnd_eq_Inr watched_ok_def dest!: verdict_outcome)
  qed
qed simp

lemma should_run_outcome:
  assumes "test_should_run av frame c t = Inr (r, c', t', out)"
  shows "r = 0 \<and> outcome t' = TEST_SKIPPED \<or> r = 1 \<and> t' = t"
proof (cases "disabled t")
  case True
  then show ?thesis using assms by (auto simp: test_should_run_def test_skip_def)
next
  case False
  then obtain m u where m: "check_caps av frame c (caps_required t) = Inr (m, u)"
    using assms unfolding test_should_run_def if_not_P [OF False] by (elim bnd_InrE) (metis surj_pair)
  show ?thesis
    using assms unfolding test_should_run_def if_not_P [OF False] m bnd_Inr prod.case
    by (cases m) (auto simp: test_skip_def Let_def)
qed

lemma run_test_decided:
  assumes "test_read_config files (stack e) t = Inr (t1, buf, o1)"
    and "test_should_run cap_available (stale e buf) (cap_table p) t1 = Inr (r, c, t2, o2)"
  shows "run_test junk files en e p t =
    (let p = p\<lparr>cap_table := c\<rparr>; out = test_header t @ o1 @ o2 in
     if r = 0 then Inr (0, t2, p, out, []) else
     case (pipe_fd e, fork_pid e) of
       (None, _) \<Rightarrow> Inr (-1, t2, p, out, [])
     | (Some fd, None) \<Rightarrow> Inr (-1, t2\<lparr>stdout_fd := fd, pid := -1\<rparr>, p, out, [])
     | (Some fd, Some child) \<Rightarrow>
         let t = t2\<lparr>stdout_fd := fd, pid := child\<rparr> in
         if \<not> sigaction_ok e then Inr (-1, t, p, out, [])
         else bnd (wait_loop junk (end_log e) en (fst (started e) + timeout t, snd (started e)) (ticks e) (log_buf p) t [])
           (\<lambda>(rc, s). Inr (rc, o_test s, p\<lparr>log_buf := o_dmesg s\<rparr>, out @ o_printed s, o_requests s)))"
  by (cases "pipe_fd e"; cases "fork_pid e") (simp_all add: run_test_def assms Let_def)

text \<open>A run in two parts: the decision, then, when it is to run, the child.\<close>

lemma run_test_parts:
  assumes run: "run_test junk files en e p t = Inr (rc, t', p', out, rq)" and new: "outcome t = TEST_NOTRUN"
  obtains t1 buf o1 r c t2 o2 where
    "test_read_config files (stack e) t = Inr (t1, buf, o1)"
    "test_should_run cap_available (stale e buf) (cap_table p) t1 = Inr (r, c, t2, o2)"
    "cap_table p' = c"
    "if r = 0 then rc = 0 \<and> t' = t2 \<and> rq = [] else watched_ok (ticks e) rc (outcome t')"
proof -
  obtain t1 buf o1 where t1: "test_read_config files (stack e) t = Inr (t1, buf, o1)"
    using run unfolding run_test_def Let_def by (rule bnd_InrE3) (rule that)
  obtain r c t2 o2 where t2: "test_should_run cap_available (stale e buf) (cap_table p) t1 = Inr (r, c, t2, o2)"
    using run unfolding run_test_def Let_def t1 bnd_Inr prod.case by (rule bnd_InrE4) (rule that)
  note R = run [unfolded run_test_decided [OF t1 t2]]
  have n1: "outcome t1 = TEST_NOTRUN" using read_config_outcome [OF t1] new by simp
  show ?thesis
  proof (cases "r = 0")
    case True
    show ?thesis by (rule that [OF t1 t2]) (use R True in \<open>auto simp: Let_def\<close>)
  next
    case False
    then have n2: "outcome t2 = TEST_NOTRUN" using should_run_outcome [OF t2] n1 by auto
    have N: "watched_ok (ticks e) (-1) TEST_NOTRUN" by (simp add: watched_ok_def)
    show ?thesis
    proof (cases "pipe_fd e = None \<or> fork_pid e = None \<or> \<not> sigaction_ok e")
      case True
      then have "cap_table p' = c" "watched_ok (ticks e) rc (outcome t')"
        using R False n2 N by (auto simp: Let_def split: option.splits)
      then show ?thesis using False by (intro that [OF t1 t2]) simp_all
    next
      case ok: False
      then obtain fd child where fc: "pipe_fd e = Some fd" "fork_pid e = Some child" "sigaction_ok e" by auto
      define t3 where "t3 = t2\<lparr>stdout_fd := fd, pid := child\<rparr>"
      have n3: "outcome t3 = TEST_NOTRUN" by (simp add: t3_def n2)
      obtain s where "wait_loop junk (end_log e) en (fst (started e) + timeout t3, snd (started e)) (ticks e)
          (log_buf p) t3 [] = Inr (rc, s)" "t' = o_test s" "cap_table p' = c"
        using R False fc by (auto simp: Let_def t3_def [symmetric] elim!: bnd_InrE)
      then show ?thesis using wait_loop_result n3 False by (intro that [OF t1 t2]) auto
    qed
  qed
qed

lemma run_test_result:
  assumes run: "run_test junk files en e p t = Inr (rc, t', p', out, rq)" and new: "outcome t = TEST_NOTRUN"
  shows "result_ok (ticks e) rc (outcome t')"
proof -
  obtain t1 buf o1 r c t2 o2 where
    s: "test_should_run cap_available (stale e buf) (cap_table p) t1 = Inr (r, c, t2, o2)" and
    d: "if r = 0 then rc = 0 \<and> t' = t2 \<and> rq = [] else watched_ok (ticks e) rc (outcome t')"
    by (rule run_test_parts [OF assms]) (rule that)
  show ?thesis using should_run_outcome [OF s] d by (auto simp: result_ok_def)
qed

text \<open>
  C30.  How a run of a test ends.  \<open>run_test\<close> returns 0 only when the test passed or was
  skipped, or when the child dumped core, and then the test counts as not run; it returns
  -1 when the test failed, or could not be run or watched, and then too it counts as not run.
\<close>

theorem run_test_outcomes:
  assumes "run_test junk files en e p t = Inr (rc, t', p', out, rq)" and "outcome t = TEST_NOTRUN"
  shows "rc = 0 \<and> (outcome t' = TEST_PASSED \<or> outcome t' = TEST_SKIPPED \<or>
      outcome t' = TEST_NOTRUN \<and> (\<exists>w\<in>set (ticks e). \<exists>n. waited w = CLD_DUMPED n)) \<or>
    rc = -1 \<and> (outcome t' = TEST_FAILED \<or> outcome t' = TEST_NOTRUN)"
  using run_test_result [OF assms] by (auto simp: result_ok_def watched_ok_def)

definition no_conf :: "string \<Rightarrow> string option option" where
  "no_conf = (\<lambda>_. None)"

definition calm :: "tick list \<Rightarrow> run_env" where
  "calm ws = \<lparr>stack = example_frame, stale = id, pipe_fd = Some 5, fork_pid = Some 77, sigaction_ok = True,
     started = (0, 0), ticks = ws, end_log = quiet_log\<rparr>"

definition boot :: prog where
  "boot = \<lparr>cap_table = (desktop, caps_table), log_buf = fresh_log\<rparr>"

definition dies :: tick where
  "dies = \<lparr>waited = CLD_KILLED 11, now = (0, 9), polled = Poll_timeout\<rparr>"

lemma dies_run:
  "\<exists>t' p' out rq. run_test (\<lambda>_. NULc) no_conf True (calm [dies]) boot example_test = Inr (-1, t', p', out, rq) \<and>
     outcome t' = TEST_FAILED"
  by (simp add: run_test_def test_read_config_def no_conf_def example_test_def test_create_def split_path_def
      test_should_run_def boot_def calm_def dies_def verdict_def SIGALRM_def fail_with_def test_fail_def
      Let_def)

theorem run_test_outcomes_witness:
  "\<exists>rc t' p' out rq. run_test (\<lambda>_. NULc) no_conf True (calm [dies]) boot example_test = Inr (rc, t', p', out, rq) \<and>
     (rc = -1 \<and> outcome t' = TEST_FAILED)"
proof -
  obtain t' p' out rq where run: "run_test (\<lambda>_. NULc) no_conf True (calm [dies]) boot example_test = Inr (-1, t', p', out, rq)"
      "outcome t' = TEST_FAILED"
    using dies_run by blast
  have "outcome example_test = TEST_NOTRUN" by (simp add: example_test_def test_create_def)
  from run_test_outcomes [OF run(1) this] show ?thesis using run by auto
qed

section \<open>The sequence of tests\<close>

text \<open>
  \<open>ran envs i p ts rs ts' p'\<close>: the tests \<open>ts\<close>, numbered from \<open>i\<close>, are run one after the
  other, each in the state the one before has left, and return \<open>rs\<close>.
\<close>

inductive ran ::
    "(nat \<Rightarrow> char) \<Rightarrow> (string \<Rightarrow> string option option) \<Rightarrow> bool \<Rightarrow> (nat \<Rightarrow> run_env) \<Rightarrow>
     nat \<Rightarrow> prog \<Rightarrow> test list \<Rightarrow> int list \<Rightarrow> test list \<Rightarrow> prog \<Rightarrow> bool"
  for junk files en envs where
  ran_none: "ran junk files en envs i p [] [] [] p"
| ran_test: "run_test junk files en (envs i) p t = Inr (r, t', p', out, rq) \<Longrightarrow>
    ran junk files en envs (i + 1) p' ts rs ts' p'' \<Longrightarrow>
    ran junk files en envs i p (t # ts) (r # rs) (t' # ts') p''"

inductive_cases ran_ConsE: "ran junk files en envs i p (t # ts) rs ts' p''"

lemma ran_length: "ran junk files en envs i p ts rs ts' p' \<Longrightarrow> length rs = length ts \<and> length ts' = length ts"
  by (induction rule: ran.induct) auto

lemma or_results: "(0 :: int) OR r = r" "(-1 :: int) OR r = -1"
  by simp_all

lemma tests_loop_ran:
  "tests_loop junk files cont en envs i rc0 p ts = Inr (rc, ts', p', out) \<Longrightarrow> rc0 \<in> {0, -1} \<Longrightarrow>
   rc0 = 0 \<or> cont \<Longrightarrow> \<forall>t\<in>set ts. outcome t = TEST_NOTRUN \<Longrightarrow>
   \<exists>k rs us. k \<le> length ts \<and> ran junk files en envs i p (take k ts) rs us p' \<and> ts' = us @ drop k ts \<and>
     set rs \<subseteq> {0, -1} \<and> rc = (if rc0 = 0 \<and> set rs \<subseteq> {0} then 0 else -1) \<and>
     (if cont \<or> rc = 0 then k = length ts else rs = replicate (k - 1) 0 @ [-1] \<and> 0 < k)"
proof (induction ts arbitrary: i rc0 p ts' out)
  case Nil
  then show ?case by (auto intro: ran.ran_none)
next
  case (Cons t ts)
  obtain r t1 p1 o1 rq where t1: "run_test junk files en (envs i) p t = Inr (r, t1, p1, o1, rq)"
    using Cons.prems(1) unfolding tests_loop.simps by (rule bnd_InrE5) (rule that)
  have r: "r \<in> {0, -1}"
    using run_test_result [OF t1] Cons.prems(4) by (auto simp: result_ok_def watched_ok_def)
  define rc1 where "rc1 = rc0 OR r"
  have rc1: "rc1 \<in> {0, -1}" "rc1 = 0 \<longleftrightarrow> rc0 = 0 \<and> r = 0"
    using Cons.prems(2) r by (auto simp: rc1_def or_results)
  show ?case
  proof (cases "rc1 \<noteq> 0 \<and> \<not> cont")
    case True
    then have "rc = -1" "ts' = t1 # ts" "p' = p1" using Cons.prems(1) t1 by (auto simp: rc1_def Let_def)
    moreover have "rc0 = 0" "r = -1" using True Cons.prems(3) rc1 r by auto
    moreover have "ran junk files en envs i p (take 1 (t # ts)) [r] [t1] p1"
      using ran.ran_test [where envs = envs and i = i and ts = "[]" and rs = "[]" and ts' = "[]", OF t1 ran.ran_none] by simp
    ultimately show ?thesis
      using True by (intro exI [of _ 1] exI [of _ "[r]"] exI [of _ "[t1]"]) auto
  next
    case False
    obtain ts2 o2 where ts2: "tests_loop junk files cont en envs (i + 1) rc1 p1 ts = Inr (rc, ts2, p', o2)"
        "ts' = t1 # ts2"
    proof -
      have "tests_loop junk files cont en envs i rc0 p (t # ts) =
          bnd (tests_loop junk files cont en envs (i + 1) rc1 p1 ts) (\<lambda>(rc, ts, p, out2). Inr (rc, t1 # ts, p, o1 @ out2))"
        unfolding tests_loop.simps t1 bnd_Inr prod.case Let_def rc1_def [symmetric] if_not_P [OF False] ..
      then have "bnd (tests_loop junk files cont en envs (i + 1) rc1 p1 ts) (\<lambda>(rc, ts, p, out2). Inr (rc, t1 # ts, p, o1 @ out2)) =
          Inr (rc, ts', p', out)"
        using Cons.prems(1) by simp
      then show ?thesis by (elim bnd_InrE) (auto intro: that)
    qed
    have go: "rc1 = 0 \<or> cont" using False by blast
    have new: "\<forall>t\<in>set ts. outcome t = TEST_NOTRUN" using Cons.prems(4) by simp
    obtain k rs us where k: "k \<le> length ts" "ran junk files en envs (i + 1) p1 (take k ts) rs us p'"
        "ts2 = us @ drop k ts" "set rs \<subseteq> {0, -1}" "rc = (if rc1 = 0 \<and> set rs \<subseteq> {0} then 0 else -1)"
        "if cont \<or> rc = 0 then k = length ts else rs = replicate (k - 1) 0 @ [-1] \<and> 0 < k"
      using Cons.IH [OF ts2(1) rc1(1) go new] by (elim exE conjE)
    have "ran junk files en envs i p (take (Suc k) (t # ts)) (r # rs) (t1 # us) p'"
      using ran.ran_test [where envs = envs and i = i, OF t1 k(2)] by simp
    moreover have "\<not> cont \<Longrightarrow> r = 0" using False rc1 by blast
    moreover have "rc = (if rc0 = 0 \<and> set (r # rs) \<subseteq> {0} then 0 else -1)" using k(5) rc1(2) by auto
    moreover have "if cont \<or> rc = 0 then Suc k = length (t # ts)
        else r # rs = replicate (Suc k - 1) 0 @ [-1] \<and> 0 < Suc k"
    proof (cases "cont \<or> rc = 0")
      case True
      then show ?thesis using k(6) by simp
    next
      case stop: False
      then have "r = 0" using False rc1(2) by blast
      moreover obtain j where "k = Suc j" using k(6) stop by (cases k) auto
      ultimately show ?thesis using k(6) stop by simp
    qed
    moreover have "set (r # rs) \<subseteq> {0, -1}" "Suc k \<le> length (t # ts)" "ts' = (t1 # us) @ drop (Suc k) (t # ts)"
      using k(1,3,4) r ts2(2) by auto
    ultimately show ?thesis by blast
  qed
qed

lemma tests_loop_from_start:
  assumes "tests_loop junk files cont en envs 0 0 p ts = Inr (rc, ts', p', out)"
    and "\<forall>t\<in>set ts. outcome t = TEST_NOTRUN"
  shows "\<exists>k rs us. k \<le> length ts \<and> ran junk files en envs 0 p (take k ts) rs us p' \<and> ts' = us @ drop k ts \<and>
    set rs \<subseteq> {0, -1} \<and> rc = (if set rs \<subseteq> {0} then 0 else -1) \<and>
    (if cont \<or> rc = 0 then k = length ts else rs = replicate (k - 1) 0 @ [-1] \<and> 0 < k)"
  using tests_loop_ran [OF assms(1) _ _ assms(2)] by simp

text \<open>
  C32.  The order and the end of the sequence.  The tests are run in the order of the list,
  from its start; without \<open>--continue\<close> the loop ends with the first test that returns -1,
  the tests behind it are left as they were, and the result is -1; with it all tests are
  run.  The result is 0 exactly when no test that was run returned -1.
\<close>

theorem tests_loop_stops:
  assumes "tests_loop junk files cont en envs 0 0 p ts = Inr (rc, ts', p', out)"
    and "\<forall>t\<in>set ts. outcome t = TEST_NOTRUN"
  shows "\<exists>k rs us. k \<le> length ts \<and> ran junk files en envs 0 p (take k ts) rs us p' \<and> ts' = us @ drop k ts \<and>
    set rs \<subseteq> {0, -1} \<and> rc = (if set rs \<subseteq> {0} then 0 else -1) \<and>
    (if cont \<or> rc = 0 then k = length ts else rs = replicate (k - 1) 0 @ [-1] \<and> 0 < k)"
  by (rule tests_loop_from_start [OF assms])

theorem tests_loop_stops_witness:
  "\<exists>ts' p' out. tests_loop (\<lambda>_. NULc) no_conf False True (\<lambda>_. calm [dies]) 0 0 boot [example_test, example_test] =
      Inr (-1, ts', p', out) \<and> ts' ! 1 = example_test"
proof -
  obtain t' p' out rq where run: "run_test (\<lambda>_. NULc) no_conf True (calm [dies]) boot example_test = Inr (-1, t', p', out, rq)"
    using dies_run by blast
  have loop: "tests_loop (\<lambda>_. NULc) no_conf False True (\<lambda>_. calm [dies]) 0 0 boot [example_test, example_test] =
      Inr (-1, [t', example_test], p', out)"
    using run by simp
  have "outcome example_test = TEST_NOTRUN" by (simp add: example_test_def test_create_def)
  then have "\<exists>k us. [t', example_test] = us @ drop k [example_test, example_test] \<and> 0 < k \<and>
      ran (\<lambda>_. NULc) no_conf True (\<lambda>_. calm [dies]) 0 boot (take k [example_test, example_test])
        (replicate (k - 1) 0 @ [-1]) us p'"
    using tests_loop_stops [OF loop] by fastforce
  then show ?thesis using loop by simp
qed

section \<open>The summary\<close>

definition counted :: "test_result \<Rightarrow> test list \<Rightarrow> nat" where
  "counted r ts = length (filter (\<lambda>t. outcome t = r \<and> \<not> ignored t) ts)"

lemma summary_counts_eq:
  "summary_counts ts (n, a, b, c) =
    (n + counted TEST_PASSED ts + counted TEST_FAILED ts + counted TEST_SKIPPED ts,
     a + counted TEST_PASSED ts, b + counted TEST_FAILED ts, c + counted TEST_SKIPPED ts)"
proof (induction ts arbitrary: n a b c)
  case (Cons t ts)
  show ?case by (cases "outcome t") (simp_all add: Cons.IH counted_def)
qed (simp add: counted_def)

text \<open>
  The summary counts the tests that passed, failed and were skipped, without those
  marked as ignored, and their sum is the number of tests it calls run.
\<close>

theorem print_summary_counts:
  "print_summary ts = [Summary (counted TEST_PASSED ts + counted TEST_FAILED ts + counted TEST_SKIPPED ts)
     (counted TEST_PASSED ts) (counted TEST_FAILED ts) (counted TEST_SKIPPED ts)]"
  by (simp add: print_summary_def summary_counts_eq)

section \<open>The main program\<close>

lemma search_dirs_new:
  "search_dirs n fs ty d dirs tests = Inr (Some ts) \<Longrightarrow> \<forall>t\<in>set tests. outcome t = TEST_NOTRUN \<Longrightarrow>
   \<forall>t\<in>set ts. outcome t = TEST_NOTRUN"
proof (induction n arbitrary: d dirs tests)
  case (Suc n)
  show ?case
  proof (cases "d < length dirs \<and> listing fs (dirs ! d) \<noteq> None")
    case True
    then obtain es where es: "listing fs (dirs ! d) = Some es" by auto
    then have "search_dirs n fs ty (d + 1) (dirs @ subdirs fs (dirs ! d))
        (tests @ map (\<lambda>p. test_create p ty) (test_paths fs (dirs ! d))) = Inr (Some ts)"
      using Suc.prems(1) True by (simp add: read_entries_listing)
    moreover have "\<forall>t\<in>set (tests @ map (\<lambda>p. test_create p ty) (test_paths fs (dirs ! d))). outcome t = TEST_NOTRUN"
      using Suc.prems(2) by (auto simp: test_create_def)
    ultimately show ?thesis by (rule Suc.IH)
  next
    case False
    then show ?thesis using Suc.prems by (auto split: if_splits option.splits)
  qed
qed simp

lemma find_tests_new: "find_tests n fs root ty = Inr (Some ts) \<Longrightarrow> \<forall>t\<in>set ts. outcome t = TEST_NOTRUN"
  by (auto simp: find_tests_def sort_tests_def elim!: bnd_InrE dest!: search_dirs_new)

text \<open>The preconditions of \<open>run_tests\<close>: a clean kernel log and a working directory.\<close>

definition can_start :: "(nat \<Rightarrow> char) \<Rightarrow> start_env \<Rightarrow> dmesg \<Rightarrow> dmesg \<Rightarrow> bool" where
  "can_start junk s d d' \<longleftrightarrow> (\<exists>bad. dmesg_check junk (start_log s) d = Inr (bad, d') \<and> \<not> truth bad) \<and>
     mkdir s (working_dir (local_time s)) \<noteq> Mkdir_failed \<and> open_dir s (working_dir (local_time s))"

lemma run_tests_start:
  "can_start junk s (log_buf p) d' \<Longrightarrow> run_tests junk files s envs cont en p tests =
    (case tests of
       None \<Rightarrow> Inl Bad_access
     | Some ts \<Rightarrow> bnd (tests_loop junk files cont en envs 0 0 (p\<lparr>log_buf := d'\<rparr>) ts) (\<lambda>(rc, ts, p, out).
         Inr (rc, Some ts, p, out)))"
  by (auto simp: can_start_def run_tests_def Let_def)

lemma run_tests_no_start:
  assumes "run_tests junk files s envs cont en p tests = Inr (rc, ts', p', out)"
    and "\<nexists>d'. can_start junk s (log_buf p) d'"
  shows "rc = -1"
proof -
  obtain bad d' where d: "dmesg_check junk (start_log s) (log_buf p) = Inr (bad, d')"
    using assms(1) unfolding run_tests_def by (elim bnd_InrE) (metis surj_pair)
  then show ?thesis
    using assms unfolding run_tests_def d bnd_Inr prod.case can_start_def
    by (auto simp: Let_def split: if_splits)
qed

lemma ran_prefix:
  "ran junk files en envs i p ts rs us p' \<Longrightarrow> ran junk files en envs i p (take k ts) rs1 us1 p1 \<Longrightarrow> rs1 = take k rs"
proof (induction arbitrary: k rs1 us1 p1 rule: ran.induct)
  case (ran_none i p)
  then show ?case by (auto elim: ran.cases)
next
  case (ran_test i p t r t' p' out rq ts rs ts' p'')
  show ?case
  proof (cases k)
    case 0
    then show ?thesis using ran_test.prems by (auto elim: ran.cases)
  next
    case (Suc j)
    then have "ran junk files en envs i p (t # take j ts) rs1 us1 p1" using ran_test.prems by simp
    then obtain rs2 us2 where "rs1 = r # rs2" "ran junk files en envs (i + 1) p' (take j ts) rs2 us2 p1"
      using ran_test.hyps(1) by (auto elim!: ran_ConsE)
    then show ?thesis using ran_test.IH Suc by auto
  qed
qed

text \<open>What \<open>main\<close> does: the tests, the summary, and the benchmarks when they are asked for and no test failed.\<close>

lemma main_runs_tests:
  assumes run: "main w p options args = Inr (rc, out)" and o: "read_options options False False True = Opts cont bench en"
    and d: "choose_dir args = Some dir" and f: "find_tests (search_fuel w) (tree w) dir TEST_TYPE_TEST = Inr (Some ts)"
  obtains ts' p' o1 o2 where
    "run_tests (junk_of w) (conf_files w) (test_start w) (test_envs w) cont en p (Some ts) = Inr (rc, ts', p', o1)"
    "out = o1 @ print_summary (case ts' of None \<Rightarrow> [] | Some ts \<Rightarrow> ts) @ o2"
    "if rc \<noteq> 0 \<or> \<not> bench then o2 = [] else \<exists>o3. o2 = Running_benchmarks # o3"
proof -
  let ?tests = "run_tests (junk_of w) (conf_files w) (test_start w) (test_envs w) cont en p (Some ts)"
  obtain rc1 ts1 p1 out1 where t: "?tests = Inr (rc1, ts1, p1, out1)"
  proof (cases ?tests)
    case (Inl e)
    then show thesis using run unfolding main_def o d run_everything_def f opts.case option.case bnd_Inr by simp
  next
    case (Inr x)
    then show thesis using that by (cases x) auto
  qed
  note R = run [unfolded main_def o d run_everything_def f opts.case option.case bnd_Inr t prod.case Let_def]
  show thesis
  proof (cases "rc1 \<noteq> 0 \<or> \<not> bench")
    case True
    then show thesis using R t by (intro that [of ts1 p1 out1 "[]"]) (auto simp: Let_def)
  next
    case False
    note R' = R [unfolded if_not_P [OF False]]
    from R' obtain o3 where "rc = 0" "out = (out1 @ print_summary (case ts1 of None \<Rightarrow> [] | Some ts \<Rightarrow> ts)) @ [Running_benchmarks] @ o3"
      by (auto elim!: bnd_InrE)
    then show thesis using False t by (intro that [of ts1 p1 out1 "Running_benchmarks # o3"]) auto
  qed
qed

text \<open>A loop returns 0 exactly when all of its tests have run and returned 0.\<close>

lemma tests_loop_succeeds:
  assumes t: "tests_loop junk files cont en envs 0 0 p ts = Inr (rc, ts2, p', o1)"
    and new: "\<forall>t\<in>set ts. outcome t = TEST_NOTRUN"
  shows "rc \<in> {0, -1} \<and> (rc = 0 \<longleftrightarrow> (\<exists>rs us p'. ran junk files en envs 0 p ts rs us p' \<and> set rs \<subseteq> {0}))"
proof -
  obtain k rs us where k: "ran junk files en envs 0 p (take k ts) rs us p'"
      "rc = (if set rs \<subseteq> {0} then 0 else -1)"
      "if cont \<or> rc = 0 then k = length ts else rs = replicate (k - 1) 0 @ [-1] \<and> 0 < k"
    using tests_loop_from_start [OF t new] by blast
  have "\<exists>rs us p'. ran junk files en envs 0 p ts rs us p' \<and> set rs \<subseteq> {0}" if rc: "rc = 0"
  proof -
    have "k = length ts" using k(3) unfolding rc by simp
    moreover have "set rs \<subseteq> {0}" using k(2) unfolding rc by (meson zero_neq_neg_one)
    ultimately show ?thesis using k(1) by (metis order_refl take_all)
  qed
  moreover have "rc = 0" if all: "ran junk files en envs 0 p ts rs2 us2 p2" "set rs2 \<subseteq> {0}" for rs2 us2 p2
  proof -
    have "rs = take k rs2" by (rule ran_prefix [OF all(1) k(1)])
    then have "set rs \<subseteq> {0}" using all(2) set_take_subset [of k rs2] by auto
    then show ?thesis using k(2) by simp
  qed
  moreover have "rc \<in> {0, -1}" unfolding k(2) by simp
  ultimately show ?thesis by blast
qed

text \<open>
  C33.  The exit status of a run that returns, with or without benchmarks: 0 or -1, and 0 exactly
  when the run could start and every test that \<open>find_tests\<close> returned was run, in that order, and
  none returned -1.  Behind the lines of the tests stands the summary; it is the last thing
  printed, unless the status is 0 and benchmarks were asked for: these are announced next, and
  what becomes of them does not change the status.
\<close>

theorem main_exit_status:
  assumes run: "main w p options args = Inr (rc, out)" and o: "read_options options False False True = Opts cont bench en"
    and d: "choose_dir args = Some dir" and f: "find_tests (search_fuel w) (tree w) dir TEST_TYPE_TEST = Inr (Some ts)"
  shows "rc \<in> {0, -1} \<and>
    (rc = 0 \<longleftrightarrow> (\<exists>d' rs us p'. can_start (junk_of w) (test_start w) (log_buf p) d' \<and>
       ran (junk_of w) (conf_files w) en (test_envs w) 0 (p\<lparr>log_buf := d'\<rparr>) ts rs us p' \<and> set rs \<subseteq> {0})) \<and>
    (\<exists>o1 n a b c o2. out = o1 @ Summary n a b c # o2 \<and>
       (if rc \<noteq> 0 \<or> \<not> bench then o2 = [] else \<exists>o3. o2 = Running_benchmarks # o3))"
proof -
  obtain ts' p' o1 o2 where r: "run_tests (junk_of w) (conf_files w) (test_start w) (test_envs w) cont en p (Some ts) =
        Inr (rc, ts', p', o1)" and out: "out = o1 @ print_summary (case ts' of None \<Rightarrow> [] | Some ts \<Rightarrow> ts) @ o2"
      and o2: "if rc \<noteq> 0 \<or> \<not> bench then o2 = [] else \<exists>o3. o2 = Running_benchmarks # o3"
    by (rule main_runs_tests [OF run o d f])
  obtain n a b c where "print_summary (case ts' of None \<Rightarrow> [] | Some ts \<Rightarrow> ts) = [Summary n a b c]"
    by (simp add: print_summary_def summary_counts_eq)
  then have last: "\<exists>o1 n a b c o2. out = o1 @ Summary n a b c # o2 \<and>
       (if rc \<noteq> 0 \<or> \<not> bench then o2 = [] else \<exists>o3. o2 = Running_benchmarks # o3)"
    using out o2 by (intro exI [of _ o1] exI [of _ n] exI [of _ a] exI [of _ b] exI [of _ c] exI [of _ o2]) simp
  show ?thesis
  proof (cases "\<exists>d'. can_start (junk_of w) (test_start w) (log_buf p) d'")
    case False
    then show ?thesis using run_tests_no_start [OF r] last by auto
  next
    case True
    then obtain d' where d': "can_start (junk_of w) (test_start w) (log_buf p) d'" by blast
    have uniq: "d2 = d'" if "can_start (junk_of w) (test_start w) (log_buf p) d2" for d2
      using that d' by (auto simp: can_start_def)
    obtain ts2 where t: "tests_loop (junk_of w) (conf_files w) cont en (test_envs w) 0 0 (p\<lparr>log_buf := d'\<rparr>) ts =
        Inr (rc, ts2, p', o1)"
      using r unfolding run_tests_start [OF d'] by (auto elim!: bnd_InrE)
    show ?thesis using tests_loop_succeeds [OF t find_tests_new [OF f]] d' uniq last by metis
  qed
qed

text \<open>A machine with one test that passes.\<close>

definition ends_well :: tick where
  "ends_well = \<lparr>waited = CLD_EXITED 0, now = (0, 9), polled = Poll_timeout\<rparr>"

definition calm_start :: start_env where
  "calm_start = \<lparr>start_log = quiet_log, local_time = \<lparr>tm_year = 2008, tm_mon = 7, tm_mday = 1, tm_hour = 12, tm_min = 30, tm_sec = 5\<rparr>,
     mkdir = (\<lambda>_. Mkdir_ok), open_dir = (\<lambda>_. True)\<rparr>"

definition one_test :: filesys where
  "one_test = \<lparr>listing = (\<lambda>p. if p = ''tests'' then Some [''01-a''] else None), mode_of = (\<lambda>_. Some 0x81ED)\<rparr>"

definition calm_world :: world where
  "calm_world = \<lparr>junk_of = (\<lambda>_. NULc), tree = one_test, conf_files = no_conf, search_fuel = 3, test_start = calm_start,
     test_envs = (\<lambda>_. calm [ends_well]), bench_start = calm_start, bench_envs = (\<lambda>_. calm [ends_well])\<rparr>"

definition quiet_dmesg :: dmesg where
  "quiet_dmesg = \<lparr>kbuf = Some [CHR ''o'', CHR ''k'', NULc, NULc], kbufsize = 4\<rparr>"

lemma no_badness: "\<not> sublist ''Badness'' ''ok''"
  by (auto dest: sublist_length_le)

lemma quiet_dmesg_check:
  "dmesg_check (\<lambda>_. NULc) quiet_log fresh_log = Inr (0, quiet_dmesg)"
  "dmesg_check (\<lambda>_. NULc) quiet_log quiet_dmesg = Inr (0, quiet_dmesg)"
  using no_badness
  by (simp_all add: dmesg_check_def quiet_log_def fresh_log_def quiet_dmesg_def grow_def MAX_ALLOC_def
      strstr_found_def of_truth_def upt_rec)

lemma calm_can_start: "can_start (\<lambda>_. NULc) calm_start fresh_log quiet_dmesg"
  using quiet_dmesg_check(1) by (simp add: can_start_def calm_start_def truth_def)

lemma one_test_found:
  "\<exists>t. find_tests 3 one_test ''tests'' TEST_TYPE_TEST = Inr (Some [t]) \<and> t = test_create ''tests/01-a'' TEST_TYPE_TEST"
  by (simp add: find_tests_def eval_nat_numeral one_test_def at_str_def small_modes isdigit_def
      sort_tests_def del: test_create_def)

lemma calm_run:
  "\<exists>t' p' out rq. run_test (\<lambda>_. NULc) no_conf True (calm [ends_well]) (boot\<lparr>log_buf := quiet_dmesg\<rparr>)
      (test_create ''tests/01-a'' TEST_TYPE_TEST) = Inr (0, t', p', out, rq)"
  by (simp add: run_test_def test_read_config_def no_conf_def test_create_def split_path_def
      test_should_run_def boot_def calm_def ends_well_def verdict_def quiet_dmesg_check pass_with_def test_pass_def
      truth_def Let_def)

theorem main_exit_status_witness:
  "\<exists>out us p'. main calm_world boot [] [] = Inr (0, out) \<and>
     ran (\<lambda>_. NULc) no_conf True (\<lambda>_. calm [ends_well]) 0 (boot\<lparr>log_buf := quiet_dmesg\<rparr>)
       [test_create ''tests/01-a'' TEST_TYPE_TEST] [0] us p'"
proof -
  obtain t' p' out rq where t': "run_test (\<lambda>_. NULc) no_conf True (calm [ends_well]) (boot\<lparr>log_buf := quiet_dmesg\<rparr>)
      (test_create ''tests/01-a'' TEST_TYPE_TEST) = Inr (0, t', p', out, rq)"
    using calm_run by blast
  have f: "find_tests (search_fuel calm_world) (tree calm_world) ''tests'' TEST_TYPE_TEST =
      Inr (Some [test_create ''tests/01-a'' TEST_TYPE_TEST])"
    using one_test_found by (auto simp: calm_world_def)
  have o: "read_options [] False False True = Opts False False True" by simp
  have d: "choose_dir [] = Some ''tests''" by (simp add: choose_dir_def TEST_DIR_def)
  have cs: "can_start (\<lambda>_. NULc) calm_start (log_buf boot) quiet_dmesg"
    using calm_can_start by (simp add: boot_def)
  have "\<exists>out. main calm_world boot [] [] = Inr (0, out)"
    unfolding main_def o opts.case d option.case run_everything_def f bnd_Inr
    using t' by (simp add: calm_world_def run_tests_start [OF cs] or_results)
  then obtain out2 where m: "main calm_world boot [] [] = Inr (0, out2)" by blast
  have "\<exists>d' rs us p'. can_start (\<lambda>_. NULc) calm_start (log_buf boot) d' \<and>
      ran (\<lambda>_. NULc) no_conf True (\<lambda>_. calm [ends_well]) 0 (boot\<lparr>log_buf := d'\<rparr>)
        [test_create ''tests/01-a'' TEST_TYPE_TEST] rs us p' \<and> set rs \<subseteq> {0}"
    using main_exit_status [OF m o d f] by (simp add: calm_world_def)
  then obtain d' rs us p2 where r: "can_start (\<lambda>_. NULc) calm_start (log_buf boot) d'"
      "ran (\<lambda>_. NULc) no_conf True (\<lambda>_. calm [ends_well]) 0 (boot\<lparr>log_buf := d'\<rparr>)
        [test_create ''tests/01-a'' TEST_TYPE_TEST] rs us p2" "set rs \<subseteq> {0}" by blast
  have "d' = quiet_dmesg" using r(1) cs by (auto simp: can_start_def)
  moreover have "rs = [0]" using ran_length [OF r(2)] r(3) by (cases rs) auto
  ultimately show ?thesis using m r(2) by blast
qed

text \<open>
  A missing or unreadable benchmark directory: when the tests have passed and
  benchmarks were asked for, a null result of \<open>find_tests\<close> is not looked at and the loop
  over the benchmarks follows it.
\<close>

theorem main_missing_benchmarks:
  assumes o: "read_options options False False True = Opts cont True en" and d: "choose_dir args = Some dir"
    and f: "find_tests (search_fuel w) (tree w) dir TEST_TYPE_TEST = Inr (Some ts)"
    and r: "run_tests (junk_of w) (conf_files w) (test_start w) (test_envs w) cont en p (Some ts) = Inr (0, ts', p', out)"
    and b: "find_tests (search_fuel w) (tree w) BENCHMARK_DIR TEST_TYPE_BENCHMARK = Inr None"
    and s: "can_start (junk_of w) (bench_start w) (log_buf p') d'"
  shows "main w p options args = Inl Bad_access"
  unfolding main_def o opts.case d option.case run_everything_def f bnd_Inr r prod.case Let_def
  by (simp add: b run_tests_start [OF s])

definition empty_world :: world where
  "empty_world = calm_world\<lparr>tree := \<lparr>listing = (\<lambda>p. if p = ''tests'' then Some [] else None), mode_of = (\<lambda>_. None)\<rparr>\<rparr>"

lemma empty_world_facts:
  "find_tests (search_fuel empty_world) (tree empty_world) ''tests'' ty = Inr (Some [])"
  "find_tests (search_fuel empty_world) (tree empty_world) BENCHMARK_DIR ty = Inr None"
  "can_start (junk_of empty_world) (test_start empty_world) (log_buf boot) quiet_dmesg"
  "can_start (junk_of empty_world) (bench_start empty_world) quiet_dmesg quiet_dmesg"
  using calm_can_start quiet_dmesg_check(2)
  by (simp_all add: empty_world_def calm_world_def find_tests_def eval_nat_numeral sort_tests_def BENCHMARK_DIR_def
      boot_def can_start_def calm_start_def truth_def)

theorem main_missing_benchmarks_witness:
  "main empty_world boot ''b'' [] = Inl Bad_access"
proof -
  have r: "run_tests (junk_of empty_world) (conf_files empty_world) (test_start empty_world) (test_envs empty_world)
      False True boot (Some []) = Inr (0, Some [], boot\<lparr>log_buf := quiet_dmesg\<rparr>, [])"
    using empty_world_facts(3) by (simp add: run_tests_start)
  show ?thesis
    by (rule main_missing_benchmarks [OF _ _ empty_world_facts(1) r empty_world_facts(2), where d' = quiet_dmesg])
      (simp_all add: choose_dir_def TEST_DIR_def empty_world_facts)
qed

text \<open>
  When "No tests found" is reported: only for a directory that cannot be searched.
  A directory without any test counts as a run of no tests and is a success.
\<close>

theorem main_no_tests:
  assumes o: "read_options options False False True = Opts cont False en" and d: "choose_dir args = Some dir"
    and f: "find_tests (search_fuel w) (tree w) dir TEST_TYPE_TEST = Inr found"
    and s: "can_start (junk_of w) (test_start w) (log_buf p) d'"
  shows "(found = None \<longrightarrow> main w p options args = Inr (EXIT_FAILURE, [No_tests_found])) \<and>
    (found = Some [] \<longrightarrow> main w p options args = Inr (EXIT_SUCCESS, [Summary 0 0 0 0]))"
  unfolding main_def o opts.case d option.case run_everything_def f bnd_Inr
  by (simp add: run_tests_start [OF s] print_summary_def EXIT_SUCCESS_def Let_def)

theorem main_no_tests_witness:
  "main empty_world boot [] [] = Inr (EXIT_SUCCESS, [Summary 0 0 0 0])"
  using main_no_tests [OF _ _ empty_world_facts(1) empty_world_facts(3), of "[]" False True "[]"]
  by (simp add: choose_dir_def TEST_DIR_def)

lemma working_dir_ignores_minutes: "working_dir (t\<lparr>tm_min := m\<rparr>) = working_dir t"
  by (simp add: working_dir_def)

end
