(* ===== verification/Child_Exec.thy ===== *)
theory Child_Exec
  imports Run_Props
begin

text \<open>
  What the child process of \<open>run_test\<close> starts: the names \<open>"../<path>"\<close> and \<open>"../<dir>"\<close> that it
  builds are looked up in the working directory that \<open>run_tests\<close> has made, one level below the
  directory in which the runner was started.  Names are resolved as POSIX says, without
  symbolic links; a directory is the list of the names that lead to it from the root.
\<close>

section \<open>Resolution of names\<close>

fun split_slash :: "string \<Rightarrow> string list" where
  "split_slash [] = [[]]"
| "split_slash (c # cs) =
     (if c = CHR ''/'' then [] # split_slash cs
      else (case split_slash cs of [] \<Rightarrow> [[c]] | w # ws \<Rightarrow> (c # w) # ws))"

definition components :: "string \<Rightarrow> string list" where
  "components p = filter (\<lambda>w. w \<noteq> [] \<and> w \<noteq> ''.'') (split_slash p)"

fun walk :: "string list \<Rightarrow> string list \<Rightarrow> string list" where
  "walk d [] = d"
| "walk d (w # ws) = walk (if w = ''..'' then butlast d else d @ [w]) ws"

definition absolute :: "string \<Rightarrow> bool" where
  "absolute p \<longleftrightarrow> (case p of [] \<Rightarrow> False | c # _ \<Rightarrow> c = CHR ''/'')"

definition resolve :: "string list \<Rightarrow> string \<Rightarrow> string list" where
  "resolve cwd p = walk (if absolute p then [] else cwd) (components p)"

lemma split_slash_plain: "CHR ''/'' \<notin> set w \<Longrightarrow> split_slash w = [w]"
  by (induction w) auto

lemma components_up [simp]: "components (CHR ''.'' # CHR ''.'' # CHR ''/'' # p) = ''..'' # components p"
  by (simp add: components_def)

lemma walk_down: "''..'' \<notin> set ws \<Longrightarrow> walk d ws = d @ ws"
  by (induction ws arbitrary: d) auto

lemma resolve_up: "resolve (d @ [w]) (''../'' @ p) = walk d (components p)"
  by (simp add: resolve_def absolute_def)

text \<open>From a directory below, \<open>"../"\<close> in front of a relative name leads to the same place.\<close>

lemma resolve_up_relative: "\<not> absolute p \<Longrightarrow> resolve (d @ [w]) (''../'' @ p) = resolve d p"
  unfolding resolve_up by (simp add: resolve_def)

section \<open>The working directory\<close>

lemma show_nat_digits: "c \<in> set (show_nat n) \<Longrightarrow> isdigit c"
proof (induction n rule: show_nat.induct)
  case (1 n)
  have "\<forall>k\<in>set [0..<10]. isdigit (char_of (48 + k :: nat))" by code_simp
  then have d: "isdigit (char_of (48 + k :: nat))" if "k < 10" for k using that by simp
  show ?case
  proof (cases "n < 10")
    case True
    then show ?thesis using "1.prems" d [of n] by (simp add: show_nat.simps [of n])
  next
    case False
    then show ?thesis using "1.prems" "1.IH" d [of "n mod 10"] by (auto simp: show_nat.simps [of n])
  qed
qed

lemma resolve_working_dir: "resolve cwd (working_dir t) = cwd @ [working_dir t]"
proof -
  have "CHR ''/'' \<notin> set (working_dir t)"
    by (auto simp: working_dir_def two_digits_def isdigit_def dest!: show_nat_digits split: if_splits)
  then have "components (working_dir t) = [working_dir t]"
    by (simp add: components_def split_slash_plain) (simp add: working_dir_def)
  moreover have "\<not> absolute (working_dir t)" and "working_dir t \<noteq> ''..''"
    by (simp_all add: working_dir_def absolute_def)
  ultimately show ?thesis by (simp add: resolve_def)
qed

section \<open>What is started\<close>

lemma split_path_join:
  assumes "split_path p = Some (d, f)"
  shows "p = d @ CHR ''/'' # f" and "CHR ''/'' \<notin> set f"
proof -
  let ?P = "\<lambda>c. c \<noteq> CHR ''/''"
  have m: "CHR ''/'' \<in> set (rev p)" and d: "d = rev (tl (dropWhile ?P (rev p)))" and f: "f = rev (takeWhile ?P (rev p))"
    using assms by (auto simp: split_path_def split: if_splits)
  have "dropWhile ?P (rev p) \<noteq> []" using m by (simp add: dropWhile_eq_Nil_conv)
  then have "dropWhile ?P (rev p) = CHR ''/'' # tl (dropWhile ?P (rev p))"
    using hd_dropWhile [of ?P "rev p"] by (metis list.collapse)
  then have "rev p = rev f @ CHR ''/'' # rev d"
    using takeWhile_dropWhile_id [of ?P "rev p"] by (simp add: d f)
  then show "p = d @ CHR ''/'' # f" by (simp add: rev_swap)
  show "CHR ''/'' \<notin> set f" by (auto simp: f dest: set_takeWhileD)
qed

lemma absolute_append: "absolute (d @ CHR ''/'' # f) \<longleftrightarrow> d = [] \<or> absolute d"
  by (cases d) (auto simp: absolute_def)

text \<open>
  C31.  The child of \<open>run_test\<close>, once it is set up, starts the program of its test, with the
  directory of the test in front of its search path, or it exits with 1.  Both names are
  right when the path of the test is relative: seen from the working directory that
  \<open>run_tests\<close> made, they lead to the file and to the directory that the runner found.  When
  the path is absolute they do not: the root of the path is taken to be the directory in
  which the runner was started.
\<close>

theorem child_runs_test:
  assumes p: "split_path (path t) = Some (dir, fname)" and env: "path_env e = Some old"
    and ok: "dup_stdout_ok e" "dup_stderr_ok e" "fchdir_ok e"
    and wd: "wd = resolve cwd (working_dir tm)"
  shows "\<exists>prog bin. child_main e t =
      Inr (if exec_ok e prog then Child_exec prog (Some (bin @ '':'' @ old)) else Child_exit EXIT_FAILURE) \<and>
    (\<not> absolute (path t) \<longrightarrow> resolve wd prog = resolve cwd (path t) \<and> resolve wd bin = resolve cwd dir) \<and>
    (absolute (path t) \<and> ''..'' \<notin> set (components (path t)) \<longrightarrow> resolve wd prog = cwd @ resolve cwd (path t))"
proof (intro exI conjI impI)
  let ?prog = "''../'' @ path t" and ?bin = "''../'' @ dir"
  show "child_main e t =
      Inr (if exec_ok e ?prog then Child_exec ?prog (Some (?bin @ '':'' @ old)) else Child_exit EXIT_FAILURE)"
    by (simp add: child_main_def child_path_def p env ok)
  show "resolve wd ?prog = resolve cwd (path t)" "resolve wd ?bin = resolve cwd dir" if "\<not> absolute (path t)"
  proof -
    have "\<not> absolute dir" using that split_path_join(1) [OF p] by (simp add: absolute_append)
    with that show "resolve wd ?prog = resolve cwd (path t)" "resolve wd ?bin = resolve cwd dir"
      unfolding wd resolve_working_dir by (simp_all only: resolve_up_relative not_False_eq_True)
  qed
  show "resolve wd ?prog = cwd @ resolve cwd (path t)"
    if "absolute (path t) \<and> ''..'' \<notin> set (components (path t))"
    using that unfolding wd resolve_working_dir resolve_up by (simp add: resolve_def walk_down)
qed

definition calm_child :: child_env where
  "calm_child = \<lparr>dup_stdout_ok = True, dup_stderr_ok = True, fchdir_ok = True, path_env = Some ''/bin'',
     exec_ok = (\<lambda>_. True)\<rparr>"

theorem child_runs_test_witness:
  "\<exists>prog bin. child_main calm_child (test_create ''tests/02-run/01-run'' TEST_TYPE_TEST) =
     Inr (Child_exec prog (Some (bin @ '':'' @ ''/bin''))) \<and>
   resolve [''src'', working_dir (local_time calm_start)] prog = [''src'', ''tests'', ''02-run'', ''01-run''] \<and>
   resolve [''src'', working_dir (local_time calm_start)] bin = [''src'', ''tests'', ''02-run'']"
proof -
  have p: "split_path (path (test_create ''tests/02-run/01-run'' TEST_TYPE_TEST)) = Some (''tests/02-run'', ''01-run'')"
    by (simp add: test_create_def split_path_def)
  have env: "path_env calm_child = Some ''/bin''" "dup_stdout_ok calm_child" "dup_stderr_ok calm_child" "fchdir_ok calm_child"
    and ok: "exec_ok calm_child prog" for prog
    by (simp_all add: calm_child_def)
  have "resolve [''src''] ''tests/02-run/01-run'' = [''src'', ''tests'', ''02-run'', ''01-run'']"
    "resolve [''src''] ''tests/02-run'' = [''src'', ''tests'', ''02-run'']" "\<not> absolute ''tests/02-run/01-run''"
    by (simp_all add: resolve_def components_def absolute_def)
  moreover have "path (test_create ''tests/02-run/01-run'' TEST_TYPE_TEST) = ''tests/02-run/01-run''"
    by (simp add: test_create_def)
  ultimately show ?thesis
    using child_runs_test [OF p env refl, of "[''src'']" "local_time calm_start"] ok
    by (simp only: resolve_working_dir append.simps if_True) auto
qed

end
