(* ===== verification/Talloc_Pool.thy ===== *)
theory Talloc_Pool
  imports Talloc_Text Talloc_Reach
begin

unbundle bit_operations_syntax

text \<open>
  The allocator as its clients see it, who build a structure with strings below it and free
  it as a whole: an interface, what follows from it for such a client, and the proof that
  \<open>talloc_named_const\<close>, \<open>talloc_strdup\<close> and \<open>talloc_free\<close> provide it.
\<close>

section \<open>The interface\<close>

text \<open>
  \<open>holds k s0 s p\<close>: since the memory was \<open>s0\<close>, \<open>k\<close> blocks have come into use, all of them owned by
  \<open>p\<close>.
\<close>

locale pool =
  fixes inv :: "'s \<Rightarrow> bool"
    and used :: "'s \<Rightarrow> 'a \<Rightarrow> bool"
    and holds :: "nat \<Rightarrow> 's \<Rightarrow> 's \<Rightarrow> 'p \<Rightarrow> bool"
    and null :: 'p
    and text_at :: "'s \<Rightarrow> 'p \<Rightarrow> string res"
    and new :: "'s \<Rightarrow> ('p \<times> 's) res"
    and dup :: "'s \<Rightarrow> 'p \<Rightarrow> string \<Rightarrow> ('p \<times> 's) res"
    and release :: "nat \<Rightarrow> 's \<Rightarrow> 'p \<Rightarrow> (int \<times> 's) res"
  assumes new_law: "inv s \<Longrightarrow>
      new s = Inr (null, s) \<or> (\<exists>p t. new s = Inr (p, t) \<and> p \<noteq> null \<and> holds 1 s t p)"
    and dup_law: "holds k s0 s p \<Longrightarrow> NUL \<notin> set str \<Longrightarrow>
      dup s p str = Inr (null, s) \<or>
      (\<exists>q t. dup s p str = Inr (q, t) \<and> q \<noteq> null \<and> holds (k + 1) s0 t p \<and> text_at t q = Inr str)"
    and release_law: "holds k s0 s p \<Longrightarrow> 2 * k \<le> f \<Longrightarrow>
      \<exists>t. release f s p = Inr (0, t) \<and> inv t \<and> used t = used s0"
    and release_null: "release (Suc f) s null = Inr (-1, s)"
begin

text \<open>A structure with a string: at each stage what has been built can be given back.\<close>

lemma with_text:
  assumes "inv s" and "NUL \<notin> set str" and "4 \<le> f"
  obtains (no_struct) "new s = Inr (null, s)" "release f s null = Inr (-1, s)"
  | (no_text) p t u where "new s = Inr (p, t)" "p \<noteq> null" "dup t p str = Inr (null, t)"
      "release f t p = Inr (0, u)" "inv u" "used u = used s"
  | (built) p t q u v where "new s = Inr (p, t)" "p \<noteq> null" "dup t p str = Inr (q, u)" "q \<noteq> null"
      "text_at u q = Inr str" "release f u p = Inr (0, v)" "inv v" "used v = used s"
proof -
  obtain f' where f': "f = Suc f'" using assms(3) by (cases f) auto
  from new_law [OF assms(1)] show thesis
  proof (elim disjE exE conjE)
    assume "new s = Inr (null, s)"
    then show thesis by (rule no_struct) (simp add: f' release_null)
  next
    fix p t
    assume p: "new s = Inr (p, t)" "p \<noteq> null" "holds 1 s t p"
    from dup_law [OF p(3) assms(2)] show thesis
    proof (elim disjE exE conjE)
      assume "dup t p str = Inr (null, t)"
      then show thesis using release_law [OF p(3), of f] assms(3) no_text [OF p(1,2)] by auto
    next
      fix q u
      assume q: "dup t p str = Inr (q, u)" "q \<noteq> null" "holds (1 + 1) s u p" "text_at u q = Inr str"
      then show thesis using release_law [OF q(3), of f] assms(3) built [OF p(1,2) q(1,2,4)] by auto
    qed
  qed
qed

end

section \<open>The provider\<close>

definition pool_inv :: "libc \<Rightarrow> tstate \<Rightarrow> bool" where
  "pool_inv E s \<longleftrightarrow> malloc_ok E \<and> good s \<and> ctx_ok s (eff_ctx s NULL)"

definition pool_holds :: "libc \<Rightarrow> nat \<Rightarrow> tstate \<Rightarrow> tstate \<Rightarrow> addr \<Rightarrow> bool" where
  "pool_holds E k s0 s p \<longleftrightarrow> malloc_ok E \<and> ctx_ok s0 (eff_ctx s0 NULL) \<and> null_context s = null_context s0 \<and>
     (\<exists>a ch rf. p = TC_PTR_FROM_CHUNK a \<and> heap {} s ch rf \<and> ranked ch \<and> live s a \<and>
        plain E s rf (sub ch a) \<and> card (sub ch a) = k \<and> (\<forall>x\<in>sub ch a. \<not> live s0 x) \<and>
        live s = (\<lambda>x. x \<in> sub ch a \<or> live s0 x))"

lemma pool_new:
  assumes "pool_inv E s"
  shows "talloc_named_const E s NULL n nm = Inr (NULL, s) \<or>
    (\<exists>p t. talloc_named_const E s NULL n nm = Inr (p, t) \<and> p \<noteq> NULL \<and> pool_holds E 1 s t p)"
proof -
  obtain ch rf where h: "heap {} s ch rf" "ranked ch" and E: "malloc_ok E" and ctx: "ctx_ok s (eff_ctx s NULL)"
    using assms by (auto simp: pool_inv_def good_def)
  from heap_named_const [OF h(1) E ctx, of n nm] show ?thesis
  proof (elim disjE exE conjE)
    fix a t ch1
    assume run: "u_talloc_named_const E s NULL n nm = Inr (TC_PTR_FROM_CHUNK a, t)"
      and post: "alloc_post s (eff_ctx s NULL) n ch rf a t ch1"
    note P = post [unfolded alloc_post_def]
    have r1: "ranked ch1" using ranked_new [OF h(2) _ _ ctx, of a] P by simp
    have "ch1 a = []" using P ctx by (auto simp: ctx_ok_def fadd_def TC_PTR_FROM_CHUNK_def)
    then have sub: "sub ch1 a = {a}" by (rule sub_leaf)
    have h1: "heap {} t ch1 rf" and la: "\<not> live s a" "live t = (\<lambda>x. x = a \<or> live s x)" "null_context t = null_context s"
      and pl: "plain E t rf (sub ch1 a)"
      using P sub by (metis, metis, metis, metis same_but_def, simp add: plain_def)
    have "pool_holds E 1 s t (TC_PTR_FROM_CHUNK a)"
      unfolding pool_holds_def
    proof (intro conjI exI)
      show "live t = (\<lambda>x. x \<in> sub ch1 a \<or> live s x)" by (simp add: la(2) sub)
    qed (use h1 r1 la pl E ctx in \<open>simp_all add: sub\<close>)
    moreover have "TC_PTR_FROM_CHUNK a \<noteq> NULL" by simp
    ultimately show ?thesis using run unfolding talloc_named_const_def by blast
  qed (simp add: talloc_named_const_def)
qed

lemma sub_fadd_leaf:
  assumes "ch b = []" and "a \<noteq> b"
  shows "sub (fadd a b ch) a = insert b (sub ch a)"
proof
  have "x \<in> insert b (sub ch a)" if "x \<in> sub (fadd a b ch) a" for x
    using that assms by (induction rule: sub_induct) (auto simp: fadd_def split: if_splits intro: sub_step)
  then show "sub (fadd a b ch) a \<subseteq> insert b (sub ch a)" by blast
  have "x \<in> sub (fadd a b ch) a" if "x \<in> sub ch a" for x
    using that by (induction rule: sub_induct) (auto simp: fadd_def intro: sub_step)
  moreover have "b \<in> sub (fadd a b ch) a" by (rule sub_step [OF sub_refl]) (simp add: fadd_def)
  ultimately show "insert b (sub ch a) \<subseteq> sub (fadd a b ch) a" by blast
qed

lemma pool_dup:
  assumes own: "pool_holds E k s0 s p" and str: "NUL \<notin> set str"
  shows "talloc_strdup E s p (Some str) = Inr (NULL, s) \<or>
    (\<exists>q t. talloc_strdup E s p (Some str) = Inr (q, t) \<and> q \<noteq> NULL \<and> pool_holds E (k + 1) s0 t p \<and>
       string_at t q = Inr str)"
proof -
  obtain a ch rf where E: "malloc_ok E" and ctx0: "ctx_ok s0 (eff_ctx s0 NULL)" "null_context s = null_context s0"
    and p: "p = TC_PTR_FROM_CHUNK a" and h: "heap {} s ch rf" and r: "ranked ch" and la: "live s a"
    and pl: "plain E s rf (sub ch a)" and k: "card (sub ch a) = k" and new: "\<forall>x\<in>sub ch a. \<not> live s0 x"
    and lv: "live s = (\<lambda>x. x \<in> sub ch a \<or> live s0 x)"
    using own unfolding pool_holds_def by blast
  have e: "eff_ctx s p = p" "p \<noteq> NULL" "p - TC_HDR_SIZE = a" by (simp_all add: eff_ctx_def p)
  have ctx: "ctx_ok s (eff_ctx s p)" unfolding e(1) ctx_ok_def using p la by blast
  have dup: "talloc_strdup E s p (Some str) = u_talloc_strlendup E s p str (length str)"
    by (simp add: talloc_strdup_def)
  note S = strlendup_string [OF h E ctx order_refl str, unfolded e(1) e(3) if_not_P [OF e(2)]]
  from S show ?thesis
  proof (elim disjE exE conjE)
    fix b t
    assume run: "u_talloc_strlendup E s p str (length str) = Inr (TC_PTR_FROM_CHUNK b, t)"
      and b: "\<not> live s b" "string_at t (TC_PTR_FROM_CHUNK b) = Inr (take (length str) str)"
        "fld tc_destructor DNull t b = DNull" "live t = (\<lambda>x. x = b \<or> live s x)" "same_but {b} s t"
        "heap {} t (fadd a b ch) rf"
    have ab: "a \<noteq> b" and chb: "ch b = []" and rb: "rf b = []"
      using b(1) la tree_invD(3) [OF heapD(1) [OF h], of b] refs_invD(1) [OF heapD(2) [OF h], of b] by auto
    note sub = sub_fadd_leaf [where ch = ch, OF chb ab]
    have nb: "b \<notin> sub ch a" using b(1) lv by auto
    have "ranked (fadd a b ch)"
      using ranked_new [where s = s, OF r chb b(1) ctx] unfolding e(1) e(3) if_not_P [OF e(2)] .
    moreover have "fld tc_destructor DNull t x = fld tc_destructor DNull s x" if "x \<in> sub ch a" for x
      using that nb same_but_fld [OF b(5), of x tc_destructor DNull] by (auto simp: core_def wipe_def)
    then have "plain E t rf (sub (fadd a b ch) a)" using pl rb b(3) by (simp add: sub plain_def)
    moreover have "card (sub (fadd a b ch) a) = k + 1"
      using k nb sub_finite [OF heapD(1) [OF h] la] by (simp add: sub)
    moreover have "live t = (\<lambda>x. x \<in> sub (fadd a b ch) a \<or> live s0 x)" "\<forall>x\<in>sub (fadd a b ch) a. \<not> live s0 x"
      using b(1,4) lv new by (auto simp: sub)
    moreover have "null_context t = null_context s0" using b(5) ctx0(2) by (simp add: same_but_def)
    moreover have "live t a" using la b(4) by simp
    ultimately have "pool_holds E (k + 1) s0 t p"
      unfolding pool_holds_def using E ctx0(1) p b(6) by blast
    moreover have "talloc_strdup E s p (Some str) = Inr (TC_PTR_FROM_CHUNK b, t)" "string_at t (TC_PTR_FROM_CHUNK b) = Inr str"
      using run b(2) dup by simp_all
    moreover have "TC_PTR_FROM_CHUNK b \<noteq> NULL" by simp
    ultimately show ?thesis by blast
  qed (simp add: dup)
qed

lemma pool_release:
  assumes own: "pool_holds E k s0 s p" and f: "2 * k \<le> f"
  shows "\<exists>t. talloc_free E f s p = Inr (0, t) \<and> pool_inv E t \<and> live t = live s0"
proof -
  obtain a ch rf where E: "malloc_ok E" and ctx0: "ctx_ok s0 (eff_ctx s0 NULL)" "null_context s = null_context s0"
    and p: "p = TC_PTR_FROM_CHUNK a" and h: "heap {} s ch rf" and r: "ranked ch" and la: "live s a"
    and pl: "plain E s rf (sub ch a)" and k: "card (sub ch a) = k" and new: "\<forall>x\<in>sub ch a. \<not> live s0 x"
    and lv: "live s = (\<lambda>x. x \<in> sub ch a \<or> live s0 x)"
    using own unfolding pool_holds_def by blast
  obtain t where t: "talloc_free E f s p = Inr (0, t)" "heap {} t (prune (sub ch a) ch) (rdrop (sub ch a) rf)"
      "same_but (sub ch a) s t" "live t = (\<lambda>x. live s x \<and> x \<notin> sub ch a)"
    using free_main(1) [OF h r la _ pl, of f] f k by (auto simp: talloc_free_def released_def p)
  have used: "live t = live s0" using t(4) lv new by (auto simp: fun_eq_iff)
  moreover have "null_context t = null_context s0" using t(3) ctx0(2) by (simp add: same_but_def)
  ultimately have "ctx_ok t (eff_ctx t NULL)" using ctx0(1) by (simp add: ctx_ok_def eff_ctx_def)
  then show ?thesis using t(1) used E goodI [OF t(2) ranked_prune [OF r]] by (auto simp: pool_inv_def)
qed

interpretation talloc_pool: pool "pool_inv E" live "pool_holds E" NULL string_at
  "\<lambda>s. talloc_named_const E s NULL n nm" "\<lambda>s p str. talloc_strdup E s p (Some str)" "talloc_free E" for E n nm
proof
  show "talloc_free E (Suc f) s NULL = Inr (-1, s)" for f s by (simp add: talloc_free_def)
qed (rule pool_new pool_dup pool_release; assumption)+

end
