(* ===== verification/Slowfs.thy ===== *)
theory Slowfs
  imports Clib Talloc_Pool
begin

unbundle bit_operations_syntax

text \<open>
  \<open>lib/slowfs/slowfs.c\<close>: a file system of one slow file, for tests that need a read to take
  its time.  FUSE is a library the code calls: whether a call succeeds is a parameter, the
  calls made are part of the result.  The memory is that of \<open>talloc\<close>.
\<close>

section \<open>The file system operations\<close>

definition FILE_SIZE :: nat where "FILE_SIZE = 4096"
definition file_name :: string where "file_name = ''/slowfs''"

definition ENOENT :: int where "ENOENT = 2"
definition EACCES :: int where "EACCES = 13"
definition O_RDONLY :: "32 word" where "O_RDONLY = 0"

record statbuf =
  st_mode :: "32 word"
  st_nlink :: nat
  st_size :: nat

definition slowfs_getattr :: "string \<Rightarrow> int \<times> statbuf" where
  "slowfs_getattr p =
     (let zero = \<lparr>st_mode = 0, st_nlink = 0, st_size = 0\<rparr> in
      if p = ''/'' then (0, zero\<lparr>st_mode := S_IFDIR OR 0x1ED, st_nlink := 2\<rparr>)
      else if p = file_name then (0, zero\<lparr>st_mode := S_IFREG OR 0x124, st_nlink := 1, st_size := FILE_SIZE\<rparr>)
      else (- ENOENT, zero))"

text \<open>The names handed to \<open>filler\<close>.\<close>

definition slowfs_readdir :: "string \<Rightarrow> int \<times> string list" where
  "slowfs_readdir p =
     (if p \<noteq> ''/'' then (- ENOENT, []) else (0, [''.'', ''..'', drop 1 file_name]))"

definition slowfs_open :: "string \<Rightarrow> 32 word \<Rightarrow> int" where
  "slowfs_open p flags =
     (if p \<noteq> file_name then - ENOENT else if flags AND 3 \<noteq> O_RDONLY then - EACCES else 0)"

text \<open>The result, the bytes stored, the seconds slept; the path and the offset are not used.\<close>

definition slowfs_read :: "string \<Rightarrow> nat \<Rightarrow> nat \<Rightarrow> int \<times> char list \<times> nat" where
  "slowfs_read p len offset = (sint (word_of_nat len :: 32 word), replicate len NULc, 2)"

section \<open>Mounting\<close>

datatype fuse_call =
    Fuse_mount string | Fuse_new | Fuse_daemonize | Pthread_create
  | Fuse_loop | Fuse_exit | Fuse_unmount string | Pthread_join

record fuse_env =
  mount_ok :: bool
  new_ok :: bool
  daemonize_ok :: bool
  thread_ok :: bool
  loop_rc :: int

definition SIZEOF_SLOWFS :: nat where "SIZEOF_SLOWFS = 40"

text \<open>The fields of \<open>struct slowfs\<close> that are used later.\<close>

record slowfs =
  self :: addr
  mountpoint :: addr
  fuse_rc :: int

text \<open>The thread: it stays in \<open>fuse_loop\<close> until \<open>fuse_exit\<close>.\<close>

definition slowfs_fn :: "fuse_env \<Rightarrow> slowfs \<Rightarrow> slowfs \<times> fuse_call list" where
  "slowfs_fn fe sf = (sf\<lparr>fuse_rc := loop_rc fe\<rparr>, [Fuse_loop])"

text \<open>\<open>out_free\<close>: the memory is freed; nothing is done about the calls made so far.\<close>

definition out_free :: "libc \<Rightarrow> nat \<Rightarrow> tstate \<Rightarrow> addr \<Rightarrow> fuse_call list \<Rightarrow> (slowfs option \<times> tstate \<times> fuse_call list) res" where
  "out_free E f s p calls = bnd (talloc_free E f s p) (\<lambda>(_, s). Inr (None, s, calls))"

definition slowfs_mount ::
    "libc \<Rightarrow> nat \<Rightarrow> fuse_env \<Rightarrow> tstate \<Rightarrow> string \<Rightarrow> (slowfs option \<times> tstate \<times> fuse_call list) res" where
  "slowfs_mount E f fe s dir =
     bnd (talloc_named_const E s NULL SIZEOF_SLOWFS (NConst ''struct slowfs'')) (\<lambda>(p, s).
     if p = NULL then out_free E f s p [] else
     bnd (talloc_strdup E s p (Some dir)) (\<lambda>(m, s).
     if m = NULL then out_free E f s p [] else
     if \<not> mount_ok fe then out_free E f s p [Fuse_mount dir] else
     if \<not> new_ok fe then out_free E f s p [Fuse_mount dir, Fuse_new] else
     if \<not> daemonize_ok fe then out_free E f s p [Fuse_mount dir, Fuse_new, Fuse_daemonize] else
     if \<not> thread_ok fe then out_free E f s p [Fuse_mount dir, Fuse_new, Fuse_daemonize, Pthread_create] else
     Inr (Some \<lparr>self = p, mountpoint = m, fuse_rc = 0\<rparr>, s,
          [Fuse_mount dir, Fuse_new, Fuse_daemonize, Pthread_create])))"

definition slowfs_unmount :: "libc \<Rightarrow> nat \<Rightarrow> tstate \<Rightarrow> slowfs \<Rightarrow> (tstate \<times> fuse_call list) res" where
  "slowfs_unmount E f s sf =
     bnd (string_at s (mountpoint sf)) (\<lambda>dir.
     bnd (talloc_free E f s (self sf)) (\<lambda>(_, s).
     Inr (s, [Fuse_exit, Fuse_unmount dir, Pthread_join])))"

section \<open>The memory of a mount\<close>

lemma pool_invI:
  assumes "heap {} s ch rf" and "ranked ch" and "malloc_ok E" and "ctx_ok s (eff_ctx s NULL)"
  shows "pool_inv E s"
  using goodI [OF assms(1,2)] assms(3,4) by (simp add: pool_inv_def)

lemma pool_inv_heap: "pool_inv E s \<Longrightarrow> \<exists>ch rf. heap {} s ch rf"
  by (auto simp: pool_inv_def good_def)

text \<open>
  A mount fails or succeeds.  Either way the memory it took can be given back: by itself when
  it fails, by \<open>slowfs_unmount\<close> when it succeeds.
\<close>

lemma mount_cases:
  assumes inv: "pool_inv E s" and str: "NUL \<notin> set dir" and f: "4 \<le> f"
  obtains (fails) s' calls where "slowfs_mount E f fe s dir = Inr (None, s', calls)" "live s' = live s"
      "pool_inv E s'" "\<forall>d. Fuse_unmount d \<notin> set calls"
      "calls = [] \<or> hd calls = Fuse_mount dir \<and> (mount_ok fe \<longrightarrow> 2 \<le> length calls)"
  | (works) sf s1 s' where "mount_ok fe" "new_ok fe" "daemonize_ok fe" "thread_ok fe"
      "slowfs_mount E f fe s dir = Inr (Some sf, s1, [Fuse_mount dir, Fuse_new, Fuse_daemonize, Pthread_create])"
      "slowfs_unmount E f s1 sf = Inr (s', [Fuse_exit, Fuse_unmount dir, Pthread_join])"
      "pool_inv E s'" "live s' = live s"
proof (cases rule: talloc_pool.with_text [OF inv str f, where n = SIZEOF_SLOWFS and nm = "NConst ''struct slowfs''",
      case_names no_struct no_text built])
  case no_struct
  then show thesis using inv by (intro fails [of s "[]"]) (simp_all add: slowfs_mount_def out_free_def)
next
  case (no_text p t u)
  then show thesis by (intro fails [of u "[]"]) (simp_all add: slowfs_mount_def out_free_def)
next
  case (built p t q u v)
  show thesis
  proof (cases "mount_ok fe \<and> new_ok fe \<and> daemonize_ok fe \<and> thread_ok fe")
    case True
    let ?sf = "\<lparr>self = p, mountpoint = q, fuse_rc = 0\<rparr>"
    have "slowfs_unmount E f u ?sf = Inr (v, [Fuse_exit, Fuse_unmount dir, Pthread_join])"
      using built by (simp add: slowfs_unmount_def)
    with True built show thesis by (intro works [of ?sf u v]) (simp_all add: slowfs_mount_def)
  next
    case bad: False
    define calls where "calls = Fuse_mount dir #
      (if \<not> mount_ok fe then [] else Fuse_new # (if \<not> new_ok fe then [] else Fuse_daemonize #
        (if \<not> daemonize_ok fe then [] else [Pthread_create])))"
    have "slowfs_mount E f fe s dir = Inr (None, v, calls)"
      using built bad by (auto simp: slowfs_mount_def out_free_def calls_def)
    then show thesis using built(8,7) by (rule fails) (auto simp: calls_def)
  qed
qed

text \<open>
  C34.  A failed \<open>slowfs_mount\<close> gives back the memory it took, wherever it fails, but not the
  mount: it never calls \<open>fuse_unmount\<close>, although after a failure of \<open>fuse_new\<close>,
  \<open>fuse_daemonize\<close> or \<open>pthread_create\<close> the file system has been mounted.
\<close>

theorem slowfs_mount_failure:
  assumes h: "heap {} s ch rf" and r: "ranked ch" and E: "malloc_ok E" and ctx: "ctx_ok s (eff_ctx s NULL)"
    and str: "NUL \<notin> set dir" and f: "4 \<le> f"
    and bad: "\<not> (mount_ok fe \<and> new_ok fe \<and> daemonize_ok fe \<and> thread_ok fe)"
  shows "\<exists>s' calls. slowfs_mount E f fe s dir = Inr (None, s', calls) \<and> live s' = live s \<and>
    (\<exists>ch' rf'. heap {} s' ch' rf') \<and> (\<forall>d. Fuse_unmount d \<notin> set calls) \<and>
    (calls = [] \<or> hd calls = Fuse_mount dir \<and> (mount_ok fe \<longrightarrow> 2 \<le> length calls))"
proof (cases rule: mount_cases [OF pool_invI [OF h r E ctx] str f, where fe = fe, case_names fails works])
  case fails
  then show ?thesis using pool_inv_heap by blast
next
  case works
  then show ?thesis using bad by blast
qed

definition no_thread :: fuse_env where
  "no_thread = \<lparr>mount_ok = True, new_ok = True, daemonize_ok = True, thread_ok = False, loop_rc = 0\<rparr>"

theorem slowfs_mount_failure_witness:
  "\<exists>s' calls. slowfs_mount arena_env 4 no_thread demo ''mnt'' = Inr (None, s', calls) \<and> live s' = live demo"
proof -
  have "ctx_ok demo (eff_ctx demo NULL)" by (simp add: ctx_ok_def eff_ctx_def demo_def)
  from slowfs_mount_failure [OF demo_heap demo_ranked arena_ok(1) this, of "''mnt''" 4 no_thread]
  show ?thesis by (auto simp: no_thread_def)
qed

text \<open>
  C35.  A successful mount can be undone: \<open>slowfs_unmount\<close> ends the loop, unmounts the
  directory that was mounted, waits for the thread, and gives back all memory that
  \<open>slowfs_mount\<close> took.
\<close>

theorem slowfs_mount_unmount:
  assumes h: "heap {} s ch rf" and r: "ranked ch" and E: "malloc_ok E" and ctx: "ctx_ok s (eff_ctx s NULL)"
    and str: "NUL \<notin> set dir" and f: "4 \<le> f" and run: "slowfs_mount E f fe s dir = Inr (Some sf, s1, calls)"
  shows "calls = [Fuse_mount dir, Fuse_new, Fuse_daemonize, Pthread_create] \<and>
    (\<exists>s' ch' rf'. slowfs_unmount E f s1 sf = Inr (s', [Fuse_exit, Fuse_unmount dir, Pthread_join]) \<and>
       heap {} s' ch' rf' \<and> live s' = live s)"
  by (cases rule: mount_cases [OF pool_invI [OF h r E ctx] str f, where fe = fe, case_names fails works])
    (use run pool_inv_heap in auto)

definition all_well :: fuse_env where
  "all_well = \<lparr>mount_ok = True, new_ok = True, daemonize_ok = True, thread_ok = True, loop_rc = 0\<rparr>"

lemma strlendup_null:
  assumes "u_talloc_strlendup E s t p len = Inr (NULL, s')"
  shows "len + 1 \<ge> MAX_TALLOC_SIZE \<or> malloc E s (TC_HDR_SIZE + (len + 1)) = NULL"
proof (rule ccontr)
  assume "\<not> ?thesis"
  then have "r \<noteq> NULL" if "uu_talloc E s t (len + 1) = Inr (r, s1)" for r s1
    using that by (auto simp: uu_talloc_def Let_def bnd_eq_Inr TC_PTR_FROM_CHUNK_def TC_HDR_SIZE_eq split: if_splits)
  then show False using assms by (auto simp: u_talloc_strlendup_def bnd_eq_Inr split: if_splits)
qed

lemma no_memory_start:
  obtains ch rf where "heap {} no_memory ch rf" "ranked ch" "ctx_ok no_memory (eff_ctx no_memory NULL)"
  using no_memory_good by (auto simp: good_def ctx_ok_def eff_ctx_def no_memory_def)

lemma pool_holds_arena:
  assumes "pool_holds E 1 no_memory t 6080"
  shows "live t = (\<lambda>x. x = 6000)"
proof -
  obtain a ch where a: "6080 = TC_PTR_FROM_CHUNK a" and c: "card (sub ch a) = 1"
    and lv: "live t = (\<lambda>x. x \<in> sub ch a \<or> live no_memory x)"
    using assms unfolding pool_holds_def by blast
  have "a = 6000" using a by (simp add: TC_PTR_FROM_CHUNK_def TC_HDR_SIZE_eq)
  moreover have "sub ch a = {a}" using c by (metis card_1_singletonE singletonD sub_refl)
  ultimately show ?thesis using lv by (simp add: no_memory_def live_def)
qed

lemma arena_mounts:
  "\<exists>sf s1 calls. slowfs_mount arena_env 4 all_well no_memory ''mnt'' = Inr (Some sf, s1, calls)"
proof -
  obtain ch rf where h: "heap {} no_memory ch rf" "ranked ch" and c: "ctx_ok no_memory (eff_ctx no_memory NULL)"
    by (rule no_memory_start)
  have inv: "pool_inv arena_env no_memory" by (rule pool_invI [OF h arena_ok(1) c])
  let ?new = "\<lambda>s. talloc_named_const arena_env s NULL SIZEOF_SLOWFS (NConst ''struct slowfs'')"
  have "\<exists>t1. ?new no_memory = Inr (6080, t1)"
    by (simp add: talloc_named_const_def u_talloc_named_const_def uu_talloc_def MAX_TALLOC_SIZE_def
        arena_env_def arena_def no_memory_def init_block_def talloc_chunk_from_ptr_def acc
        TC_HDR_SIZE_eq new_chunk_def TC_PTR_FROM_CHUNK_def u_talloc_set_name_const_def TALLOC_MAGIC_def
        TALLOC_FLAG_FREE_def Let_def SIZEOF_SLOWFS_def)
  then obtain t1 where t1: "?new no_memory = Inr (6080, t1)" by blast
  have str: "NUL \<notin> set ''mnt''" by simp
  have own: "pool_holds arena_env 1 no_memory t1 6080"
    using pool_new [OF inv, of SIZEOF_SLOWFS "NConst ''struct slowfs''"] t1 by auto
  then have lv: "live t1 = (\<lambda>x. x = 6000)" by (rule pool_holds_arena)
  then have "\<not> live t1 7000" by simp
  then have nn: "arena t1 n \<noteq> NULL" for n by (auto simp: arena_def live_def split: list.split)
  have "talloc_strdup arena_env t1 6080 (Some ''mnt'') \<noteq> Inr (NULL, t1)"
  proof
    assume "talloc_strdup arena_env t1 6080 (Some ''mnt'') = Inr (NULL, t1)"
    then have "u_talloc_strlendup arena_env t1 6080 ''mnt'' 3 = Inr (NULL, t1)" by (simp add: talloc_strdup_def eval_nat_numeral)
    from strlendup_null [OF this] have "malloc arena_env t1 (TC_HDR_SIZE + (3 + 1)) = NULL"
      by (simp add: MAX_TALLOC_SIZE_def)
    moreover have "malloc arena_env = arena" by (simp add: arena_env_def)
    ultimately show False using nn by metis
  qed
  then obtain q t2 where "talloc_strdup arena_env t1 6080 (Some ''mnt'') = Inr (q, t2)" "q \<noteq> NULL"
    using pool_dup [OF own str] by blast
  then have "\<exists>sf s1 calls. slowfs_mount arena_env 4 all_well no_memory ''mnt'' = Inr (Some sf, s1, calls)"
    using t1 by (simp add: slowfs_mount_def all_well_def)
  then show ?thesis by blast
qed

theorem slowfs_mount_unmount_witness:
  "\<exists>sf s1 s' calls. slowfs_mount arena_env 4 all_well no_memory ''mnt'' = Inr (Some sf, s1, calls) \<and>
    slowfs_unmount arena_env 4 s1 sf = Inr (s', [Fuse_exit, Fuse_unmount ''mnt'', Pthread_join]) \<and>
    live s' = live no_memory"
proof -
  obtain ch rf where h: "heap {} no_memory ch rf" "ranked ch" and c: "ctx_ok no_memory (eff_ctx no_memory NULL)"
    by (rule no_memory_start)
  obtain sf s1 calls where m: "slowfs_mount arena_env 4 all_well no_memory ''mnt'' = Inr (Some sf, s1, calls)"
    using arena_mounts by blast
  have "NUL \<notin> set ''mnt''" by simp
  from slowfs_mount_unmount [OF h arena_ok(1) c this _ m] show ?thesis using m by auto
qed

section \<open>The files it shows\<close>

text \<open>
  The operations agree with each other: apart from the root, the paths that have
  attributes, that the listing of the root shows and that can be opened for reading are the
  same, one regular file; nothing can be opened for writing.
\<close>

lemma slowfs_consistent:
  "(fst (slowfs_getattr p) = 0 \<longleftrightarrow>
      p = ''/'' \<or> (\<exists>n. n \<in> set (snd (slowfs_readdir ''/'')) \<and> n \<notin> {''.'', ''..''} \<and> p = ''/'' @ n)) \<and>
   (slowfs_open p O_RDONLY = 0 \<longleftrightarrow> fst (slowfs_getattr p) = 0 \<and> S_ISREG (st_mode (snd (slowfs_getattr p)))) \<and>
   (slowfs_open p flags = 0 \<longleftrightarrow> slowfs_open p O_RDONLY = 0 \<and> flags AND 3 = 0)"
  by (auto simp: slowfs_getattr_def slowfs_readdir_def slowfs_open_def file_name_def Let_def ENOENT_def
      EACCES_def O_RDONLY_def S_ISREG_def S_IFMT_def S_IFREG_def S_IFDIR_def)

end
