(* ===== verification/Schedule_Fault.thy ===== *)
theory Schedule_Fault
  imports Slowfs
begin

unbundle bit_operations_syntax

text \<open>
  \<open>tests/14-dma/05-schedule-during-fault.c\<close>: a context reads, by a transfer, a mapped file of the
  slow file system, and is scheduled out meanwhile.  The program mounts \<open>slowfs\<close>, so this theory
  puts the host's part on top of \<open>Slowfs\<close> and of the memory of \<open>talloc\<close>; what the kernel and the
  context answer is a parameter.
\<close>

section \<open>The program\<close>

definition SLOWFS_DIR :: string where "SLOWFS_DIR = ''mnt''"
definition MAP_FAILED :: "64 word" where "MAP_FAILED = - 1"

definition spe_program :: "32 word list" where
  "spe_program =
     [0, 0, 0, 0, 0x40880000, 0x30800001, 0x40880002, 0x40800003, 0x40802004, 0x21a00800, 0x21a00881,
      0x3fe10081, 0x21a00901, 0x21a00982, 0x21a00a03, 0x21a00a84, 0x40800085, 0x40800086, 0x21a00b05,
      0x21a00b86, 0x01a00c07, 0x7c004288, 0x21000108, 0, 0x00001337]"

text \<open>The answers of the system, in the order in which the program asks.\<close>

record fault_env =
  f_ctx :: int
  f_ls_fd :: int
  f_regs_fd :: int
  f_ls_mapped :: bool
  f_ls :: "32 word list"
  mkdir_rc :: int
  f_fuse :: fuse_env
  open_fd :: int
  fstat_rc :: int
  slow_addr :: "64 word"
  map_errno :: int
  create_rc :: int
  f_status :: "32 word"
  read_rc :: int
  join_rc :: int

datatype fault_call = Mkdir string | Fuse fuse_call | Munmap "64 word" nat | Rmdir string

text \<open>The static variable \<open>slowfs\<close>, and \<open>slow_map\<close> with its length.\<close>

record slow_map =
  slowfs_ptr :: "slowfs option"
  map_addr :: "64 word"
  map_len :: nat

definition err_umount ::
    "libc \<Rightarrow> nat \<Rightarrow> tstate \<Rightarrow> slowfs \<Rightarrow> fault_call list \<Rightarrow> slow_map \<Rightarrow> int \<Rightarrow>
     (int \<times> slow_map \<times> tstate \<times> fault_call list) res" where
  "err_umount E f s sf calls m rc =
     bnd (slowfs_unmount E f s sf) (\<lambda>(s, fc). Inr (rc, m, s, calls @ map Fuse fc))"

text \<open>The kernel passes \<open>fstat\<close> on to the file system that has been mounted.\<close>

definition map_slowfs_file ::
    "libc \<Rightarrow> nat \<Rightarrow> fault_env \<Rightarrow> tstate \<Rightarrow> slow_map \<Rightarrow> (int \<times> slow_map \<times> tstate \<times> fault_call list) res" where
  "map_slowfs_file E f e s m =
     (if mkdir_rc e \<noteq> 0 then Inr (mkdir_rc e, m, s, [Mkdir SLOWFS_DIR])
      else
        bnd (slowfs_mount E f (f_fuse e) s SLOWFS_DIR) (\<lambda>(sf, s, fc).
        let m = m\<lparr>slowfs_ptr := sf\<rparr>; calls = Mkdir SLOWFS_DIR # map Fuse fc in
        case sf of
          None \<Rightarrow> Inr (-1, m, s, calls)
        | Some sf \<Rightarrow>
            if open_fd e < 0 then err_umount E f s sf calls m (open_fd e)
            else if fstat_rc e \<noteq> 0 then err_umount E f s sf calls m (fstat_rc e)
            else
              let m = m\<lparr>map_addr := slow_addr e\<rparr>; size = st_size (snd (slowfs_getattr file_name)) in
              if slow_addr e = MAP_FAILED then err_umount E f s sf calls m (map_errno e)
              else Inr (0, m\<lparr>map_len := size\<rparr>, s, calls)))"

definition unmap_slow_file :: "libc \<Rightarrow> nat \<Rightarrow> slow_map \<Rightarrow> tstate \<Rightarrow> (tstate \<times> fault_call list) res" where
  "unmap_slow_file E f m s = (case slowfs_ptr m of
       None \<Rightarrow> Inl Bad_access
     | Some sf \<Rightarrow>
         bnd (slowfs_unmount E f s sf) (\<lambda>(s, fc).
         Inr (s, (if map_addr m \<noteq> MAP_FAILED then [Munmap (map_addr m) (map_len m)] else []) @
                 map Fuse fc @ [Rmdir SLOWFS_DIR])))"

text \<open>The first two words get the address of the file.\<close>

definition load_store :: "32 word list \<Rightarrow> 64 word \<Rightarrow> 32 word list" where
  "load_store ls a =
     (spe_program @ drop (length spe_program) ls)[0 := ucast (drop_bit 32 a), 1 := ucast a]"

text \<open>
  The message about a wrong status has the status and the number that is called the expected
  one, which is not the one the status is compared with.
\<close>

datatype fault_msg = Wrong_status "32 word" "32 word"

record fault_result =
  exit_rc :: int
  msgs :: "fault_msg list"
  local_store :: "32 word list"
  memory :: tstate
  calls_made :: "fault_call list"

text \<open>Behind \<open>out_unmap\<close>.\<close>

definition out_unmap ::
    "libc \<Rightarrow> nat \<Rightarrow> slow_map \<Rightarrow> tstate \<Rightarrow> fault_call list \<Rightarrow> 32 word list \<Rightarrow> fault_msg list \<Rightarrow> int \<Rightarrow> fault_result res" where
  "out_unmap E f m s calls ls out rc =
     bnd (unmap_slow_file E f m s) (\<lambda>(s, c).
     Inr \<lparr>exit_rc = rc, msgs = out, local_store = ls, memory = s, calls_made = calls @ c\<rparr>)"

definition fault_main :: "libc \<Rightarrow> nat \<Rightarrow> fault_env \<Rightarrow> tstate \<Rightarrow> fault_result res" where
  "fault_main E f e s =
     (if f_ctx e < 0 \<or> f_ls_fd e < 0 \<or> f_regs_fd e < 0 \<or> \<not> f_ls_mapped e then Inl Aborted
      else
        bnd (map_slowfs_file E f e s \<lparr>slowfs_ptr = None, map_addr = 0, map_len = 0\<rparr>) (\<lambda>(rc, m, s, calls).
        if rc \<noteq> 0 then
          Inr \<lparr>exit_rc = 1, msgs = [], local_store = spe_program @ drop (length spe_program) (f_ls e),
               memory = s, calls_made = calls\<rparr>
        else
          let ls = load_store (f_ls e) (map_addr m) in
          if create_rc e \<noteq> 0 then out_unmap E f m s calls ls [] (create_rc e)
          else if read_rc e \<noteq> 1 then Inl Aborted
          else
            let rc = join_rc e in
            if rc \<noteq> 0 then out_unmap E f m s calls ls [] rc
            else if f_status e \<noteq> 0x13370002 then
              out_unmap E f m s calls ls [Wrong_status (f_status e) 0x1337002] rc
            else out_unmap E f m s calls ls [] 0))"

section \<open>What the program tests\<close>

lemma map_slowfs_cases:
  assumes inv: "pool_inv E s" and f: "4 \<le> f" and err: "map_errno e \<noteq> 0"
  obtains (fails) rc m' s' calls where "map_slowfs_file E f e s m = Inr (rc, m', s', calls)" "rc \<noteq> 0"
      "live s' = live s" "pool_inv E s'" "Rmdir SLOWFS_DIR \<notin> set calls"
  | (works) m' s1 s' where
      "map_slowfs_file E f e s m = Inr (0, m', s1, Mkdir SLOWFS_DIR #
         map Fuse [Fuse_mount SLOWFS_DIR, Fuse_new, Fuse_daemonize, Pthread_create])"
      "unmap_slow_file E f m' s1 = Inr (s', Munmap (slow_addr e) FILE_SIZE #
         map Fuse [Fuse_exit, Fuse_unmount SLOWFS_DIR, Pthread_join] @ [Rmdir SLOWFS_DIR])"
      "map_addr m' = slow_addr e" "live s' = live s" "pool_inv E s'"
proof -
  have dir: "NUL \<notin> set SLOWFS_DIR" by (simp add: SLOWFS_DIR_def)
  show thesis
  proof (cases "mkdir_rc e = 0")
    case False
    then show thesis using inv by (intro fails [of "mkdir_rc e" m s "[Mkdir SLOWFS_DIR]"]) (simp_all add: map_slowfs_file_def)
  next
    case mk: True
    show thesis
    proof (cases rule: mount_cases [OF inv dir f, where fe = "f_fuse e", case_names bad good])
      case (bad s' calls)
      then show thesis using mk
        by (intro fails [of "-1" "m\<lparr>slowfs_ptr := None\<rparr>" s' "Mkdir SLOWFS_DIR # map Fuse calls"])
          (auto simp: map_slowfs_file_def)
    next
      case (good sf s1 s')
      let ?fc = "[Fuse_mount SLOWFS_DIR, Fuse_new, Fuse_daemonize, Pthread_create]"
      let ?un = "[Fuse_exit, Fuse_unmount SLOWFS_DIR, Pthread_join]"
      show thesis
      proof (cases "open_fd e < 0 \<or> fstat_rc e \<noteq> 0 \<or> slow_addr e = MAP_FAILED")
        case True
        then have "\<exists>rc m'. rc \<noteq> 0 \<and>
            map_slowfs_file E f e s m = Inr (rc, m', s', Mkdir SLOWFS_DIR # map Fuse ?fc @ map Fuse ?un)"
          using mk err good(5,6)
          by (cases "open_fd e < 0"; cases "fstat_rc e = 0") (simp_all add: map_slowfs_file_def err_umount_def Let_def)
        then show thesis using good(7,8) by (elim exE conjE) (rule fails, assumption+, simp)
      next
        case False
        let ?m = "m\<lparr>slowfs_ptr := Some sf, map_addr := slow_addr e, map_len := FILE_SIZE\<rparr>"
        have "st_size (snd (slowfs_getattr file_name)) = FILE_SIZE"
          by (simp add: slowfs_getattr_def file_name_def)
        then have "map_slowfs_file E f e s m = Inr (0, ?m, s1, Mkdir SLOWFS_DIR # map Fuse ?fc)"
          using mk False good(5) by (simp add: map_slowfs_file_def Let_def)
        moreover have "unmap_slow_file E f ?m s1 = Inr (s', Munmap (slow_addr e) FILE_SIZE # map Fuse ?un @ [Rmdir SLOWFS_DIR])"
          using False good(6) by (simp add: unmap_slow_file_def)
        ultimately show thesis using good(7,8) by (intro works [of ?m s1]) simp_all
      qed
    qed
  qed
qed

lemma map_slowfs_status: "map_slowfs_file E f (e\<lparr>f_status := w\<rparr>) s m = map_slowfs_file E f e s m"
  by (simp add: map_slowfs_file_def Let_def cong: option.case_cong if_cong)

text \<open>
  C36.  The test cannot fail: whatever status the context ends with, the exit status of the
  program is the same; a wrong one only makes it print a message.  The exit status is 0
  exactly when the file was mapped and the thread could be started and joined; then all that
  was set up is taken down again.  Whenever the program returns, the memory taken is given
  back; but when the file cannot be mapped, the directory is left behind.
\<close>

theorem fault_main_ignores_status:
  assumes h: "heap {} s ch rf" and r: "ranked ch" and E: "malloc_ok E" and ctx: "ctx_ok s (eff_ctx s NULL)"
    and f: "4 \<le> f" and err: "map_errno e \<noteq> 0" and run: "fault_main E f e s = Inr r"
  shows "fault_main E f (e\<lparr>f_status := w\<rparr>) s =
      Inr (r\<lparr>msgs := if exit_rc r = 0 \<and> w \<noteq> 0x13370002 then [Wrong_status w 0x1337002] else []\<rparr>) \<and>
    (exit_rc r = 0 \<longleftrightarrow> Rmdir SLOWFS_DIR \<in> set (calls_made r) \<and> create_rc e = 0 \<and> join_rc e = 0) \<and>
    (Rmdir SLOWFS_DIR \<in> set (calls_made r) \<longrightarrow> calls_made r = Mkdir SLOWFS_DIR #
       map Fuse [Fuse_mount SLOWFS_DIR, Fuse_new, Fuse_daemonize, Pthread_create] @
       Munmap (slow_addr e) FILE_SIZE # map Fuse [Fuse_exit, Fuse_unmount SLOWFS_DIR, Pthread_join] @ [Rmdir SLOWFS_DIR]) \<and>
    live (memory r) = live s \<and> (\<exists>ch' rf'. heap {} (memory r) ch' rf')"
proof (cases rule: map_slowfs_cases [OF pool_invI [OF h r E ctx] f err, where m = "\<lparr>slowfs_ptr = None, map_addr = 0, map_len = 0\<rparr>",
      case_names fails works])
  case (fails rc m' s' calls)
  then show ?thesis
    using run by (auto dest: pool_inv_heap simp: fault_main_def map_slowfs_status split: if_splits)
next
  case (works m' s1 s')
  then show ?thesis
    using run by (auto dest: pool_inv_heap simp: fault_main_def map_slowfs_status out_unmap_def Let_def split: if_splits)
qed

definition fault_demo :: fault_env where
  "fault_demo = \<lparr>f_ctx = 3, f_ls_fd = 4, f_regs_fd = 5, f_ls_mapped = True, f_ls = replicate 0x10000 0, mkdir_rc = 0,
     f_fuse = all_well, open_fd = 6, fstat_rc = 0, slow_addr = 0x10000, map_errno = 12, create_rc = 0,
     f_status = 0x13370002, read_rc = 1, join_rc = 0\<rparr>"

theorem fault_main_ignores_status_witness:
  "\<exists>r. fault_main arena_env 4 (fault_demo\<lparr>f_status := 0\<rparr>) no_memory = Inr r \<and> exit_rc r = 0 \<and>
     msgs r = [Wrong_status 0 0x1337002] \<and> live (memory r) = live no_memory"
proof -
  obtain ch rf where h: "heap {} no_memory ch rf" "ranked ch" and c: "ctx_ok no_memory (eff_ctx no_memory NULL)"
    by (rule no_memory_start)
  have err: "map_errno fault_demo \<noteq> 0" by (simp add: fault_demo_def)
  obtain r where r: "fault_main arena_env 4 fault_demo no_memory = Inr r" "exit_rc r = 0"
  proof (cases rule: map_slowfs_cases [OF pool_invI [OF h arena_ok(1) c] order_refl err,
        where m = "\<lparr>slowfs_ptr = None, map_addr = 0, map_len = 0\<rparr>", case_names fails works])
    case fails
    moreover obtain sf s1 calls where "slowfs_mount arena_env 4 all_well no_memory ''mnt'' = Inr (Some sf, s1, calls)"
      using arena_mounts by blast
    ultimately show thesis
      by (simp add: map_slowfs_file_def fault_demo_def SLOWFS_DIR_def MAP_FAILED_def Let_def)
  next
    case works
    then show thesis using that by (simp add: fault_main_def fault_demo_def out_unmap_def Let_def)
  qed
  from fault_main_ignores_status [OF h arena_ok(1) c order_refl err r(1), of 0] r(2) show ?thesis by simp
qed

end
