(* ===== verification/Parse_Core.thy ===== *)
theory Parse_Core
  imports Clib
begin

unbundle bit_operations_syntax

text \<open>
  \<open>tests/11-coredump/parse-core.c\<close>: the program with which the core dump tests read the core
  file of a process that had SPU contexts.  It lists, checks or prints the SPU notes of the
  file, or looks for the program's image in it.

  The file is mapped: the memory is the list \<open>m\<close> of its bytes, filled up with zero bytes to
  the end of the last page, and a pointer is an \<open>int\<close>, the distance from the start of the
  mapping, as the sizes in the file can move it to either side of the mapping.  The machine
  is big-endian with an \<open>int\<close> of 32 and a \<open>size_t\<close> of 64 bits, so the fields of the ELF
  structures are read as they lie in the file.  What is written to the two output streams is
  a list.
\<close>

section \<open>Memory\<close>

definition be_value :: "char list \<Rightarrow> nat" where
  "be_value cs = foldl (\<lambda>v c. 256 * v + of_char c) 0 cs"

text \<open>A field of \<open>n\<close> bytes.\<close>

definition load :: "char list \<Rightarrow> int \<Rightarrow> nat \<Rightarrow> nat res" where
  "load m a n =
     (if 0 \<le> a \<and> nat a + n \<le> length m then Inr (be_value (take n (drop (nat a) m))) else Inl Bad_access)"

definition load16 :: "char list \<Rightarrow> int \<Rightarrow> 16 word res" where
  "load16 m a = bnd (load m a 2) (\<lambda>v. Inr (word_of_nat v))"

definition load32 :: "char list \<Rightarrow> int \<Rightarrow> 32 word res" where
  "load32 m a = bnd (load m a 4) (\<lambda>v. Inr (word_of_nat v))"

definition load64 :: "char list \<Rightarrow> int \<Rightarrow> 64 word res" where
  "load64 m a = bnd (load m a 8) (\<lambda>v. Inr (word_of_nat v))"

definition byte_at :: "char list \<Rightarrow> int \<Rightarrow> char res" where
  "byte_at m a = (if 0 \<le> a then char_at m (nat a) else Inl Bad_access)"

definition cstr_ptr :: "char list \<Rightarrow> int \<Rightarrow> string res" where
  "cstr_ptr m a = (if 0 \<le> a then cstr_at m (nat a) else Inl Bad_access)"

text \<open>\<open>!strncmp(a, s, strlen(s))\<close> and \<open>!strcmp(a, s)\<close> for a given string \<open>s\<close>.\<close>

definition prefix_ptr :: "char list \<Rightarrow> int \<Rightarrow> string \<Rightarrow> bool res" where
  "prefix_ptr m a s = (if 0 \<le> a then strncmp_prefix m (nat a) s else Inl Bad_access)"

definition streq_ptr :: "char list \<Rightarrow> int \<Rightarrow> string \<Rightarrow> bool res" where
  "streq_ptr m a s = prefix_ptr m a (s @ [NULc])"

text \<open>\<open>!memcmp(a, bs, n)\<close>, all bytes of which must be there.\<close>

definition memeq_ptr :: "char list \<Rightarrow> int \<Rightarrow> char list \<Rightarrow> bool res" where
  "memeq_ptr m a bs =
     (if 0 \<le> a \<and> nat a + length bs \<le> length m then Inr (take (length bs) (drop (nat a) m) = bs)
      else Inl Bad_access)"

text \<open>\<open>strrchr\<close> and \<open>strchr\<close> on a string that has been read.\<close>

definition last_at :: "string \<Rightarrow> char \<Rightarrow> nat option" where
  "last_at s c = (if c \<in> set s then Some (length s - 1 - length (takeWhile (\<lambda>d. d \<noteq> c) (rev s))) else None)"

definition first_at :: "string \<Rightarrow> char \<Rightarrow> nat option" where
  "first_at s c = (if c \<in> set s then Some (length (takeWhile (\<lambda>d. d \<noteq> c) s)) else None)"

definition isxdigit :: "char \<Rightarrow> bool" where
  "isxdigit c \<longleftrightarrow> c \<in> set ''0123456789abcdefABCDEF''"

section \<open>Options, notes and what is written\<close>

datatype action = LIST_NOTES | CHECK_NOTES | CHECK_FD | DUMP_NOTE | FIND_EXEC

record core_opts =
  action :: action
  dump_note_name :: "string option"   \<comment> \<open>\<open>None\<close>: not set\<close>
  want_fd :: "string option"

record nhdr =
  n_namesz :: "32 word"
  n_descsz :: "32 word"
  n_type :: "32 word"

abbreviation SIZEOF_NHDR :: nat where "SIZEOF_NHDR \<equiv> 12"

definition load_nhdr :: "char list \<Rightarrow> int \<Rightarrow> nhdr res" where
  "load_nhdr m p =
     bnd (load32 m p) (\<lambda>a. bnd (load32 m (p + 4)) (\<lambda>b. bnd (load32 m (p + 8)) (\<lambda>c.
     Inr \<lparr>n_namesz = a, n_descsz = b, n_type = c\<rparr>)))"

datatype core_out =
    Listed "32 word" string          \<comment> \<open>standard output\<close>
  | Written "char list"
  | Wrong_size "32 word" string      \<comment> \<open>standard error\<close>
  | No_leading_0x string
  | Invalid_char string char
  | Invalid_note_name string
  | Invalid_size "32 word" string
  | No_slash string
  | Not_enough_slashes string
  | Wrong_fd string string string
  | Name_past_end
  | Desc_past_end
  | Note_not_found string
  | Bad_machine "16 word"
  | Table_past_end
  | Bad_entry_size "16 word"
  | Table_extends_past_end
  | Entry_starts_past_end nat
  | Entry_ends_past_end nat
  | Bad_magic
  | Bad_encoding
  | Bad_version char
  | Bad_class char
  | Core_usage

section \<open>One note\<close>

definition SPU_NOTE_PREFIX :: string where "SPU_NOTE_PREFIX = ''SPU/''"

text \<open>\<open>x\<close> is an \<open>int\<close>; the sum that it cannot hold is undefined.\<close>

definition pad :: "int \<Rightarrow> int res" where
  "pad x = (if x + 3 < 2 ^ 31 then Inr ((x + 3) AND NOT 3) else Inl Overflow)"

definition note_name :: "int \<Rightarrow> int" where
  "note_name p = p + int SIZEOF_NHDR"

definition note_desc :: "int \<Rightarrow> nhdr \<Rightarrow> int res" where
  "note_desc p h = bnd (pad (sint (n_namesz h))) (\<lambda>k. Inr (p + int SIZEOF_NHDR + k))"

text \<open>The first of \<open>k\<close> characters that is not a hexadecimal digit.\<close>

fun hex_digits :: "char list \<Rightarrow> int \<Rightarrow> nat \<Rightarrow> char option res" where
  "hex_digits m a 0 = Inr None"
| "hex_digits m a (Suc k) =
     bnd (byte_at m a) (\<lambda>c. if isxdigit c then hex_digits m (a + 1) k else Inr (Some c))"

definition check_hex_note :: "char list \<Rightarrow> int \<Rightarrow> nhdr \<Rightarrow> (int \<times> core_out list) res" where
  "check_hex_note m p h =
     (let len = length ''0x0123456789abcdef'' + 1;
          complain = (\<lambda>f. bnd (cstr_ptr m (note_name p)) (\<lambda>name. Inr (-1, [f name]))) in
      bnd (note_desc p h) (\<lambda>desc.
      if n_descsz h \<noteq> word_of_nat len then complain (Wrong_size (n_descsz h))
      else
        bnd (byte_at m desc) (\<lambda>c.
        bnd (if c \<noteq> CHR ''0'' then Inr True else bnd (byte_at m (desc + 1)) (\<lambda>c. Inr (c \<noteq> CHR ''x''))) (\<lambda>bad.
        if bad then complain No_leading_0x
        else
          bnd (hex_digits m (desc + 2) (len - 1 - 2)) (\<lambda>r.
          case r of None \<Rightarrow> Inr (0, []) | Some c \<Rightarrow> complain (\<lambda>name. Invalid_char name c))))))"

record spu_note_check =
  chk_name :: string
  chk_size :: "32 word"    \<comment> \<open>0: any\<close>
  chk_hex :: bool          \<comment> \<open>\<open>fn\<close> is \<open>check_hex_note\<close>\<close>

definition sized :: "string \<Rightarrow> 32 word \<Rightarrow> spu_note_check" where
  "sized n k = \<lparr>chk_name = n, chk_size = k, chk_hex = False\<rparr>"

definition hex :: "string \<Rightarrow> spu_note_check" where
  "hex n = \<lparr>chk_name = n, chk_size = 0, chk_hex = True\<rparr>"

definition note_checks :: "spu_note_check list" where
  "note_checks =
     [sized ''regs'' 0x800, sized ''fpcr'' 0x10, hex ''lslr'', hex ''decr'', hex ''decr_status'',
      sized ''mem'' 0x40000, sized ''signal1'' 4, hex ''signal1_type'', sized ''signal2'' 4,
      hex ''signal2_type'', hex ''event_mask'', hex ''event_status'', sized ''mbox_info'' 4,
      sized ''ibox_info'' 4, sized ''wbox_info'' 0x10, sized ''dma_info'' 0x228,
      sized ''proxydma_info'' 0x118, hex ''object-id'', hex ''npc'']"

definition check_note :: "char list \<Rightarrow> int \<Rightarrow> nhdr \<Rightarrow> (int \<times> core_out list) res" where
  "check_note m p h =
     bnd (cstr_ptr m (note_name p)) (\<lambda>name.
     case last_at name CHR ''/'' of
       None \<Rightarrow> Inr (-1, [Invalid_note_name name])
     | Some k \<Rightarrow>
         let spu_name = length SPU_NOTE_PREFIX; file_name = drop (k + 1) name in
         if \<exists>c\<in>set (take (k - spu_name) (drop spu_name name)). \<not> isdigit c
         then Inr (-1, [Invalid_note_name name])
         else (case find (\<lambda>c. chk_name c = file_name) note_checks of
             None \<Rightarrow> Inr (0, [])
           | Some c \<Rightarrow>
               if chk_size c \<noteq> 0 \<and> chk_size c \<noteq> n_descsz h then Inr (-1, [Invalid_size (n_descsz h) name])
               else if chk_hex c then check_hex_note m p h
               else Inr (0, [])))"

text \<open>\<open>strdup\<close> is taken to succeed; the copy is cut at the second slash.\<close>

definition check_fd :: "char list \<Rightarrow> int \<Rightarrow> string option \<Rightarrow> (int \<times> core_out list) res" where
  "check_fd m p fd =
     bnd (cstr_ptr m (note_name p)) (\<lambda>str.
     case first_at str CHR ''/'' of
       None \<Rightarrow> Inr (-1, [No_slash str])
     | Some i \<Rightarrow>
         let fdstr = drop (i + 1) str in
         (case first_at fdstr CHR ''/'' of
            None \<Rightarrow> Inr (-1, [Not_enough_slashes str])
          | Some j \<Rightarrow>
              (case fd of
                 None \<Rightarrow> Inl Uninitialised
               | Some fd \<Rightarrow>
                   if fd \<noteq> take j fdstr then Inr (-1, [Wrong_fd str (take j fdstr) fd]) else Inr (0, []))))"

text \<open>\<open>write\<close> writes the part of the bytes that is there.\<close>

definition write_out :: "char list \<Rightarrow> int \<Rightarrow> nat \<Rightarrow> core_out" where
  "write_out m a n = Written (if 0 \<le> a then take n (drop (nat a) m) else [])"

section \<open>The notes of a segment\<close>

text \<open>What the loop does with the note at \<open>p\<close>: \<open>Some rc\<close> ends it.\<close>

definition handle_note :: "char list \<Rightarrow> int \<Rightarrow> nhdr \<Rightarrow> core_opts \<Rightarrow> (int option \<times> core_out list) res" where
  "handle_note m p h opts =
     (let name = note_name p; spu_name = name + int (length SPU_NOTE_PREFIX) in
      if n_type h \<noteq> 1 then Inr (None, [])
      else if n_namesz h < word_of_nat (length SPU_NOTE_PREFIX + 1) then Inr (None, [])
      else
        bnd (prefix_ptr m name SPU_NOTE_PREFIX) (\<lambda>spu.
        if \<not> spu then Inr (None, [])
        else if action opts = LIST_NOTES then
          bnd (cstr_ptr m spu_name) (\<lambda>s. Inr (None, [Listed (n_descsz h) s]))
        else if action opts = CHECK_NOTES then
          bnd (check_note m p h) (\<lambda>(rc, out). Inr (if rc \<noteq> 0 then Some (-1) else None, out))
        else if action opts = CHECK_FD then
          bnd (check_fd m p (want_fd opts)) (\<lambda>(rc, out). Inr (if rc \<noteq> 0 then Some (-1) else None, out))
        else if action opts = DUMP_NOTE then
          (case dump_note_name opts of
             None \<Rightarrow> Inl Uninitialised
           | Some d \<Rightarrow>
               bnd (streq_ptr m name d) (\<lambda>same.
               bnd (if same then Inr True else streq_ptr m spu_name d) (\<lambda>same.
               if same then
                 bnd (note_desc p h) (\<lambda>desc. Inr (Some 0, [write_out m desc (unat (n_descsz h))]))
               else Inr (None, []))))
        else Inr (None, [])))"

text \<open>
  The loop.  \<open>offset\<close> is an \<open>int\<close>, kept as its 32 bits: the test of the loop reads it as an
  unsigned number, the pointer as a signed one, and the two bounds are computed with 64 bits
  to which \<open>offset\<close> and the padded sizes are sign-extended.
\<close>

fun notes_loop ::
    "nat \<Rightarrow> char list \<Rightarrow> int \<Rightarrow> 32 word \<Rightarrow> core_opts \<Rightarrow> 32 word \<Rightarrow> core_out list \<Rightarrow> (int \<times> core_out list) res" where
  "notes_loop 0 m notes notes_size opts offset out = Inl No_fuel"
| "notes_loop (Suc n) m notes notes_size opts offset out =
     (if \<not> offset < notes_size then
        if action opts = DUMP_NOTE then
          (case dump_note_name opts of
             None \<Rightarrow> Inl Uninitialised
           | Some d \<Rightarrow> Inr (-1, out @ [Note_not_found d]))
        else Inr (0, out)
      else
        let nh = notes + sint offset in
        bnd (load_nhdr m nh) (\<lambda>h.
        bnd (pad (sint (n_namesz h))) (\<lambda>namesz.
        bnd (pad (sint (n_descsz h))) (\<lambda>descsz.
        let name_end = (scast offset :: 64 word) + word_of_nat SIZEOF_NHDR + word_of_int namesz;
            desc_end = name_end + word_of_int descsz in
        if ucast notes_size < name_end then Inr (-1, out @ [Name_past_end])
        else if ucast notes_size < desc_end then Inr (-1, out @ [Desc_past_end])
        else
          bnd (handle_note m nh h opts) (\<lambda>(rc, o1).
          case rc of
            Some rc \<Rightarrow> Inr (rc, out @ o1)
          | None \<Rightarrow> notes_loop n m notes notes_size opts (ucast desc_end) (out @ o1))))))"

definition parse_notes ::
    "nat \<Rightarrow> char list \<Rightarrow> int \<Rightarrow> 32 word \<Rightarrow> core_opts \<Rightarrow> (int \<times> core_out list) res" where
  "parse_notes n m notes notes_size opts = notes_loop n m notes notes_size opts 0 []"

section \<open>Segments\<close>

definition ELFMAG :: "char list" where "ELFMAG = CHR 0x7F # ''ELF''"
definition PT_LOAD :: "32 word" where "PT_LOAD = 1"
definition PT_NOTE :: "32 word" where "PT_NOTE = 4"

text \<open>\<open>size\<close> is an \<open>int\<close> of 32 bits here, and unsigned in \<open>parse_notes\<close>.\<close>

definition parse_section ::
    "nat \<Rightarrow> char list \<Rightarrow> int \<Rightarrow> 32 word \<Rightarrow> 32 word \<Rightarrow> core_opts \<Rightarrow> (int \<times> core_out list) res" where
  "parse_section n m sec sz ty opts =
     (if ty = PT_LOAD \<and> action opts = FIND_EXEC then
        bnd (memeq_ptr m sec ELFMAG) (\<lambda>same. Inr (if same then 0 else -1, []))
      else if ty = PT_NOTE then
        bnd (parse_notes n m sec sz opts) (\<lambda>(rc, out). Inr (if truth rc then -1 else 1, out))
      else Inr (1, []))"

text \<open>The loop over the program headers, the same for both classes of files.\<close>

fun segments :: "(nat \<Rightarrow> (int \<times> core_out list) res) \<Rightarrow> nat \<Rightarrow> nat \<Rightarrow> core_out list \<Rightarrow> (int \<times> core_out list) res" where
  "segments body 0 i out = Inr (0, out)"
| "segments body (Suc k) i out =
     bnd (body i) (\<lambda>(rc, o1).
     if rc < 0 then Inr (-1, out @ o1)
     else if rc = 0 then Inr (0, out @ o1)
     else segments body k (i + 1) (out @ o1))"

definition EM_PPC :: "16 word" where "EM_PPC = 20"
definition EM_PPC64 :: "16 word" where "EM_PPC64 = 21"

abbreviation SIZEOF_PHDR32 :: nat where "SIZEOF_PHDR32 \<equiv> 32"
abbreviation SIZEOF_PHDR64 :: nat where "SIZEOF_PHDR64 \<equiv> 56"

text \<open>One round of the loop in \<open>parse_elf_32\<close>; the sum of offset and size has 32 bits.\<close>

definition segment_32 ::
    "nat \<Rightarrow> char list \<Rightarrow> 32 word \<Rightarrow> core_opts \<Rightarrow> 32 word \<Rightarrow> nat \<Rightarrow> (int \<times> core_out list) res" where
  "segment_32 n m map_size opts phoff i =
     (let phdr = uint phoff + int (i * SIZEOF_PHDR32) in
      bnd (load32 m (phdr + 4)) (\<lambda>p_offset.
      if map_size < p_offset then Inr (-1, [Entry_starts_past_end i])
      else
        bnd (load32 m (phdr + 16)) (\<lambda>p_filesz.
        if map_size < p_offset + p_filesz then Inr (-1, [Entry_ends_past_end i])
        else
          bnd (load32 m phdr) (\<lambda>p_type.
          parse_section n m (uint p_offset) p_filesz p_type opts))))"

definition parse_elf_32 :: "nat \<Rightarrow> char list \<Rightarrow> 32 word \<Rightarrow> core_opts \<Rightarrow> (int \<times> core_out list) res" where
  "parse_elf_32 n m map_size opts =
     bnd (load16 m 18) (\<lambda>e_machine.
     if e_machine \<noteq> EM_PPC then Inr (-1, [Bad_machine e_machine])
     else
       bnd (load32 m 28) (\<lambda>e_phoff.
       if map_size \<le> e_phoff then Inr (-1, [Table_past_end])
       else
         bnd (load16 m 42) (\<lambda>e_phentsize.
         if e_phentsize \<noteq> word_of_nat SIZEOF_PHDR32 then Inr (-1, [Bad_entry_size e_phentsize])
         else
           bnd (load16 m 44) (\<lambda>e_phnum.
           if map_size < e_phoff + ucast e_phentsize * ucast e_phnum then Inr (-1, [Table_extends_past_end])
           else segments (segment_32 n m map_size opts e_phoff) (unat e_phnum) 0 []))))"

text \<open>One round of the loop in \<open>parse_elf_64\<close>: 64 bits, but the size becomes an \<open>int\<close>.\<close>

definition segment_64 ::
    "nat \<Rightarrow> char list \<Rightarrow> 32 word \<Rightarrow> core_opts \<Rightarrow> 64 word \<Rightarrow> nat \<Rightarrow> (int \<times> core_out list) res" where
  "segment_64 n m map_size opts phoff i =
     (let phdr = uint phoff + int (i * SIZEOF_PHDR64) in
      bnd (load64 m (phdr + 8)) (\<lambda>p_offset.
      if ucast map_size < p_offset then Inr (-1, [Entry_starts_past_end i])
      else
        bnd (load64 m (phdr + 32)) (\<lambda>p_filesz.
        if ucast map_size < p_offset + p_filesz then Inr (-1, [Entry_ends_past_end i])
        else
          bnd (load32 m phdr) (\<lambda>p_type.
          parse_section n m (uint p_offset) (ucast p_filesz) p_type opts))))"

definition parse_elf_64 :: "nat \<Rightarrow> char list \<Rightarrow> 32 word \<Rightarrow> core_opts \<Rightarrow> (int \<times> core_out list) res" where
  "parse_elf_64 n m map_size opts =
     bnd (load16 m 18) (\<lambda>e_machine.
     if e_machine \<noteq> EM_PPC64 then Inr (-1, [Bad_machine e_machine])
     else
       bnd (load64 m 32) (\<lambda>e_phoff.
       if ucast map_size \<le> e_phoff then Inr (-1, [Table_past_end])
       else
         bnd (load16 m 54) (\<lambda>e_phentsize.
         if e_phentsize \<noteq> word_of_nat SIZEOF_PHDR64 then Inr (-1, [Bad_entry_size e_phentsize])
         else
           bnd (load16 m 56) (\<lambda>e_phnum.
           if ucast map_size < e_phoff + ucast e_phentsize * ucast e_phnum then Inr (-1, [Table_extends_past_end])
           else segments (segment_64 n m map_size opts e_phoff) (unat e_phnum) 0 []))))"

section \<open>The file\<close>

definition parse_elf :: "nat \<Rightarrow> char list \<Rightarrow> 32 word \<Rightarrow> core_opts \<Rightarrow> (int \<times> core_out list) res" where
  "parse_elf n m map_size opts =
     bnd (memeq_ptr m 0 ELFMAG) (\<lambda>same.
     if \<not> same then Inr (-1, [Bad_magic])
     else
       bnd (byte_at m 5) (\<lambda>data.
       if data \<noteq> CHR 0x02 then Inr (-1, [Bad_encoding])
       else
         bnd (byte_at m 6) (\<lambda>version.
         if version \<noteq> CHR 0x01 then Inr (-1, [Bad_version version])
         else
           bnd (byte_at m 4) (\<lambda>cls.
           if cls = CHR 0x01 then parse_elf_32 n m map_size opts
           else if cls = CHR 0x02 then parse_elf_64 n m map_size opts
           else Inr (-1, [Bad_class cls])))))"

text \<open>
  The system's answers: whether \<open>open\<close>, \<open>fstat\<close> and \<open>mmap\<close> succeed, the bytes of the file, and
  the size of a page.  \<open>mmap\<close> fails when the length is 0.
\<close>

record core_file =
  can_open :: bool
  can_stat :: bool
  can_map :: bool
  file_bytes :: "char list"
  page_size :: nat

definition page_fill :: "nat \<Rightarrow> nat \<Rightarrow> nat" where
  "page_fill page len = (if len mod page = 0 then 0 else page - len mod page)"

definition map_file :: "core_file \<Rightarrow> (char list \<times> 32 word) option" where
  "map_file f =
     (if \<not> can_open f then None
      else if \<not> can_stat f then None
      else if \<not> can_map f \<or> file_bytes f = [] then None
      else Some (file_bytes f @ replicate (page_fill (page_size f) (length (file_bytes f))) NULc,
                 word_of_nat (length (file_bytes f))))"

text \<open>
  \<open>getopt_long\<close> is a library function: the values it returns, with the argument of those that
  have one, are the list \<open>os\<close>, the arguments that are left over the list \<open>args\<close>.
\<close>

fun core_options :: "(char \<times> string) list \<Rightarrow> core_opts \<Rightarrow> core_opts option" where
  "core_options [] opts = Some opts"
| "core_options ((c, optarg) # os) opts =
     (if c = CHR ''l'' then core_options os (opts\<lparr>action := LIST_NOTES\<rparr>)
      else if c = CHR ''c'' then core_options os (opts\<lparr>action := CHECK_NOTES\<rparr>)
      else if c = CHR ''d'' then core_options os (opts\<lparr>action := CHECK_FD, want_fd := Some optarg\<rparr>)
      else if c = CHR ''p'' then core_options os (opts\<lparr>action := DUMP_NOTE, dump_note_name := Some optarg\<rparr>)
      else if c = CHR ''f'' then core_options os (opts\<lparr>action := FIND_EXEC\<rparr>)
      else None)"

definition no_opts :: core_opts where
  "no_opts = \<lparr>action = LIST_NOTES, dump_note_name = None, want_fd = None\<rparr>"

definition parse_core_main ::
    "nat \<Rightarrow> (string \<Rightarrow> core_file) \<Rightarrow> (char \<times> string) list \<Rightarrow> string list \<Rightarrow> (int \<times> core_out list) res" where
  "parse_core_main n files os args =
     (case core_options os no_opts of
        None \<Rightarrow> Inr (1, [Core_usage])
      | Some opts \<Rightarrow>
          (case args of
             [f] \<Rightarrow> (case map_file (files f) of
                 None \<Rightarrow> Inr (1, [])
               | Some (m, sz) \<Rightarrow> parse_elf n m sz opts)
           | _ \<Rightarrow> Inr (1, [Core_usage])))"

end
