(* ===== verification/Core_Format.thy ===== *)
theory Core_Format
  imports Parse_Core
begin

unbundle bit_operations_syntax

text \<open>
  The layout of the notes of a core file, and what \<open>parse_notes\<close> of
  \<open>tests/11-coredump/parse-core.c\<close> makes of it: each action is described on the list of the
  notes, and the loop over the bytes has the described result.
\<close>

section \<open>The layout\<close>

fun be_bytes :: "nat \<Rightarrow> nat \<Rightarrow> char list" where
  "be_bytes 0 v = []"
| "be_bytes (Suc n) v = be_bytes n (v div 256) @ [char_of (v mod 256)]"

definition padded :: "char list \<Rightarrow> char list" where
  "padded cs = cs @ replicate ((4 - length cs mod 4) mod 4) NULc"

record core_note =
  ntype :: "32 word"
  nname :: "char list"
  ndata :: "char list"

definition note_image :: "core_note \<Rightarrow> char list" where
  "note_image x = be_bytes 4 (length (nname x)) @ be_bytes 4 (length (ndata x)) @
     be_bytes 4 (unat (ntype x)) @ padded (nname x) @ padded (ndata x)"

definition notes_image :: "core_note list \<Rightarrow> char list" where
  "notes_image xs = concat (map note_image xs)"

section \<open>Fields\<close>

lemma be_value_append: "be_value (xs @ ys) = be_value xs * 256 ^ length ys + be_value ys"
proof (induction ys rule: rev_induct)
  case (snoc y ys)
  then show ?case by (simp add: be_value_def algebra_simps)
qed (simp add: be_value_def)

lemma length_be_bytes [simp]: "length (be_bytes n v) = n"
  by (induction n arbitrary: v) auto

lemma be_value_bytes: "be_value (be_bytes n v) = v mod 256 ^ n"
proof (induction n arbitrary: v)
  case (Suc n)
  have "be_value (be_bytes (Suc n) v) = v div 256 mod 256 ^ n * 256 + v mod 256"
    using Suc by (simp add: be_value_append) (simp add: be_value_def)
  also have "\<dots> = v mod 256 ^ Suc n"
    using mod_mult2_eq [of v 256 "256 ^ n"] by simp
  finally show ?case .
qed (simp add: be_value_def)

lemma be_value_less: "be_value cs < 256 ^ length cs"
proof (induction cs rule: rev_induct)
  case (snoc c cs)
  have "of_char c < (256 :: nat)" using nat_of_char_less_256 [of c] .
  then have "be_value (cs @ [c]) < (be_value cs + 1) * 256"
    by (simp add: be_value_append) (simp add: be_value_def)
  also have "\<dots> \<le> 256 ^ length cs * 256" using snoc by (intro mult_le_mono1) simp
  finally show ?case by simp
qed (simp add: be_value_def)

lemma load_append:
  assumes "int (length p) = a" and "length f = n"
  shows "load (p @ f @ r) a n = Inr (be_value f)"
proof -
  have "0 \<le> a" "nat a = length p" using assms(1) by auto
  then show ?thesis using assms(2) by (simp add: load_def)
qed

lemma load32_bytes:
  "int (length p) = a \<Longrightarrow> v < 2 ^ 32 \<Longrightarrow> load32 (p @ be_bytes 4 v @ r) a = Inr (word_of_nat v)"
  using load_append [of p a "be_bytes 4 v" 4 r] by (simp add: load32_def be_value_bytes)

lemma load_nhdr_bytes:
  assumes "int (length p) = a" and "x < 2 ^ 32" and "y < 2 ^ 32" and "z < 2 ^ 32"
  shows "load_nhdr (p @ be_bytes 4 x @ be_bytes 4 y @ be_bytes 4 z @ r) a =
    Inr \<lparr>n_namesz = word_of_nat x, n_descsz = word_of_nat y, n_type = word_of_nat z\<rparr>"
  using load32_bytes [OF assms(1,2), of "be_bytes 4 y @ be_bytes 4 z @ r"]
    load32_bytes [of "p @ be_bytes 4 x" "a + 4" y "be_bytes 4 z @ r"]
    load32_bytes [of "p @ be_bytes 4 x @ be_bytes 4 y" "a + 8" z r] assms
  by (simp add: load_nhdr_def)

section \<open>Padding\<close>

lemma and_not_3: "(x :: int) AND NOT 3 = x - x mod 4"
proof -
  have "(x :: int) AND NOT (mask 2) = push_bit 2 (drop_bit 2 x)"
  proof (rule bit_eqI)
    fix n
    have "2 \<le> n \<Longrightarrow> Suc (Suc (n - 2)) = n" by simp
    then show "bit (x AND NOT (mask 2)) n = bit (push_bit 2 (drop_bit 2 x)) n" by (auto simp: bit_simps not_less)
  qed
  then have "x AND NOT 3 = x div 4 * 4"
    by (simp add: push_bit_eq_mult drop_bit_eq_div mask_eq_exp_minus_1)
  then show ?thesis by (simp add: minus_mod_eq_div_mult)
qed

lemma length_padded: "length (padded cs) = (length cs + 3) div 4 * 4"
proof -
  have "(4 - k mod 4) mod 4 + k = (k + 3) div 4 * 4" for k :: nat
  proof -
    obtain q r where k: "k = 4 * q + r" "r < 4" by (metis mod_less_divisor mult_div_mod_eq zero_less_numeral)
    then have m: "k mod 4 = r" by simp
    consider "r = 0" | "r = 1" | "r = 2" | "r = 3" using k(2) by linarith
    then show ?thesis unfolding m by cases (simp_all add: k(1))
  qed
  then show ?thesis by (simp add: padded_def add.commute)
qed

lemma pad_length: "int (length cs) + 3 < 2 ^ 31 \<Longrightarrow> pad (int (length cs)) = Inr (int (length (padded cs)))"
proof -
  have "(int k + 3) - (int k + 3) mod 4 = int ((k + 3) div 4 * 4)" for k
    by (simp add: minus_mod_eq_div_mult zdiv_int)
  then show "int (length cs) + 3 < 2 ^ 31 \<Longrightarrow> ?thesis"
    unfolding pad_def and_not_3 length_padded by simp
qed

lemma length_note_image: "length (note_image x) = 12 + length (padded (nname x)) + length (padded (ndata x))"
  by (simp add: note_image_def)

lemma padded_ge: "length cs \<le> length (padded cs)"
  by (simp add: padded_def)

section \<open>The notes of SPU contexts\<close>

definition cname :: "core_note \<Rightarrow> string" where
  "cname x = takeWhile (\<lambda>c. c \<noteq> NULc) (nname x)"

definition spu :: "core_note \<Rightarrow> bool" where
  "spu x \<longleftrightarrow> ntype x = 1 \<and> 5 \<le> length (nname x) \<and> prefix ''SPU/'' (nname x)"

text \<open>A note that checks: its name is \<open>SPU/f\<close> or \<open>SPU/n/f\<close> with a number \<open>n\<close>, its data fit \<open>f\<close>.\<close>

definition hex_data :: "char list \<Rightarrow> bool" where
  "hex_data d \<longleftrightarrow> length d = 19 \<and> prefix ''0x'' d \<and> (\<forall>c\<in>set (take 16 (drop 2 d)). isxdigit c)"

definition data_ok :: "string \<Rightarrow> char list \<Rightarrow> bool" where
  "data_ok f d = (case find (\<lambda>c. chk_name c = f) note_checks of
       None \<Rightarrow> True
     | Some c \<Rightarrow> (chk_size c \<noteq> 0 \<longrightarrow> length d = unat (chk_size c)) \<and> (chk_hex c \<longrightarrow> hex_data d))"

definition note_ok :: "core_note \<Rightarrow> bool" where
  "note_ok x \<longleftrightarrow> (\<exists>f. CHR ''/'' \<notin> set f \<and> data_ok f (ndata x) \<and>
     (cname x = ''SPU/'' @ f \<or> (\<exists>n. (\<forall>c\<in>set n. isdigit c) \<and> cname x = ''SPU/'' @ n @ ''/'' @ f)))"

definition has_fd :: "string \<Rightarrow> core_note \<Rightarrow> bool" where
  "has_fd fd x \<longleftrightarrow> CHR ''/'' \<notin> set fd \<and> (\<exists>f. cname x = ''SPU/'' @ fd @ ''/'' @ f)"

definition is_named :: "string \<Rightarrow> core_note \<Rightarrow> bool" where
  "is_named d x \<longleftrightarrow> cname x = d \<or> cname x = ''SPU/'' @ d"

text \<open>The header that the bytes of a note give.\<close>

definition header_of :: "core_note \<Rightarrow> nhdr" where
  "header_of x = \<lparr>n_namesz = word_of_nat (length (nname x)), n_descsz = word_of_nat (length (ndata x)),
     n_type = ntype x\<rparr>"

definition small :: "core_note \<Rightarrow> bool" where
  "small x \<longleftrightarrow> length (nname x) + 3 < 2 ^ 31 \<and> length (ndata x) + 3 < 2 ^ 31"

lemma unat_less_32: "unat (w :: 32 word) < 2 ^ 32"
  by (rule order_less_le_trans [OF unsigned_less]) simp

lemma load_nhdr_image: "small x \<Longrightarrow> load_nhdr (a @ note_image x @ r) (int (length a)) = Inr (header_of x)"
  using load_nhdr_bytes [of a "int (length a)" "length (nname x)" "length (ndata x)" "unat (ntype x)"
      "padded (nname x) @ padded (ndata x) @ r"] unat_less_32 [of "ntype x"]
  by (simp add: small_def note_image_def header_of_def)

lemma sint_of_small: "k < 2 ^ 31 \<Longrightarrow> sint (word_of_nat k :: 32 word) = int k"
  by (simp add: sint_uint unat_of_nat signed_take_bit_int_eq_self uint_nat)

lemma unat_of_small: "k < 2 ^ 31 \<Longrightarrow> unat (word_of_nat k :: 32 word) = k"
  by (simp add: unat_of_nat)

lemma pad_sizes:
  assumes "small x"
  shows "pad (sint (n_namesz (header_of x))) = Inr (int (length (padded (nname x))))"
    "pad (sint (n_descsz (header_of x))) = Inr (int (length (padded (ndata x))))"
  using assms pad_length [of "nname x"] pad_length [of "ndata x"]
  by (simp_all add: small_def header_of_def sint_of_small)

lemma note_desc_image:
  "small x \<Longrightarrow> note_desc p (header_of x) = Inr (p + 12 + int (length (padded (nname x))))"
  by (simp add: note_desc_def pad_sizes)

text \<open>The name and the data of a note in the memory.\<close>

definition note_head :: "core_note \<Rightarrow> char list" where
  "note_head x = be_bytes 4 (length (nname x)) @ be_bytes 4 (length (ndata x)) @ be_bytes 4 (unat (ntype x))"

lemma length_note_head [simp]: "length (note_head x) = 12"
  by (simp add: note_head_def)

lemma drop_name: "\<exists>s. drop (length a + 12) (a @ note_image x @ r) = nname x @ s"
proof -
  have "a @ note_image x @ r = (a @ note_head x) @ padded (nname x) @ padded (ndata x) @ r"
    by (simp add: note_image_def note_head_def)
  then show ?thesis by (simp add: padded_def)
qed

lemma drop_data: "\<exists>s. drop (length a + 12 + length (padded (nname x))) (a @ note_image x @ r) = ndata x @ s"
proof -
  have "a @ note_image x @ r = (a @ note_head x @ padded (nname x)) @ padded (ndata x) @ r"
    by (simp add: note_image_def note_head_def)
  then show ?thesis by (simp add: padded_def)
qed

lemma name_terminated: "NULc \<in> set (nname x) \<Longrightarrow> \<exists>s. nname x = cname x @ NULc # s"
  unfolding cname_def by (rule terminated_split)

lemma cname_no_NUL: "NULc \<notin> set (cname x)"
  by (auto simp: cname_def dest: set_takeWhileD)

section \<open>What is done with one note\<close>

text \<open>A note in memory, at the place where the loop has arrived.\<close>

definition note_at :: "char list \<Rightarrow> int \<Rightarrow> core_note \<Rightarrow> bool" where
  "note_at m p x \<longleftrightarrow> small x \<and> (\<exists>a r. m = a @ note_image x @ r \<and> p = int (length a))"

lemma note_at_header: "note_at m p x \<Longrightarrow> load_nhdr m p = Inr (header_of x)"
  by (auto simp: note_at_def load_nhdr_image)

lemma note_at_name:
  assumes "note_at m p x"
  obtains s where "0 \<le> p" "drop (nat (note_name p)) m = nname x @ s"
proof -
  obtain a r where a: "m = a @ note_image x @ r" "p = int (length a)" using assms by (auto simp: note_at_def)
  then have "nat (note_name p) = length a + 12" by (simp add: note_name_def)
  then show ?thesis using that drop_name [of a x r] a by auto
qed

lemma note_at_data:
  assumes "note_at m p x"
  obtains s q where "note_desc p (header_of x) = Inr (int q)" "drop q m = ndata x @ s"
proof -
  obtain a r where a: "m = a @ note_image x @ r" "p = int (length a)" "small x"
    using assms by (auto simp: note_at_def)
  obtain s where "drop (length a + 12 + length (padded (nname x))) m = ndata x @ s"
    using drop_data [of a x r] a(1) by blast
  then show ?thesis using note_desc_image [OF a(3), of p] a(2) by (intro that) simp_all
qed

lemma note_at_cname:
  assumes "note_at m p x" and "NULc \<in> set (nname x)"
  shows "cstr_ptr m (note_name p) = Inr (cname x)"
proof -
  obtain s where s: "0 \<le> p" "drop (nat (note_name p)) m = nname x @ s" by (rule note_at_name [OF assms(1)])
  obtain g where "nname x = cname x @ NULc # g" using name_terminated [OF assms(2)] by blast
  then have "drop (nat (note_name p)) m = cname x @ NULc # g @ s" using s(2) by simp
  then show ?thesis
    using s(1) cname_no_NUL [of x] by (simp add: cstr_ptr_def cstr_at_def cstr_terminated note_name_def)
qed

lemma note_at_prefix:
  assumes "note_at m p x" and "length q \<le> length (nname x)"
  shows "prefix_ptr m (note_name p) q = Inr (prefix q (nname x))"
proof -
  obtain s where s: "0 \<le> p" "drop (nat (note_name p)) m = nname x @ s" by (rule note_at_name [OF assms(1)])
  then show ?thesis
    using assms(2) by (simp add: prefix_ptr_def strncmp_prefix_def has_prefix_append note_name_def)
qed

lemma spu_cname: "spu x \<Longrightarrow> prefix ''SPU/'' (cname x)"
proof -
  assume "spu x"
  then obtain s where "nname x = ''SPU/'' @ s" by (auto simp: spu_def prefix_def)
  then show ?thesis by (simp add: cname_def)
qed

text \<open>The part of the name behind the prefix.\<close>

lemma note_at_spu_name:
  assumes at: "note_at m p x" and "spu x" and "NULc \<in> set (nname x)"
  shows "\<exists>s. drop (nat (note_name p + 4)) m = drop 4 (cname x) @ NULc # s" "0 \<le> note_name p + 4"
proof -
  obtain s where s: "0 \<le> p" "drop (nat (note_name p)) m = nname x @ s" by (rule note_at_name [OF at])
  obtain g where g: "nname x = cname x @ NULc # g" using name_terminated [OF assms(3)] by blast
  have "4 \<le> length (cname x)" using spu_cname [OF assms(2)] by (auto dest: prefix_length_le)
  moreover have "drop (nat (note_name p + 4)) m = drop 4 (drop (nat (note_name p)) m)"
    using s(1) by (simp add: note_name_def nat_add_distrib)
  ultimately show "\<exists>s. drop (nat (note_name p + 4)) m = drop 4 (cname x) @ NULc # s"
    using s(2) g by simp
  show "0 \<le> note_name p + 4" using s(1) by (simp add: note_name_def)
qed

lemma streq_terminated:
  "NULc \<notin> set s \<Longrightarrow> NULc \<notin> set d \<Longrightarrow> has_prefix (s @ NULc # r) (d @ [NULc]) = Inr (s = d)"
proof (induction d arbitrary: s)
  case Nil
  then show ?case by (cases s) auto
next
  case (Cons c d)
  then show ?case by (cases s) auto
qed

lemma takeWhile_until: "c \<notin> set u \<Longrightarrow> takeWhile (\<lambda>d. d \<noteq> c) (u @ c # f) = u"
  by (induction u) auto

lemma first_unique: "u @ c # f = u' @ c # f' \<Longrightarrow> c \<notin> set u \<Longrightarrow> c \<notin> set u' \<Longrightarrow> u' = u \<and> f' = f"
  using takeWhile_until [of c u f] takeWhile_until [of c u' f'] by auto

lemma last_unique: "u @ c # f = u' @ c # f' \<Longrightarrow> c \<notin> set f \<Longrightarrow> c \<notin> set f' \<Longrightarrow> f' = f \<and> u' = u"
proof -
  assume a: "u @ c # f = u' @ c # f'" "c \<notin> set f" "c \<notin> set f'"
  have "rev f @ c # rev u = rev f' @ c # rev u'" using arg_cong [OF a(1), of rev] by simp
  then have "rev f' = rev f \<and> rev u' = rev u" by (rule first_unique) (use a in simp_all)
  then show ?thesis by simp
qed

lemma last_at_append: "c \<notin> set f \<Longrightarrow> last_at (u @ c # f) c = Some (length u)"
  by (simp add: last_at_def takeWhile_until)

lemma last_at_split: "c \<in> set s \<Longrightarrow> \<exists>u f. s = u @ c # f \<and> c \<notin> set f"
  by (rule split_list_last)

lemma first_at_append: "c \<notin> set u \<Longrightarrow> first_at (u @ c # f) c = Some (length u)"
  by (simp add: first_at_def takeWhile_until)

lemma first_at_none: "c \<notin> set s \<Longrightarrow> first_at s c = None"
  by (simp add: first_at_def)

section \<open>The checks\<close>

lemma byte_at_drop: "drop q m = d @ s \<Longrightarrow> i < length d \<Longrightarrow> byte_at m (int q + int i) = Inr (d ! i)"
proof -
  assume a: "drop q m = d @ s" "i < length d"
  have "length m - q = length d + length s" using arg_cong [OF a(1), of length] by simp
  then have l: "q + i < length m" "q \<le> length m" using a(2) by linarith+
  have "m ! (q + i) = drop q m ! i" using l by (simp add: nth_drop)
  also have "\<dots> = d ! i" using a by (simp add: nth_append)
  finally show ?thesis using l(1) by (simp add: byte_at_def char_at_def nat_int_add)
qed

lemma hex_digits_drop:
  "drop q m = d @ s \<Longrightarrow> i + k \<le> length d \<Longrightarrow>
   hex_digits m (int q + int i) k = Inr (find (\<lambda>c. \<not> isxdigit c) (take k (drop i d)))"
proof (induction k arbitrary: i)
  case (Suc k)
  have b: "byte_at m (int q + int i) = Inr (d ! i)" using Suc.prems by (intro byte_at_drop) simp_all
  have t: "take (Suc k) (drop i d) = d ! i # take k (drop (Suc i) d)"
    using Suc.prems(2) by (simp add: Cons_nth_drop_Suc [symmetric])
  have "hex_digits m (int q + int i + 1) k = Inr (find (\<lambda>c. \<not> isxdigit c) (take k (drop (Suc i) d)))"
    using Suc.IH [of "Suc i"] Suc.prems by (simp add: add_ac)
  then show ?case by (simp add: b t)
qed simp

lemma check_hex_note_eq:
  "check_hex_note m p h =
     bnd (note_desc p h) (\<lambda>desc.
     let complain = (\<lambda>f. bnd (cstr_ptr m (note_name p)) (\<lambda>name. Inr (-1, [f name]))) in
     if n_descsz h \<noteq> 19 then complain (Wrong_size (n_descsz h))
     else
       bnd (byte_at m desc) (\<lambda>c.
       bnd (if c \<noteq> CHR ''0'' then Inr True else bnd (byte_at m (desc + 1)) (\<lambda>c. Inr (c \<noteq> CHR ''x''))) (\<lambda>bad.
       if bad then complain No_leading_0x
       else
         bnd (hex_digits m (desc + 2) 16) (\<lambda>r.
         case r of None \<Rightarrow> Inr (0, []) | Some c \<Rightarrow> complain (\<lambda>name. Invalid_char name c)))))"
proof -
  have l: "length ''0x0123456789abcdef'' + 1 - 1 - 2 = 16"
    "word_of_nat (length ''0x0123456789abcdef'' + 1) = (19 :: 32 word)"
    by simp_all
  show ?thesis unfolding check_hex_note_def Let_def l ..
qed

lemma check_hex_note_data:
  assumes at: "note_at m p x" and nul: "NULc \<in> set (nname x)"
  shows "\<exists>out. check_hex_note m p (header_of x) = Inr (if hex_data (ndata x) then 0 else -1, out) \<and>
    (hex_data (ndata x) \<longrightarrow> out = [])"
proof -
  note name = note_at_cname [OF at nul]
  obtain s q where q: "note_desc p (header_of x) = Inr (int q)" "drop q m = ndata x @ s"
    by (rule note_at_data [OF at])
  have "small x" using at by (simp add: note_at_def)
  then have sz: "n_descsz (header_of x) = 19 \<longleftrightarrow> length (ndata x) = 19"
    using unat_of_small [of "length (ndata x)"] by (auto simp: header_of_def small_def word_unat_eq_iff)
  show ?thesis
  proof (cases "length (ndata x) = 19")
    case False
    then show ?thesis by (simp add: check_hex_note_eq q(1) sz name hex_data_def)
  next
    case len: True
    have b0: "byte_at m (int q) = Inr (ndata x ! 0)" and b1: "byte_at m (int q + 1) = Inr (ndata x ! 1)"
      using byte_at_drop [OF q(2), of 0] byte_at_drop [OF q(2), of 1] len by simp_all
    have hx: "hex_digits m (int q + 2) 16 = Inr (find (\<lambda>c. \<not> isxdigit c) (take 16 (drop 2 (ndata x))))"
      using hex_digits_drop [OF q(2), of 2 16] len by simp
    obtain c0 c1 d where d: "ndata x = c0 # c1 # d" using len by (auto simp: numeral_eq_Suc length_Suc_conv)
    show ?thesis
    proof (cases "c0 = CHR ''0'' \<and> c1 = CHR ''x''")
      case False
      then show ?thesis using len b0 b1
        by (auto simp: check_hex_note_eq q(1) sz name hex_data_def d)
    next
      case True
      show ?thesis
      proof (cases "find (\<lambda>c. \<not> isxdigit c) (take 16 (drop 2 (ndata x)))")
        case None
        then have "hex_data (ndata x)" using len True by (auto simp: hex_data_def d find_None_iff)
        moreover have "check_hex_note m p (header_of x) = Inr (0, [])"
          using None len True b0 b1 hx by (simp add: check_hex_note_eq q(1) sz d)
        ultimately show ?thesis by simp
      next
        case (Some c)
        have "hex_data (ndata x) \<Longrightarrow> find (\<lambda>c. \<not> isxdigit c) (take 16 (drop 2 (ndata x))) = None"
          by (simp add: hex_data_def find_None_iff)
        then have "\<not> hex_data (ndata x)" using Some by auto
        moreover have "check_hex_note m p (header_of x) = Inr (-1, [Invalid_char (cname x) c])"
          using Some len True b0 b1 hx by (simp add: check_hex_note_eq q(1) sz name d)
        ultimately show ?thesis by simp
      qed
    qed
  qed
qed

text \<open>The names that \<open>check_note\<close> takes apart, by their last slash.\<close>

lemma note_ok_last:
  assumes c: "cname x = u @ CHR ''/'' # f" and f: "CHR ''/'' \<notin> set f" and pre: "prefix ''SPU/'' (cname x)"
  shows "note_ok x \<longleftrightarrow> (\<forall>c\<in>set (take (length u - 4) (drop 4 (cname x))). isdigit c) \<and> data_ok f (ndata x)"
proof -
  have uniq: "f' = f \<and> u' = u" if "cname x = u' @ CHR ''/'' # f'" "CHR ''/'' \<notin> set f'" for u' f'
    using that c f last_unique [of u "CHR ''/''" f u' f'] by simp
  obtain s where s: "cname x = ''SPU/'' @ s" using pre by (auto simp: prefix_def)
  show ?thesis
  proof
    assume "note_ok x"
    then obtain f' where f': "CHR ''/'' \<notin> set f'" "data_ok f' (ndata x)" and
      alt: "cname x = ''SPU/'' @ f' \<or> (\<exists>n. (\<forall>c\<in>set n. isdigit c) \<and> cname x = ''SPU/'' @ n @ ''/'' @ f')"
      by (auto simp: note_ok_def)
    from alt show "(\<forall>c\<in>set (take (length u - 4) (drop 4 (cname x))). isdigit c) \<and> data_ok f (ndata x)"
    proof
      assume "cname x = ''SPU/'' @ f'"
      then have "f' = f \<and> ''SPU'' = u" using f' uniq [of "''SPU''" f'] by simp
      then show ?thesis using f' by auto
    next
      assume "\<exists>n. (\<forall>c\<in>set n. isdigit c) \<and> cname x = ''SPU/'' @ n @ ''/'' @ f'"
      then obtain n where n: "\<forall>c\<in>set n. isdigit c" "cname x = ''SPU/'' @ n @ ''/'' @ f'" by blast
      then have "f' = f \<and> ''SPU/'' @ n = u" using f' uniq [of "''SPU/'' @ n" f'] by simp
      then show ?thesis using f' n by auto
    qed
  next
    assume r: "(\<forall>c\<in>set (take (length u - 4) (drop 4 (cname x))). isdigit c) \<and> data_ok f (ndata x)"
    show "note_ok x"
    proof (cases "CHR ''/'' \<in> set s")
      case False
      then have "s = f" using uniq [of "''SPU''" s] s by simp
      then show ?thesis using r s f unfolding note_ok_def by blast
    next
      case True
      then obtain n f' where n: "s = n @ CHR ''/'' # f'" "CHR ''/'' \<notin> set f'" using last_at_split by metis
      then have "f' = f" "u = ''SPU/'' @ n" using uniq [of "''SPU/'' @ n" f'] s by auto
      then show ?thesis using r s n unfolding note_ok_def by (intro exI [of _ f]) auto
    qed
  qed
qed

lemma check_note_decides:
  assumes at: "note_at m p x" and nul: "NULc \<in> set (nname x)" and spu: "spu x"
  shows "\<exists>out. check_note m p (header_of x) = Inr (if note_ok x then 0 else -1, out) \<and> (note_ok x \<longrightarrow> out = [])"
proof -
  have pre: "prefix ''SPU/'' (cname x)" by (rule spu_cname [OF spu])
  then have "CHR ''/'' \<in> set (cname x)" by (auto simp: prefix_def)
  then obtain u f where c: "cname x = u @ CHR ''/'' # f" and f: "CHR ''/'' \<notin> set f" using last_at_split by metis
  note ok = note_ok_last [OF c f pre]
  have last: "last_at (cname x) CHR ''/'' = Some (length u)" and rest: "drop (length u + 1) (cname x) = f"
    using last_at_append [OF f, of u] c by simp_all
  have len: "n_descsz (header_of x) = word_of_nat (length (ndata x))" "small x"
    using at by (simp_all add: header_of_def note_at_def)
  define bad where "bad \<longleftrightarrow> (\<exists>c\<in>set (take (length u - 4) (drop 4 (cname x))). \<not> isdigit c)"
  have ok: "note_ok x \<longleftrightarrow> \<not> bad \<and> data_ok f (ndata x)" using ok by (simp add: bad_def)
  have l: "length SPU_NOTE_PREFIX = 4" by (simp add: SPU_NOTE_PREFIX_def)
  have run: "check_note m p (header_of x) =
      (if bad then Inr (-1, [Invalid_note_name (cname x)])
       else case find (\<lambda>c. chk_name c = f) note_checks of
           None \<Rightarrow> Inr (0, [])
         | Some c \<Rightarrow>
             if chk_size c \<noteq> 0 \<and> chk_size c \<noteq> n_descsz (header_of x)
             then Inr (-1, [Invalid_size (n_descsz (header_of x)) (cname x)])
             else if chk_hex c then check_hex_note m p (header_of x)
             else Inr (0, []))"
    unfolding check_note_def note_at_cname [OF at nul] bnd_Inr last option.case rest Let_def l bad_def [symmetric] ..
  show ?thesis
  proof (cases bad)
    case True
    then show ?thesis using ok by (simp add: run)
  next
    case False
    show ?thesis
    proof (cases "find (\<lambda>c. chk_name c = f) note_checks")
      case None
      then show ?thesis using ok False by (simp add: run data_ok_def)
    next
      case (Some c)
      have sz: "chk_size c \<noteq> n_descsz (header_of x) \<longleftrightarrow> length (ndata x) \<noteq> unat (chk_size c)"
        using len unat_of_small [of "length (ndata x)"] by (auto simp: small_def word_unat_eq_iff)
      have "note_ok x \<longleftrightarrow> (chk_size c \<noteq> 0 \<longrightarrow> length (ndata x) = unat (chk_size c)) \<and> (chk_hex c \<longrightarrow> hex_data (ndata x))"
        using ok False Some by (simp add: data_ok_def)
      then show ?thesis
        using check_hex_note_data [OF at nul] by (auto simp: run False Some sz)
    qed
  qed
qed

lemma check_fd_decides:
  assumes at: "note_at m p x" and nul: "NULc \<in> set (nname x)" and spu: "spu x"
  shows "\<exists>out. check_fd m p (Some fd) = Inr (if has_fd fd x then 0 else -1, out) \<and> (has_fd fd x \<longrightarrow> out = [])"
proof -
  obtain s where s: "cname x = ''SPU/'' @ s" using spu_cname [OF spu] by (auto simp: prefix_def)
  have f1: "first_at (cname x) CHR ''/'' = Some 3" using first_at_append [of "CHR ''/''" "''SPU''" s] s by simp
  have f2: "drop (3 + 1) (cname x) = s" using s by simp
  have run: "check_fd m p (Some fd) = (case first_at s CHR ''/'' of
      None \<Rightarrow> Inr (-1, [Not_enough_slashes (cname x)])
    | Some j \<Rightarrow> if fd \<noteq> take j s then Inr (-1, [Wrong_fd (cname x) (take j s) fd]) else Inr (0, []))"
    unfolding check_fd_def note_at_cname [OF at nul] bnd_Inr f1 option.case Let_def f2 ..
  show ?thesis
  proof (cases "CHR ''/'' \<in> set s")
    case False
    then show ?thesis using s by (auto simp: run first_at_none has_fd_def)
  next
    case True
    then obtain n f where n: "s = n @ CHR ''/'' # f" "CHR ''/'' \<notin> set n" using split_list_first by metis
    have "has_fd fd x \<longleftrightarrow> fd = n"
      using n first_unique [of n "CHR ''/''" f fd] by (auto simp: has_fd_def s)
    then show ?thesis using n first_at_append [of "CHR ''/''" n f] by (auto simp: run)
  qed
qed

end
