(* ===== verification/Core_Notes.thy ===== *)
theory Core_Notes
  imports Core_Format
begin

unbundle bit_operations_syntax

text \<open>
  The loop \<open>parse_notes\<close> of \<open>tests/11-coredump/parse-core.c\<close> on the bytes of a list of notes:
  the result of each action, and when the loop ends.
\<close>

section \<open>One round\<close>

definition opts_ok :: "core_opts \<Rightarrow> bool" where
  "opts_ok opts \<longleftrightarrow> (action opts = CHECK_FD \<longrightarrow> want_fd opts \<noteq> None) \<and>
     (action opts = DUMP_NOTE \<longrightarrow> (\<exists>d. dump_note_name opts = Some d \<and> NULc \<notin> set d))"

text \<open>What an action does with one note.\<close>

definition handled :: "core_opts \<Rightarrow> core_note \<Rightarrow> int option \<Rightarrow> core_out list \<Rightarrow> bool" where
  "handled opts x r out \<longleftrightarrow>
     (if \<not> spu x then r = None \<and> out = [] else
      case action opts of
        LIST_NOTES \<Rightarrow> r = None \<and> out = [Listed (word_of_nat (length (ndata x))) (drop 4 (cname x))]
      | CHECK_NOTES \<Rightarrow> if note_ok x then r = None \<and> out = [] else r = Some (-1)
      | CHECK_FD \<Rightarrow> if has_fd (the (want_fd opts)) x then r = None \<and> out = [] else r = Some (-1)
      | DUMP_NOTE \<Rightarrow>
          if is_named (the (dump_note_name opts)) x then r = Some 0 \<and> out = [Written (ndata x)]
          else r = None \<and> out = []
      | FIND_EXEC \<Rightarrow> r = None \<and> out = [])"

lemma handle_note_skips: "n_type h \<noteq> 1 \<Longrightarrow> handle_note m p h opts = Inr (None, [])"
  by (simp add: handle_note_def Let_def)

lemma handle_note_not_spu:
  assumes at: "note_at m p x" and "\<not> spu x"
  shows "handle_note m p (header_of x) opts = Inr (None, [])"
proof (cases "ntype x = 1 \<and> 5 \<le> length (nname x)")
  case True
  then have "prefix_ptr m (note_name p) SPU_NOTE_PREFIX = Inr False"
    using note_at_prefix [OF at, of "''SPU/''"] assms(2) by (simp add: SPU_NOTE_PREFIX_def spu_def)
  then show ?thesis by (simp add: handle_note_def Let_def)
next
  case False
  have "length (nname x) < 5 \<Longrightarrow> n_namesz (header_of x) < 5"
    using at unat_of_small [of "length (nname x)"] by (simp add: header_of_def note_at_def small_def word_less_nat_alt)
  then show ?thesis
    using False by (auto simp: handle_note_def Let_def SPU_NOTE_PREFIX_def header_of_def)
qed

text \<open>For an SPU note, the action remains.\<close>

lemma handle_note_spu:
  assumes at: "note_at m p x" and spu: "spu x"
  shows "handle_note m p (header_of x) opts = (let h = header_of x; name = note_name p in
    case action opts of
      LIST_NOTES \<Rightarrow> bnd (cstr_ptr m (name + 4)) (\<lambda>s. Inr (None, [Listed (n_descsz h) s]))
    | CHECK_NOTES \<Rightarrow> bnd (check_note m p h) (\<lambda>(rc, out). Inr (if rc \<noteq> 0 then Some (-1) else None, out))
    | CHECK_FD \<Rightarrow> bnd (check_fd m p (want_fd opts)) (\<lambda>(rc, out). Inr (if rc \<noteq> 0 then Some (-1) else None, out))
    | DUMP_NOTE \<Rightarrow> (case dump_note_name opts of
        None \<Rightarrow> Inl Uninitialised
      | Some d \<Rightarrow>
          bnd (streq_ptr m name d) (\<lambda>same.
          bnd (if same then Inr True else streq_ptr m (name + 4) d) (\<lambda>same.
          if same then bnd (note_desc p h) (\<lambda>desc. Inr (Some 0, [write_out m desc (unat (n_descsz h))]))
          else Inr (None, []))))
    | FIND_EXEC \<Rightarrow> Inr (None, []))"
proof -
  have l: "length SPU_NOTE_PREFIX = 4" "int 4 = 4" by (simp_all add: SPU_NOTE_PREFIX_def)
  have "prefix_ptr m (note_name p) SPU_NOTE_PREFIX = Inr True"
    using note_at_prefix [OF at, of "''SPU/''"] spu by (simp add: SPU_NOTE_PREFIX_def spu_def)
  moreover have "\<not> n_namesz (header_of x) < 5"
    using at spu unat_of_small [of "length (nname x)"]
    by (simp add: header_of_def note_at_def small_def spu_def word_less_nat_alt)
  moreover have "n_type (header_of x) = 1" using spu by (simp add: header_of_def spu_def)
  ultimately show ?thesis
    unfolding handle_note_def Let_def l by (cases "action opts") simp_all
qed

lemma handle_note_image:
  assumes at: "note_at m p x" and ok: "opts_ok opts" and nul: "spu x \<Longrightarrow> NULc \<in> set (nname x)"
  shows "\<exists>r out. handle_note m p (header_of x) opts = Inr (r, out) \<and> handled opts x r out"
proof (cases "spu x")
  case False
  then show ?thesis using handle_note_not_spu [OF at] by (simp add: handled_def)
next
  case spu: True
  have nt: "NULc \<in> set (nname x)" by (rule nul [OF spu])
  note run = handle_note_spu [OF at spu, of opts, unfolded Let_def]
  obtain s where s: "drop (nat (note_name p + 4)) m = drop 4 (cname x) @ NULc # s"
    using note_at_spu_name(1) [OF at spu nt] by blast
  note pos = note_at_spu_name(2) [OF at spu nt]
  have free: "NULc \<notin> set (drop 4 (cname x))" using cname_no_NUL [of x] by (auto dest: in_set_dropD)
  show ?thesis
  proof (cases "action opts")
    case LIST_NOTES
    have "cstr_ptr m (note_name p + 4) = Inr (drop 4 (cname x))"
      using s pos free by (simp add: cstr_ptr_def cstr_at_def cstr_terminated)
    moreover have "n_descsz (header_of x) = word_of_nat (length (ndata x))" by (simp add: header_of_def)
    ultimately show ?thesis using LIST_NOTES spu by (simp add: run handled_def)
  next
    case CHECK_NOTES
    then show ?thesis using check_note_decides [OF at nt spu] spu by (cases "note_ok x") (auto simp: run handled_def)
  next
    case CHECK_FD
    then obtain fd where "want_fd opts = Some fd" using ok by (auto simp: opts_ok_def)
    then show ?thesis
      using check_fd_decides [OF at nt spu, of fd] CHECK_FD spu
      by (cases "has_fd fd x") (auto simp: run handled_def)
  next
    case DUMP_NOTE
    then obtain d where d: "dump_note_name opts = Some d" "NULc \<notin> set d" using ok by (auto simp: opts_ok_def)
    obtain t where t: "0 \<le> p" "drop (nat (note_name p)) m = nname x @ t" by (rule note_at_name [OF at])
    obtain g where "nname x = cname x @ NULc # g" using name_terminated [OF nt] by blast
    then have "drop (nat (note_name p)) m = cname x @ NULc # g @ t" using t(2) by simp
    then have e1: "streq_ptr m (note_name p) d = Inr (cname x = d)"
      using t(1) d(2) cname_no_NUL [of x]
      by (simp add: streq_ptr_def prefix_ptr_def strncmp_prefix_def streq_terminated note_name_def)
    have e2: "streq_ptr m (note_name p + 4) d = Inr (drop 4 (cname x) = d)"
      using pos s d(2) free by (simp add: streq_ptr_def prefix_ptr_def strncmp_prefix_def streq_terminated)
    have split: "drop 4 (cname x) = d \<longleftrightarrow> cname x = ''SPU/'' @ d"
      using spu_cname [OF spu] by (auto simp: prefix_def)
    obtain s' q where q: "note_desc p (header_of x) = Inr (int q)" "drop q m = ndata x @ s'"
      by (rule note_at_data [OF at])
    have "unat (n_descsz (header_of x)) = length (ndata x)"
      using at unat_of_small [of "length (ndata x)"] by (simp add: header_of_def note_at_def small_def)
    then have w: "write_out m (int q) (unat (n_descsz (header_of x))) = Written (ndata x)"
      using q(2) by (simp add: write_out_def)
    show ?thesis
      using DUMP_NOTE spu by (auto simp: run d(1) e1 e2 split q(1) w handled_def is_named_def)
  next
    case FIND_EXEC
    then show ?thesis using spu by (simp add: run handled_def)
  qed
qed

section \<open>The loop\<close>

lemma scast_small: "k < 2 ^ 31 \<Longrightarrow> (scast (word_of_nat k :: 32 word) :: 64 word) = word_of_nat k"
  by (simp add: scast_eq sint_of_small)

lemma ucast_small: "k < 2 ^ 31 \<Longrightarrow> (ucast (word_of_nat k :: 32 word) :: 64 word) = word_of_nat k"
  by (simp add: ucast_eq uint_nat unat_of_small)

lemma ucast_back: "(ucast (word_of_nat k :: 64 word) :: 32 word) = word_of_nat k"
  by transfer simp

lemma less_small:
  "j < 2 ^ 31 \<Longrightarrow> k < 2 ^ 31 \<Longrightarrow> (word_of_nat j :: 64 word) < word_of_nat k \<longleftrightarrow> j < k"
  "j < 2 ^ 31 \<Longrightarrow> k < 2 ^ 31 \<Longrightarrow> (word_of_nat j :: 32 word) < word_of_nat k \<longleftrightarrow> j < k"
  by (simp_all add: word_less_nat_alt unat_of_nat)

lemma notes_loop_round:
  assumes at: "note_at m (notes + int off) x" and fits: "off + length (note_image x) \<le> sz" and sz: "sz < 2 ^ 31"
  shows "notes_loop (Suc n) m notes (word_of_nat sz) opts (word_of_nat off) out =
    bnd (handle_note m (notes + int off) (header_of x) opts) (\<lambda>(rc, o1).
      case rc of
        Some rc \<Rightarrow> Inr (rc, out @ o1)
      | None \<Rightarrow> notes_loop n m notes (word_of_nat sz) opts (word_of_nat (off + length (note_image x))) (out @ o1))"
proof -
  define k where "k = length (padded (nname x))"
  define d where "d = length (padded (ndata x))"
  have len: "length (note_image x) = 12 + k + d" by (simp add: length_note_image k_def d_def)
  have small: "small x" using at by (simp add: note_at_def)
  have off: "off < 2 ^ 31" "off < sz" using fits sz len by linarith+
  have ends: "(word_of_nat off :: 64 word) + word_of_nat SIZEOF_NHDR + word_of_int (int k) = word_of_nat (off + 12 + k)"
    "(word_of_nat (off + 12 + k) :: 64 word) + word_of_int (int d) = word_of_nat (off + length (note_image x))"
    by (simp_all add: len)
  have bounds: "\<not> (word_of_nat sz :: 64 word) < word_of_nat (off + 12 + k)"
      "\<not> (word_of_nat sz :: 64 word) < word_of_nat (off + length (note_image x))"
      "(word_of_nat off :: 32 word) < word_of_nat sz"
    by (subst less_small; use fits sz off len in linarith)+
  show ?thesis
    unfolding notes_loop.simps Let_def sint_of_small [OF off(1)] note_at_header [OF at] bnd_Inr pad_sizes [OF small]
      k_def [symmetric] d_def [symmetric] scast_small [OF off(1)] ucast_small [OF sz] ends ucast_back
    using bounds by simp
qed

text \<open>The description of a whole run: what is printed, and the result.\<close>

definition notes_answer :: "core_opts \<Rightarrow> core_note list \<Rightarrow> int \<Rightarrow> core_out list \<Rightarrow> bool" where
  "notes_answer opts xs rc out \<longleftrightarrow> (let ys = filter spu xs in
     case action opts of
       LIST_NOTES \<Rightarrow> rc = 0 \<and> out = map (\<lambda>x. Listed (word_of_nat (length (ndata x))) (drop 4 (cname x))) ys
     | CHECK_NOTES \<Rightarrow> if \<forall>x\<in>set ys. note_ok x then rc = 0 \<and> out = [] else rc = -1
     | CHECK_FD \<Rightarrow> if \<forall>x\<in>set ys. has_fd (the (want_fd opts)) x then rc = 0 \<and> out = [] else rc = -1
     | DUMP_NOTE \<Rightarrow> (case find (is_named (the (dump_note_name opts))) ys of
           Some x \<Rightarrow> rc = 0 \<and> out = [Written (ndata x)]
         | None \<Rightarrow> rc = -1 \<and> out = [Note_not_found (the (dump_note_name opts))])
     | FIND_EXEC \<Rightarrow> rc = 0 \<and> out = [])"

lemma notes_answer_Nil: "notes_answer opts [] (if action opts = DUMP_NOTE then -1 else 0)
    (if action opts = DUMP_NOTE then [Note_not_found (the (dump_note_name opts))] else [])"
  by (cases "action opts") (simp_all add: notes_answer_def)

lemma notes_answer_stop: "handled opts x (Some rc) out \<Longrightarrow> notes_answer opts (x # xs) rc out"
  by (cases "action opts") (auto simp: handled_def notes_answer_def split: if_splits)

lemma notes_answer_go:
  "handled opts x None o1 \<Longrightarrow> notes_answer opts xs rc o2 \<Longrightarrow> notes_answer opts (x # xs) rc (o1 @ o2)"
  by (cases "action opts") (auto simp: handled_def notes_answer_def Let_def split: if_splits option.splits)

text \<open>Notes that the actions can read: every SPU note has a terminated name.\<close>

definition readable :: "core_note list \<Rightarrow> bool" where
  "readable xs \<longleftrightarrow> (\<forall>x\<in>set xs. spu x \<longrightarrow> NULc \<in> set (nname x))"

lemma notes_image_Cons: "notes_image (x # xs) = note_image x @ notes_image xs"
  by (simp add: notes_image_def)

lemma small_of_image: "length (note_image x) < 2 ^ 31 \<Longrightarrow> small x"
  using padded_ge [of "nname x"] padded_ge [of "ndata x"] by (simp add: small_def length_note_image)

lemma notes_loop_image:
  "m = a @ notes_image xs @ r \<Longrightarrow> int (length a) = notes + int off \<Longrightarrow> sz = off + length (notes_image xs) \<Longrightarrow>
   sz < 2 ^ 31 \<Longrightarrow> readable xs \<Longrightarrow> opts_ok opts \<Longrightarrow> length xs < n \<Longrightarrow>
   \<exists>rc o1. notes_loop n m notes (word_of_nat sz) opts (word_of_nat off) out = Inr (rc, out @ o1) \<and>
     notes_answer opts xs rc o1"
proof (induction xs arbitrary: a off n out)
  case Nil
  then obtain k where k: "n = Suc k" by (cases n) auto
  have "\<not> (word_of_nat off :: 32 word) < word_of_nat sz" using Nil.prems(3) by (simp add: notes_image_def)
  moreover have "action opts = DUMP_NOTE \<Longrightarrow> \<exists>d. dump_note_name opts = Some d"
    using Nil.prems(6) by (auto simp: opts_ok_def)
  ultimately show ?case
    using notes_answer_Nil [of opts] by (cases "action opts = DUMP_NOTE") (auto simp: k)
next
  case (Cons x xs)
  obtain k where k: "n = Suc k" "length xs < k" using Cons.prems(7) by (cases n) auto
  have fits: "off + length (note_image x) \<le> sz" using Cons.prems(3) by (simp add: notes_image_Cons)
  have at: "note_at m (notes + int off) x"
    unfolding note_at_def using Cons.prems(1,2,4) fits small_of_image [of x]
    by (intro conjI exI [of _ a] exI [of _ "notes_image xs @ r"]) (simp_all add: notes_image_Cons)
  obtain r' o1 where h: "handle_note m (notes + int off) (header_of x) opts = Inr (r', o1)" "handled opts x r' o1"
    using handle_note_image [OF at Cons.prems(6)] Cons.prems(5) by (auto simp: readable_def)
  note run = notes_loop_round [OF at fits Cons.prems(4), of k opts out, unfolded h(1) bnd_Inr prod.case]
  show ?case
  proof (cases r')
    case (Some rc)
    then show ?thesis using run notes_answer_stop h(2) k(1) by auto
  next
    case None
    have "m = (a @ note_image x) @ notes_image xs @ r" "sz = (off + length (note_image x)) + length (notes_image xs)"
        "int (length (a @ note_image x)) = notes + int (off + length (note_image x))" "readable xs"
      using Cons.prems(1,2,3,5) by (simp_all add: notes_image_Cons readable_def)
    from Cons.IH [OF this(1,3,2) Cons.prems(4) this(4) Cons.prems(6) k(2), of "out @ o1"]
    obtain rc o2 where "notes_loop k m notes (word_of_nat sz) opts (word_of_nat (off + length (note_image x))) (out @ o1) =
        Inr (rc, (out @ o1) @ o2)" "notes_answer opts xs rc o2" by blast
    then show ?thesis using run None notes_answer_go h(2) k(1) by auto
  qed
qed

lemma parse_notes_image:
  assumes "m = a @ notes_image xs @ r" and "length (notes_image xs) < 2 ^ 31" and "readable xs" and "opts_ok opts"
    and "length xs < n"
  shows "\<exists>rc out. parse_notes n m (int (length a)) (word_of_nat (length (notes_image xs))) opts = Inr (rc, out) \<and>
    notes_answer opts xs rc out"
  using notes_loop_image [OF assms(1), of "int (length a)" 0 "length (notes_image xs)" opts n "[]"] assms
  by (simp add: parse_notes_def)

section \<open>When the loop ends\<close>

text \<open>
  A run that comes to an end: it returns, or stops where it reads outside of the file or where a
  signed sum overflows.
\<close>

definition returns :: "'a res \<Rightarrow> bool" where
  "returns r \<longleftrightarrow> (case r of Inl e \<Rightarrow> e \<in> {Bad_access, Overflow} | Inr x \<Rightarrow> True)"

named_theorems returning \<open>computations that come to an end\<close>

lemma returns_Inr [returning]: "returns (Inr x)"
  by (simp add: returns_def)

lemma returns_Inl [returning]: "e \<in> {Bad_access, Overflow} \<Longrightarrow> returns (Inl e)"
  by (simp add: returns_def)

lemma returns_bnd [returning]: "returns m \<Longrightarrow> (\<And>x. m = Inr x \<Longrightarrow> returns (f x)) \<Longrightarrow> returns (bnd m f)"
  by (cases m) (auto simp: returns_def)

lemma returns_if [returning]: "(b \<Longrightarrow> returns r) \<Longrightarrow> (\<not> b \<Longrightarrow> returns s) \<Longrightarrow> returns (if b then r else s)"
  by simp

lemma returns_option [returning]:
  "(x = None \<Longrightarrow> returns r) \<Longrightarrow> (\<And>y. x = Some y \<Longrightarrow> returns (f y)) \<Longrightarrow> returns (case x of None \<Rightarrow> r | Some y \<Rightarrow> f y)"
  by (cases x) simp_all

lemma returns_prod [returning]: "(\<And>x y. z = (x, y) \<Longrightarrow> returns (f x y)) \<Longrightarrow> returns (case z of (x, y) \<Rightarrow> f x y)"
  by (cases z) simp

lemma cstr_returns: "returns (cstr b)"
  by (induction b) (auto simp: returns_def bnd_def split: sum.splits)

lemma has_prefix_returns: "returns (has_prefix b q)"
  by (induction b q rule: has_prefix.induct) (auto simp: returns_def)

lemma memory_returns [returning]:
  "returns (load m a n)" "returns (load32 m a)" "returns (load_nhdr m a)" "returns (byte_at m a)" "returns (cstr_ptr m a)"
  "returns (prefix_ptr m a q)" "returns (streq_ptr m a q)" "returns (pad k)" "returns (note_desc p h)"
proof -
  show l: "returns (load m a n)" for a n by (simp add: load_def returns_def)
  then show l32: "returns (load32 m a)" for a by (auto simp: load32_def intro: returning)
  then show "returns (load_nhdr m a)" by (auto simp: load_nhdr_def intro!: returning)
  show "returns (byte_at m a)" by (simp add: byte_at_def char_at_def returns_def)
  show "returns (cstr_ptr m a)" using cstr_returns by (auto simp: cstr_ptr_def cstr_at_def intro: returning)
  show p: "returns (prefix_ptr m a q)" for q
    using has_prefix_returns by (auto simp: prefix_ptr_def strncmp_prefix_def intro: returning)
  then show "returns (streq_ptr m a q)" by (simp add: streq_ptr_def)
  show pd: "returns (pad k)" for k by (simp add: pad_def returns_def)
  then show "returns (note_desc p h)" by (auto simp: note_desc_def intro: returning)
qed

lemma hex_digits_returns [returning]: "returns (hex_digits m a k)"
  by (induction k arbitrary: a) (auto intro!: returning)

lemma note_returns [returning]:
  "returns (check_hex_note m p h)" "returns (check_note m p h)" "fd \<noteq> None \<Longrightarrow> returns (check_fd m p fd)"
proof -
  show c: "returns (check_hex_note m p h)" unfolding check_hex_note_eq Let_def by (intro returning)
  show "returns (check_note m p h)" unfolding check_note_def Let_def by (intro returning c)
  show "returns (check_fd m p fd)" if "fd \<noteq> None" unfolding check_fd_def Let_def by (intro returning) (use that in simp_all)
qed

lemma handle_note_returns [returning]: "opts_ok opts \<Longrightarrow> returns (handle_note m p h opts)"
  unfolding handle_note_def Let_def by (intro returning) (auto simp: opts_ok_def)

text \<open>The offsets at which the loop reads a header, when it goes from one note to the next.\<close>

inductive visited :: "char list \<Rightarrow> int \<Rightarrow> nat \<Rightarrow> nat \<Rightarrow> bool" for m base sz where
  visited_first: "visited m base sz 0"
| visited_next: "visited m base sz i \<Longrightarrow> i < sz \<Longrightarrow> load_nhdr m (base + int i) = Inr h \<Longrightarrow>
    pad (sint (n_namesz h)) = Inr k \<Longrightarrow> pad (sint (n_descsz h)) = Inr d \<Longrightarrow>
    int j = int i + 12 + k + d \<Longrightarrow> visited m base sz j"

text \<open>A header whose two sizes, as signed numbers, are not negative moves the loop on.\<close>

definition forward :: "char list \<Rightarrow> int \<Rightarrow> bool" where
  "forward m p \<longleftrightarrow> (\<forall>h. load_nhdr m p = Inr h \<longrightarrow> 0 \<le> sint (n_namesz h) \<and> 0 \<le> sint (n_descsz h))"

lemma pad_nonneg: "pad k = Inr j \<Longrightarrow> 0 \<le> k \<Longrightarrow> 0 \<le> j \<and> j < 2 ^ 31"
  using pos_mod_bound [of 4 "k + 3"] pos_mod_sign [of 4 "k + 3"] by (auto simp: pad_def and_not_3 split: if_splits)

lemma notes_loop_returns:
  assumes sz: "sz < 2 ^ 31" and fw: "\<And>i. visited m notes sz i \<Longrightarrow> i < sz \<Longrightarrow> forward m (notes + int i)"
  shows "visited m notes sz off \<Longrightarrow> off \<le> sz \<Longrightarrow> sz < off + 12 * n \<Longrightarrow> opts_ok opts \<Longrightarrow>
    returns (notes_loop n m notes (word_of_nat sz) opts (word_of_nat off) out)"
proof (induction n arbitrary: off out)
  case (Suc n)
  note ok = Suc.prems(4)
  have off: "off < 2 ^ 31" using Suc.prems(2) sz by linarith
  show ?case
  proof (cases "off < sz")
    case False
    then have "\<not> (word_of_nat off :: 32 word) < word_of_nat sz" using off sz by (simp add: less_small)
    then show ?thesis unfolding notes_loop.simps Let_def by (simp only: if_True simp_thms) (intro returning; use ok in \<open>auto simp: opts_ok_def\<close>)
  next
    case True
    then have "(word_of_nat off :: 32 word) < word_of_nat sz" using off sz by (simp add: less_small)
    then show ?thesis unfolding notes_loop.simps Let_def sint_of_small [OF off]
    proof (simp only: simp_thms if_False, intro returning ok)
      fix h k d rc o1
      assume h: "load_nhdr m (notes + int off) = Inr h" and k: "pad (sint (n_namesz h)) = Inr k"
        and d: "pad (sint (n_descsz h)) = Inr d"
        and e1: "\<not> ucast (word_of_nat sz :: 32 word) < scast (word_of_nat off :: 32 word) + word_of_nat SIZEOF_NHDR + (word_of_int k :: 64 word)"
        and e2: "\<not> ucast (word_of_nat sz :: 32 word) < scast (word_of_nat off :: 32 word) + word_of_nat SIZEOF_NHDR + (word_of_int k :: 64 word) + word_of_int d"
      have nn: "0 \<le> k \<and> k < 2 ^ 31" "0 \<le> d \<and> d < 2 ^ 31"
        using fw [OF Suc.prems(1) True] h pad_nonneg [OF k] pad_nonneg [OF d] by (auto simp: forward_def)
      define off' where "off' = off + 12 + nat k + nat d"
      have e: "scast (word_of_nat off :: 32 word) + word_of_nat SIZEOF_NHDR + (word_of_int k :: 64 word) + word_of_int d = word_of_nat off'"
        using nn by (simp add: scast_small [OF off] off'_def)
      have "\<not> sz < off'"
      proof -
        have "off' < 2 ^ 64" "sz < 2 ^ 64" using nn off sz by (auto simp: off'_def)
        then show ?thesis using e2 unfolding e ucast_small [OF sz] by (simp add: word_less_nat_alt unat_of_nat)
      qed
      then have "off' \<le> sz" "sz < off' + 12 * n" using Suc.prems(3) by (simp_all add: off'_def)
      moreover have "visited m notes sz off'"
        using nn by (intro visited_next [OF Suc.prems(1) True h k d]) (simp add: off'_def)
      ultimately show "returns (notes_loop n m notes (word_of_nat sz) opts
          (ucast (scast (word_of_nat off :: 32 word) + word_of_nat SIZEOF_NHDR + (word_of_int k :: 64 word) + word_of_int d)) (out @ o1))"
        unfolding e ucast_back by (intro Suc.IH [OF _ _ _ ok])
    qed
  qed
qed simp

section \<open>Properties\<close>

definition signal1_note :: core_note where
  "signal1_note = \<lparr>ntype = 1, nname = ''SPU/3/signal1'' @ [NULc], ndata = ''abcd''\<rparr>"

definition short_note :: core_note where
  "short_note = \<lparr>ntype = 1, nname = ''SPU/3/signal2'' @ [NULc], ndata = ''abc''\<rparr>"

definition check_opts :: core_opts where
  "check_opts = \<lparr>action = CHECK_NOTES, dump_note_name = None, want_fd = None\<rparr>"

text \<open>
  C19.  On the bytes of any list of notes, wherever they lie in the file, \<open>parse_notes\<close> does
  what its action says, within one round for each note and one more: it lists the SPU notes
  in order; it accepts them exactly when each has a name \<open>SPU/f\<close> or \<open>SPU/n/f\<close> and data that
  fit the table for \<open>f\<close>; it accepts them exactly when each belongs to the file descriptor
  wanted; it writes the data of the first one with the name wanted, or fails.  Other notes
  have no effect.  The list takes less than \<open>2 ^ 31\<close> bytes, the names of its SPU notes are
  terminated, and the options have the arguments that their action needs.
\<close>

theorem parse_notes_refines:
  assumes "m = a @ notes_image xs @ r" and "length (notes_image xs) < 2 ^ 31" and "readable xs" and "opts_ok opts"
    and "length xs < n"
  shows "\<exists>rc out. parse_notes n m (int (length a)) (word_of_nat (length (notes_image xs))) opts = Inr (rc, out) \<and>
    notes_answer opts xs rc out"
  by (rule parse_notes_image [OF assms])

lemma check_cnames: "cname signal1_note = ''SPU/3/signal1''" "cname short_note = ''SPU/3/signal2''"
  by (simp_all add: cname_def signal1_note_def short_note_def)

lemma spu_examples: "spu signal1_note" "spu short_note"
  by (simp_all add: spu_def signal1_note_def short_note_def)

lemma note_ok_short: "\<not> note_ok short_note"
  using note_ok_last [of short_note "''SPU/3''" "''signal2''"]
  by (simp add: check_cnames data_ok_def note_checks_def sized_def hex_def) (simp add: short_note_def)

theorem parse_notes_refines_witness:
  "\<exists>out. parse_notes 3 (''ab'' @ notes_image [signal1_note, short_note]) 2
     (word_of_nat (length (notes_image [signal1_note, short_note]))) check_opts = Inr (-1, out)"
proof -
  have "length (notes_image [signal1_note, short_note]) < 2 ^ 31"
    by (simp add: notes_image_def length_note_image length_padded signal1_note_def short_note_def)
  moreover have "readable [signal1_note, short_note]" by (simp add: readable_def signal1_note_def short_note_def)
  moreover have "opts_ok check_opts" by (simp add: opts_ok_def check_opts_def)
  ultimately show ?thesis
    using parse_notes_refines [of _ "''ab''" "[signal1_note, short_note]" "[]" check_opts 3] note_ok_short spu_examples
    by (auto simp: notes_answer_def check_opts_def)
qed

text \<open>
  C21.  On a segment of any bytes \<open>parse_notes\<close> comes to an end, within a round for each 12 bytes,
  when the headers it comes to, going from note to note, have no size with the highest bit set:
  it returns, or it stops at an access outside of the file or at a signed sum that overflows.
  Each round moves on by at least the 12 bytes of a header.  The options have the arguments that
  their action needs.
\<close>

theorem parse_notes_terminates:
  assumes "notes_size < 2 ^ 31" and "opts_ok opts"
    and "\<And>i h. visited m notes notes_size i \<Longrightarrow> i < notes_size \<Longrightarrow> load_nhdr m (notes + int i) = Inr h \<Longrightarrow>
      n_namesz h < 2 ^ 31 \<and> n_descsz h < 2 ^ 31"
  shows "case parse_notes (notes_size div 12 + 1) m notes (word_of_nat notes_size) opts of
      Inl e \<Rightarrow> e \<in> {Bad_access, Overflow} | Inr r \<Rightarrow> True"
proof -
  have "0 \<le> sint w" if "w < 2 ^ 31" for w :: "32 word"
    using that sint_of_small [of "unat w"] by (simp add: word_less_nat_alt)
  then have fw: "forward m (notes + int i)" if "visited m notes notes_size i" "i < notes_size" for i
    using assms(3) [OF that] by (auto simp: forward_def)
  have "notes_size < 0 + 12 * (notes_size div 12 + 1)"
    using dividend_less_times_div [of 12 notes_size] by simp
  from notes_loop_returns [OF assms(1) fw visited_first le0 this assms(2)]
  show ?thesis by (simp add: returns_def parse_notes_def)
qed

text \<open>A note of type 7 with four data bytes 0xff.\<close>

definition bright_note :: "char list" where
  "bright_note = be_bytes 4 0 @ be_bytes 4 4 @ be_bytes 4 7 @ replicate 4 (CHR 0xFF)"

theorem parse_notes_terminates_witness:
  "case parse_notes 2 bright_note 0 16 check_opts of Inl e \<Rightarrow> e \<in> {Bad_access, Overflow} | Inr r \<Rightarrow> True"
proof -
  have load: "load_nhdr bright_note 0 = Inr \<lparr>n_namesz = 0, n_descsz = 4, n_type = 7\<rparr>"
    using load_nhdr_bytes [of "[]" 0 0 4 7 "replicate 4 (CHR 0xFF)"] by (simp add: bright_note_def)
  have "i = 0 \<or> i = 16" if "visited bright_note 0 16 i" for i
    using that
  proof induction
    case (visited_next i h k d j)
    then have "h = \<lparr>n_namesz = 0, n_descsz = 4, n_type = 7\<rparr>" "i = 0" using load by auto
    then show ?case using visited_next by (auto simp: pad_def and_not_3)
  qed simp
  then have "n_namesz h < 2 ^ 31 \<and> n_descsz h < 2 ^ 31"
    if "visited bright_note 0 16 i" "i < 16" "load_nhdr bright_note (0 + int i) = Inr h" for i h
    using that load by fastforce
  moreover have "opts_ok check_opts" by (simp add: opts_ok_def check_opts_def)
  moreover have "(16 :: nat) < 2 ^ 31" "16 div 12 + 1 = (2 :: nat)" "word_of_nat 16 = (16 :: 32 word)" by simp_all
  ultimately show ?thesis using parse_notes_terminates [of 16 check_opts bright_note 0] by metis
qed

text \<open>
  C22.  A size that is negative as an \<open>int\<close> passes both bounds and can take the loop back: behind
  a note that is not of interest, a header with the name size 0xfffffff4, which is -12, makes
  \<open>parse_notes\<close> read the same header for ever.
\<close>

theorem parse_notes_diverges:
  assumes m: "m = a @ note_image x @ be_bytes 4 0xFFFFFFF4 @ be_bytes 4 0 @ be_bytes 4 ty @ r"
    and x: "ntype x \<noteq> 1" and ty: "ty < 2 ^ 32" "ty \<noteq> 1"
    and sz: "length (note_image x) < notes_size" "notes_size < 2 ^ 31"
  shows "parse_notes n m (int (length a)) (word_of_nat notes_size) opts = Inl No_fuel"
proof -
  define off where "off = length (note_image x)"
  define h where "h = \<lparr>n_namesz = word_of_nat 0xFFFFFFF4, n_descsz = word_of_nat 0, n_type = (word_of_nat ty :: 32 word)\<rparr>"
  have off: "off < 2 ^ 31" using sz by (simp add: off_def)
  have load: "load_nhdr m (int (length a) + int off) = Inr h"
    using load_nhdr_bytes [of "a @ note_image x" "int (length a) + int off" "0xFFFFFFF4" 0 ty r] m ty(1)
    by (simp add: off_def h_def)
  have pads: "pad (sint (n_namesz h)) = Inr (-12)" "pad (sint (n_descsz h)) = Inr 0"
    by (simp_all add: pad_def h_def and_not_3)
  have skip: "handle_note m (int (length a) + int off) h opts = Inr (None, [])"
  proof (rule handle_note_skips)
    have "unat (word_of_nat ty :: 32 word) = ty" using ty by (simp add: unat_of_nat)
    then show "n_type h \<noteq> 1" using ty(2) by (auto simp: h_def)
  qed
  have lt: "(word_of_nat off :: 32 word) < word_of_nat notes_size"
    "\<not> (word_of_nat notes_size :: 64 word) < word_of_nat off"
    using sz off by (simp_all add: less_small off_def)
  have stuck: "notes_loop n m (int (length a)) (word_of_nat notes_size) opts (word_of_nat off) out = Inl No_fuel" for n out
  proof (induction n arbitrary: out)
    case (Suc n)
    have "(word_of_nat off :: 64 word) + word_of_nat SIZEOF_NHDR + word_of_int (-12) = word_of_nat off" by simp
    then show ?case
      unfolding notes_loop.simps Let_def sint_of_small [OF off] load bnd_Inr pads scast_small [OF off] ucast_small [OF sz(2)]
      using lt skip Suc by (simp add: ucast_back)
  qed simp
  show ?thesis
  proof (cases n)
    case (Suc k)
    have at: "note_at m (int (length a) + int 0) x"
      using m small_of_image [of x] off unfolding note_at_def off_def
      by (intro conjI exI [of _ a] exI [of _ "be_bytes 4 0xFFFFFFF4 @ be_bytes 4 0 @ be_bytes 4 ty @ r"]) simp_all
    have "handle_note m (int (length a) + int 0) (header_of x) opts = Inr (None, [])"
      using x by (intro handle_note_skips) (simp add: header_of_def)
    then show ?thesis
      using notes_loop_round [OF at, of notes_size k opts "[]"] sz stuck [of k "[]"]
      by (simp add: parse_notes_def Suc off_def)
  qed (simp add: parse_notes_def)
qed

theorem parse_notes_diverges_witness:
  "\<forall>n. parse_notes n (note_image (signal1_note\<lparr>ntype := 2\<rparr>) @ be_bytes 4 0xFFFFFFF4 @ be_bytes 4 0 @ be_bytes 4 2) 0 48 check_opts =
    Inl No_fuel"
  using parse_notes_diverges [of _ "[]" "signal1_note\<lparr>ntype := 2\<rparr>" 2 "[]" 48 _ check_opts]
  by (simp add: length_note_image length_padded signal1_note_def)

end
