(* ===== verification/Core_Elf.thy ===== *)
theory Core_Elf
  imports Core_Notes
begin

unbundle bit_operations_syntax

text \<open>
  Whole core files in \<open>tests/11-coredump/parse-core.c\<close>: the header and the table of segments of
  both classes of files, and what the program answers for a file of given segments.
\<close>

section \<open>Headers and tables\<close>

datatype elf_class = Class32 | Class64

text \<open>
  A file of \<open>len\<close> bytes in the memory \<open>m\<close> has a header for a big-endian PowerPC core with
  \<open>k\<close> program headers from \<open>phoff\<close> on, all of them in the file.
\<close>

definition elf_header :: "elf_class \<Rightarrow> char list \<Rightarrow> nat \<Rightarrow> nat \<Rightarrow> nat \<Rightarrow> bool" where
  "elf_header cls m len phoff k \<longleftrightarrow>
     len \<le> length m \<and> len < 2 ^ 32 \<and> phoff < len \<and>
     memeq_ptr m 0 ELFMAG = Inr True \<and> byte_at m 5 = Inr CHR 0x02 \<and> byte_at m 6 = Inr CHR 0x01 \<and>
     (case cls of
        Class32 \<Rightarrow> byte_at m 4 = Inr CHR 0x01 \<and> load m 18 2 = Inr 20 \<and> load m 28 4 = Inr phoff \<and>
          load m 42 2 = Inr 32 \<and> load m 44 2 = Inr k \<and> phoff + 32 * k \<le> len
      | Class64 \<Rightarrow> byte_at m 4 = Inr CHR 0x02 \<and> load m 18 2 = Inr 21 \<and> load m 32 8 = Inr phoff \<and>
          load m 54 2 = Inr 56 \<and> load m 56 2 = Inr k \<and> phoff + 56 * k \<le> len)"

text \<open>Type, offset and size of a segment, as the program header \<open>i\<close> gives them.\<close>

fun entry_at :: "elf_class \<Rightarrow> char list \<Rightarrow> nat \<Rightarrow> nat \<Rightarrow> nat \<times> nat \<times> nat \<Rightarrow> bool" where
  "entry_at Class32 m phoff i (ty, off, sz) \<longleftrightarrow> (let p = int (phoff + 32 * i) in
     load m p 4 = Inr ty \<and> load m (p + 4) 4 = Inr off \<and> load m (p + 16) 4 = Inr sz)"
| "entry_at Class64 m phoff i (ty, off, sz) \<longleftrightarrow> (let p = int (phoff + 56 * i) in
     load m p 4 = Inr ty \<and> load m (p + 8) 8 = Inr off \<and> load m (p + 32) 8 = Inr sz)"

lemma load_less: "load m a n = Inr v \<Longrightarrow> v < 256 ^ n"
proof -
  assume "load m a n = Inr v"
  then have "v = be_value (take n (drop (nat a) m))" "length (take n (drop (nat a) m)) = n"
    by (auto simp: load_def split: if_splits)
  then show ?thesis using be_value_less [of "take n (drop (nat a) m)"] by simp
qed

lemma loads:
  "load m a 2 = Inr v \<Longrightarrow> load16 m a = Inr (word_of_nat v)"
  "load m a 4 = Inr v \<Longrightarrow> load32 m a = Inr (word_of_nat v)"
  "load m a 8 = Inr v \<Longrightarrow> load64 m a = Inr (word_of_nat v)"
  by (simp_all add: load16_def load32_def load64_def)

lemma less_32: "j < 2 ^ 32 \<Longrightarrow> k < 2 ^ 32 \<Longrightarrow> (word_of_nat j :: 32 word) < word_of_nat k \<longleftrightarrow> j < k"
  by (simp add: word_less_nat_alt unat_of_nat)

lemma less_64: "j < 2 ^ 64 \<Longrightarrow> k < 2 ^ 64 \<Longrightarrow> (word_of_nat j :: 64 word) < word_of_nat k \<longleftrightarrow> j < k"
  by (simp add: word_less_nat_alt unat_of_nat)

lemma le_of_less: "(v :: 'a :: len word) \<le> w \<longleftrightarrow> \<not> w < v"
  by auto

lemma uint_of_small: "k < 2 ^ 32 \<Longrightarrow> uint (word_of_nat k :: 32 word) = int k" "k < 2 ^ 64 \<Longrightarrow> uint (word_of_nat k :: 64 word) = int k"
  by (simp_all add: uint_nat unat_of_nat)

lemma ucast_up: "k < 2 ^ 16 \<Longrightarrow> (ucast (word_of_nat k :: 16 word) :: 32 word) = word_of_nat k"
    "k < 2 ^ 16 \<Longrightarrow> (ucast (word_of_nat k :: 16 word) :: 64 word) = word_of_nat k"
    "k < 2 ^ 32 \<Longrightarrow> (ucast (word_of_nat k :: 32 word) :: 64 word) = word_of_nat k"
  by (simp_all add: ucast_eq uint_nat unat_of_nat)

text \<open>The loop runs its body on the numbers of the entries.\<close>

lemma segments_cong:
  "(\<And>j. i \<le> j \<Longrightarrow> j < i + k \<Longrightarrow> f j = g j) \<Longrightarrow> segments f k i out = segments g k i out"
proof (induction k arbitrary: i out)
  case (Suc k)
  have "segments f k (i + 1) u = segments g k (i + 1) u" for u using Suc by simp
  moreover have "f i = g i" using Suc.prems by simp
  ultimately show ?case by (simp cong: if_cong)
qed simp

definition section_of :: "nat \<Rightarrow> char list \<Rightarrow> core_opts \<Rightarrow> nat \<times> nat \<times> nat \<Rightarrow> (int \<times> core_out list) res" where
  "section_of n m opts e = (case e of (ty, off, sz) \<Rightarrow> parse_section n m (int off) (word_of_nat sz) (word_of_nat ty) opts)"

lemma segment_32_entry:
  assumes "entry_at Class32 m phoff i (ty, off, sz)" and "off + sz \<le> len" and "len < 2 ^ 32" and "phoff < len"
  shows "segment_32 n m (word_of_nat len) opts (word_of_nat phoff) i = section_of n m opts (ty, off, sz)"
proof -
  have p: "uint (word_of_nat phoff :: 32 word) + int (i * SIZEOF_PHDR32) = int (phoff + 32 * i)"
    using assms(3,4) by (simp add: uint_of_small)
  have l: "load32 m (int (phoff + 32 * i)) = Inr (word_of_nat ty)"
      "load32 m (int (phoff + 32 * i) + 4) = Inr (word_of_nat off)"
      "load32 m (int (phoff + 32 * i) + 16) = Inr (word_of_nat sz)"
    using assms(1) by (simp_all add: Let_def loads)
  have b: "\<not> (word_of_nat len :: 32 word) < word_of_nat off"
      "\<not> (word_of_nat len :: 32 word) < word_of_nat off + word_of_nat sz"
    using assms(2,3) less_32 [of len off] less_32 [of len "off + sz"] by simp_all
  have "uint (word_of_nat off :: 32 word) = int off" using assms(2,3) by (simp add: uint_of_small)
  then show ?thesis unfolding segment_32_def Let_def p l bnd_Inr using b by (simp add: section_of_def)
qed

lemma segment_64_entry:
  assumes "entry_at Class64 m phoff i (ty, off, sz)" and "off + sz \<le> len" and "len < 2 ^ 32" and "phoff < len"
  shows "segment_64 n m (word_of_nat len) opts (word_of_nat phoff) i = section_of n m opts (ty, off, sz)"
proof -
  have p: "uint (word_of_nat phoff :: 64 word) + int (i * SIZEOF_PHDR64) = int (phoff + 56 * i)"
    using assms(3,4) by (simp add: uint_of_small)
  have l: "load32 m (int (phoff + 56 * i)) = Inr (word_of_nat ty)"
      "load64 m (int (phoff + 56 * i) + 8) = Inr (word_of_nat off)"
      "load64 m (int (phoff + 56 * i) + 32) = Inr (word_of_nat sz)"
    using assms(1) by (simp_all add: Let_def loads)
  have b: "\<not> (word_of_nat len :: 64 word) < word_of_nat off"
      "\<not> (word_of_nat len :: 64 word) < word_of_nat off + word_of_nat sz"
    using assms(2,3) less_64 [of len off] less_64 [of len "off + sz"] by simp_all
  have "uint (word_of_nat off :: 64 word) = int off" using assms(2,3) by (simp add: uint_of_small)
  then show ?thesis
    unfolding segment_64_def Let_def p l bnd_Inr ucast_up(3) [OF assms(3)] ucast_back using b
    by (simp add: section_of_def)
qed

text \<open>A good header leads to the loop of its class.\<close>

lemma parse_elf_header_32:
  assumes "elf_header Class32 m len phoff k"
  shows "parse_elf n m (word_of_nat len) opts = segments (segment_32 n m (word_of_nat len) opts (word_of_nat phoff)) k 0 []"
proof -
  have b: "len < 2 ^ 32" "phoff < len" "phoff + 32 * k \<le> len" and
    l: "load16 m 18 = Inr 20" "load32 m 28 = Inr (word_of_nat phoff)" "load16 m 42 = Inr 32"
      "load16 m 44 = Inr (word_of_nat k)" "k < 2 ^ 16"
    using assms load_less [of m 44 2 k] by (auto simp: elf_header_def dest: loads)
  have "\<not> (word_of_nat len :: 32 word) < word_of_nat phoff + 32 * word_of_nat k"
    using b less_32 [of len "phoff + 32 * k"] by simp
  moreover have "\<not> (word_of_nat len :: 32 word) \<le> word_of_nat phoff"
    unfolding le_of_less using b less_32 [of phoff len] by simp
  ultimately have "parse_elf_32 n m (word_of_nat len) opts =
      segments (segment_32 n m (word_of_nat len) opts (word_of_nat phoff)) k 0 []"
    using l by (simp add: parse_elf_32_def EM_PPC_def ucast_up unat_of_nat)
  then show ?thesis using assms by (simp add: elf_header_def parse_elf_def)
qed

lemma parse_elf_header_64:
  assumes "elf_header Class64 m len phoff k"
  shows "parse_elf n m (word_of_nat len) opts = segments (segment_64 n m (word_of_nat len) opts (word_of_nat phoff)) k 0 []"
proof -
  have b: "len < 2 ^ 32" "phoff < len" "phoff + 56 * k \<le> len" and
    l: "load16 m 18 = Inr 21" "load64 m 32 = Inr (word_of_nat phoff)" "load16 m 54 = Inr 56"
      "load16 m 56 = Inr (word_of_nat k)" "k < 2 ^ 16"
    using assms load_less [of m 56 2 k] by (auto simp: elf_header_def dest: loads)
  have "\<not> (word_of_nat len :: 64 word) < word_of_nat phoff + 56 * word_of_nat k"
    using b less_64 [of len "phoff + 56 * k"] by simp
  moreover have "\<not> (word_of_nat len :: 64 word) \<le> word_of_nat phoff"
    unfolding le_of_less using b less_64 [of phoff len] by simp
  ultimately have "parse_elf_64 n m (word_of_nat len) opts =
      segments (segment_64 n m (word_of_nat len) opts (word_of_nat phoff)) k 0 []"
    using l b by (simp add: parse_elf_64_def EM_PPC64_def ucast_up unat_of_nat)
  then show ?thesis using assms by (simp add: elf_header_def parse_elf_def)
qed

text \<open>The two classes of files are read to the same segments.\<close>

lemma parse_elf_segments:
  assumes h: "elf_header cls m len phoff (length es)"
    and es: "\<And>i. i < length es \<Longrightarrow> entry_at cls m phoff i (es ! i) \<and> fst (snd (es ! i)) + snd (snd (es ! i)) \<le> len"
  shows "parse_elf n m (word_of_nat len) opts = segments (\<lambda>i. section_of n m opts (es ! i)) (length es) 0 []"
proof -
  have b: "len < 2 ^ 32" "phoff < len" using h by (simp_all add: elf_header_def)
  show ?thesis
  proof (cases cls)
    case Class32
    have "parse_elf n m (word_of_nat len) opts = segments (segment_32 n m (word_of_nat len) opts (word_of_nat phoff)) (length es) 0 []"
      using h Class32 by (simp add: parse_elf_header_32)
    also have "\<dots> = segments (\<lambda>i. section_of n m opts (es ! i)) (length es) 0 []"
      using es b by (intro segments_cong) (metis Class32 segment_32_entry add_0 prod.collapse)
    finally show ?thesis .
  next
    case Class64
    have "parse_elf n m (word_of_nat len) opts = segments (segment_64 n m (word_of_nat len) opts (word_of_nat phoff)) (length es) 0 []"
      using h Class64 by (simp add: parse_elf_header_64)
    also have "\<dots> = segments (\<lambda>i. section_of n m opts (es ! i)) (length es) 0 []"
      using es b by (intro segments_cong) (metis Class64 segment_64_entry add_0 prod.collapse)
    finally show ?thesis .
  qed
qed

section \<open>Files of given segments\<close>

datatype seg = Notes_seg "core_note list" | Load_seg bool | Other_seg

text \<open>
  What a segment holds: notes; something loaded, and whether it starts like an ELF file; or
  something the program does not look at.
\<close>

fun denotes :: "char list \<Rightarrow> nat \<times> nat \<times> nat \<Rightarrow> seg \<Rightarrow> bool" where
  "denotes m (ty, off, sz) (Notes_seg xs) \<longleftrightarrow> ty = 4 \<and> sz = length (notes_image xs) \<and> sz < 2 ^ 31 \<and>
     off + sz \<le> length m \<and> take sz (drop off m) = notes_image xs \<and> readable xs"
| "denotes m (ty, off, sz) (Load_seg b) \<longleftrightarrow> ty = 1 \<and> off + 4 \<le> length m \<and> b = (take 4 (drop off m) = ELFMAG)"
| "denotes m (ty, off, sz) Other_seg \<longleftrightarrow> ty < 2 ^ 32 \<and> ty \<noteq> 1 \<and> ty \<noteq> 4"

definition passes :: "core_opts \<Rightarrow> core_note list \<Rightarrow> bool" where
  "passes opts xs \<longleftrightarrow> (case action opts of
       CHECK_NOTES \<Rightarrow> \<forall>x\<in>set xs. spu x \<longrightarrow> note_ok x
     | CHECK_FD \<Rightarrow> \<forall>x\<in>set xs. spu x \<longrightarrow> has_fd (the (want_fd opts)) x
     | DUMP_NOTE \<Rightarrow> \<exists>x\<in>set xs. spu x \<and> is_named (the (dump_note_name opts)) x
     | _ \<Rightarrow> True)"

lemma notes_answer_rc: "notes_answer opts xs rc out \<Longrightarrow> rc = (if passes opts xs then 0 else -1)"
proof (cases "action opts = DUMP_NOTE")
  case True
  moreover have "(\<exists>x\<in>set xs. spu x \<and> P x) \<longleftrightarrow> find P (filter spu xs) \<noteq> None" for P
    by (auto simp: find_None_iff)
  ultimately show "notes_answer opts xs rc out \<Longrightarrow> ?thesis"
    by (cases "find (is_named (the (dump_note_name opts))) (filter spu xs)") (auto simp: notes_answer_def passes_def)
next
  case False
  then show "notes_answer opts xs rc out \<Longrightarrow> ?thesis"
    by (cases "action opts") (auto simp: notes_answer_def passes_def Let_def split: if_splits)
qed

text \<open>The value of \<open>parse_section\<close>.\<close>

fun seg_rc :: "core_opts \<Rightarrow> seg \<Rightarrow> int" where
  "seg_rc opts (Notes_seg xs) = (if passes opts xs then 1 else -1)"
| "seg_rc opts (Load_seg b) = (if action opts = FIND_EXEC then if b then 0 else -1 else 1)"
| "seg_rc opts Other_seg = 1"

lemma section_of_rc:
  assumes "denotes m e s" and "opts_ok opts" and "\<And>xs. s = Notes_seg xs \<Longrightarrow> length xs < n"
  shows "\<exists>out. section_of n m opts e = Inr (seg_rc opts s, out)"
proof -
  obtain ty off sz where e: "e = (ty, off, sz)" by (metis prod_cases3)
  show ?thesis
  proof (cases s)
    case (Notes_seg xs)
    then have d: "ty = 4" "sz = length (notes_image xs)" "sz < 2 ^ 31" "off + sz \<le> length m"
        "take sz (drop off m) = notes_image xs" "readable xs"
      using assms(1) unfolding e Notes_seg denotes.simps by blast+
    then have "m = take off m @ notes_image xs @ drop sz (drop off m)" "length (take off m) = off"
      using append_take_drop_id [of sz "drop off m"] by simp_all
    then have "\<exists>rc out. parse_notes n m (int off) (word_of_nat sz) opts = Inr (rc, out) \<and> notes_answer opts xs rc out"
      using parse_notes_image [of m "take off m" xs "drop sz (drop off m)" opts n] d assms(2,3) Notes_seg by simp
    then show ?thesis
      using notes_answer_rc d(1)
      by (fastforce simp: e Notes_seg section_of_def parse_section_def PT_LOAD_def PT_NOTE_def truth_def)
  next
    case (Load_seg b)
    moreover have "length ELFMAG = 4" by (simp add: ELFMAG_def)
    ultimately show ?thesis
      using assms(1) by (auto simp: e section_of_def parse_section_def PT_LOAD_def PT_NOTE_def memeq_ptr_def)
  next
    case Other_seg
    then have "ty < 2 ^ 32" "ty \<noteq> 1" "ty \<noteq> 4" using assms(1) e by simp_all
    then have "unat (word_of_nat ty :: 32 word) = ty" by (simp add: unat_of_nat)
    then have "(word_of_nat ty :: 32 word) \<noteq> PT_LOAD" "(word_of_nat ty :: 32 word) \<noteq> PT_NOTE"
      using \<open>ty \<noteq> 1\<close> \<open>ty \<noteq> 4\<close> by (auto simp: PT_LOAD_def PT_NOTE_def)
    then show ?thesis by (simp add: e Other_seg section_of_def parse_section_def)
  qed
qed

text \<open>What the loaded segments are, in order, and what the program returns.\<close>

definition loaded :: "seg list \<Rightarrow> bool list" where
  "loaded ss = concat (map (\<lambda>s. case s of Load_seg b \<Rightarrow> [b] | _ \<Rightarrow> []) ss)"

definition file_rc :: "core_opts \<Rightarrow> seg list \<Rightarrow> int" where
  "file_rc opts ss =
     (if action opts = FIND_EXEC then if loaded ss = [] \<or> hd (loaded ss) then 0 else -1
      else if \<forall>xs. Notes_seg xs \<in> set ss \<longrightarrow> passes opts xs then 0 else -1)"

lemma file_rc_Cons:
  "file_rc opts (s # ss) = (if seg_rc opts s < 0 then -1 else if seg_rc opts s = 0 then 0 else file_rc opts ss)"
  by (cases s) (auto simp: file_rc_def loaded_def passes_def)

lemma segments_rc:
  "(\<And>j. j < length ss \<Longrightarrow> \<exists>out. f (i + j) = Inr (seg_rc opts (ss ! j), out)) \<Longrightarrow>
   \<exists>out'. segments f (length ss) i out = Inr (file_rc opts ss, out')"
proof (induction ss arbitrary: i out)
  case Nil
  then show ?case by (simp add: file_rc_def loaded_def)
next
  case (Cons s ss)
  obtain o1 where h: "f i = Inr (seg_rc opts s, o1)" using Cons.prems [of 0] by auto
  have "\<exists>out. f (i + 1 + j) = Inr (seg_rc opts (ss ! j), out)" if "j < length ss" for j
    using Cons.prems [of "Suc j"] that by simp
  then have "\<exists>out'. segments f (length ss) (i + 1) (out @ o1) = Inr (file_rc opts ss, out')" by (rule Cons.IH)
  then show ?case by (auto simp: h file_rc_Cons)
qed

text \<open>A core file in memory, for one of the classes.\<close>

definition core_image :: "elf_class \<Rightarrow> char list \<Rightarrow> nat \<Rightarrow> seg list \<Rightarrow> bool" where
  "core_image cls m len ss \<longleftrightarrow> (\<exists>phoff es. elf_header cls m len phoff (length es) \<and> length ss = length es \<and>
     (\<forall>i<length es. entry_at cls m phoff i (es ! i) \<and> fst (snd (es ! i)) + snd (snd (es ! i)) \<le> len \<and>
        denotes m (es ! i) (ss ! i)))"

lemma parse_elf_image:
  assumes "core_image cls m len ss" and "opts_ok opts" and "\<And>xs. Notes_seg xs \<in> set ss \<Longrightarrow> length xs < n"
  shows "\<exists>out. parse_elf n m (word_of_nat len) opts = Inr (file_rc opts ss, out)"
proof -
  obtain phoff es where h: "elf_header cls m len phoff (length es)" and l: "length ss = length es" and
    es: "\<And>i. i < length es \<Longrightarrow> entry_at cls m phoff i (es ! i) \<and> fst (snd (es ! i)) + snd (snd (es ! i)) \<le> len" and
    d: "\<And>i. i < length es \<Longrightarrow> denotes m (es ! i) (ss ! i)"
    using assms(1) unfolding core_image_def by blast
  have "\<exists>out. section_of n m opts (es ! (0 + j)) = Inr (seg_rc opts (ss ! j), out)" if "j < length ss" for j
    using section_of_rc [OF d assms(2), of j n] assms(3) that l by (metis add_0 nth_mem)
  then have "\<exists>out. segments (\<lambda>i. section_of n m opts (es ! i)) (length ss) 0 [] = Inr (file_rc opts ss, out)"
    by (rule segments_rc)
  moreover have "parse_elf n m (word_of_nat len) opts = segments (\<lambda>i. section_of n m opts (es ! i)) (length es) 0 []"
    by (rule parse_elf_segments [OF h]) (rule es)
  ultimately show ?thesis unfolding l by simp
qed

section \<open>A segment that is not in the file\<close>

lemma be_value_zeros: "be_value (replicate k NULc) = 0"
  by (induction k) (simp_all add: be_value_def)

lemma load32_zeros:
  assumes "drop p m = replicate k NULc" and "int p \<le> a" and "nat a + 4 \<le> length m"
  shows "load32 m a = Inr 0"
proof -
  have "drop (nat a) m = drop (nat a - p) (drop p m)" using assms(2) by simp
  then have "take 4 (drop (nat a) m) = replicate (min 4 (k - (nat a - p))) NULc" using assms(1) by simp
  then show ?thesis using assms(2,3) by (simp add: load32_def load_def be_value_zeros)
qed

text \<open>With a size of 2^32 - 1, zero bytes are notes without end, until the memory ends.\<close>

lemma notes_loop_overruns:
  assumes z: "drop p m = replicate k NULc" and len: "length m = p + k" "length m < 2 ^ 31"
  shows "j \<le> k \<Longrightarrow> k < j + 12 * n \<Longrightarrow>
    notes_loop n m (int p) (- 1) opts (word_of_nat j) out = Inl Bad_access"
proof (induction n arbitrary: j out)
  case (Suc n)
  have j: "j < 2 ^ 31" using Suc.prems(1) len by linarith
  have minus: "(- 1 :: 32 word) = word_of_nat (2 ^ 32 - 1)" by simp
  have go: "(word_of_nat j :: 32 word) < - 1"
    by (subst minus, subst less_32) (use j in simp_all)
  show ?case
  proof (cases "j + 12 \<le> k")
    case False
    then have "load32 m (int p + int j + 8) = Inl Bad_access"
      using len by (auto simp: load32_def load_def nat_add_distrib)
    moreover have "load32 m (int p + int j) \<in> {Inr 0, Inl Bad_access}" "load32 m (int p + int j + 4) \<in> {Inr 0, Inl Bad_access}"
      using load32_zeros [OF z, of "int p + int j"] load32_zeros [OF z, of "int p + int j + 4"]
      by (auto simp: load32_def load_def)
    ultimately have "load_nhdr m (int p + int j) = Inl Bad_access" by (auto simp: load_nhdr_def)
    then show ?thesis using go by (simp add: sint_of_small [OF j])
  next
    case True
    define h where "h = \<lparr>n_namesz = 0, n_descsz = 0, n_type = (0 :: 32 word)\<rparr>"
    have load: "load_nhdr m (int p + int j) = Inr h"
      using True len load32_zeros [OF z, of "int p + int j"] load32_zeros [OF z, of "int p + int j + 4"]
        load32_zeros [OF z, of "int p + int j + 8"]
      by (simp add: load_nhdr_def nat_add_distrib h_def)
    have pads: "pad (sint (n_namesz h)) = Inr 0" "pad (sint (n_descsz h)) = Inr 0"
      by (simp_all add: pad_def and_not_3 h_def)
    have skip: "handle_note m (int p + int j) h opts = Inr (None, [])"
      by (simp add: handle_note_skips h_def)
    have in_range: "\<not> ucast (- 1 :: 32 word) < (word_of_nat (j + 12) :: 64 word)"
      unfolding minus by (subst ucast_up(3), simp, subst less_64) (use j in simp_all)
    have ends: "(word_of_nat j :: 64 word) + word_of_nat SIZEOF_NHDR + word_of_int 0 = word_of_nat (j + 12)"
      "(word_of_nat (j + 12) :: 64 word) + word_of_int 0 = word_of_nat (j + 12)"
      by simp_all
    have "notes_loop n m (int p) (- 1) opts (word_of_nat (j + 12)) (out @ []) = Inl Bad_access"
      using True Suc.prems(2) by (intro Suc.IH) simp_all
    then show ?thesis
      unfolding notes_loop.simps Let_def sint_of_small [OF j] load bnd_Inr pads scast_small [OF j] ends ucast_back skip
      using go in_range by simp
  qed
qed simp

end
