(* ===== verification/Core_Props.thy ===== *)
theory Core_Props
  imports Core_Elf
begin

text \<open>
  The results of \<open>tests/11-coredump/parse-core.c\<close> on whole files, with example files of the
  32-bit class.
\<close>

section \<open>Example files\<close>

definition elf32_header :: "nat \<Rightarrow> char list" where
  "elf32_header k = ELFMAG @ [CHR 0x01, CHR 0x02, CHR 0x01] @ replicate 9 NULc @
     be_bytes 2 4 @ be_bytes 2 20 @ be_bytes 4 1 @ be_bytes 4 0 @ be_bytes 4 52 @ be_bytes 4 0 @ be_bytes 4 0 @
     be_bytes 2 52 @ be_bytes 2 32 @ be_bytes 2 k @ be_bytes 2 0 @ be_bytes 2 0 @ be_bytes 2 0"

definition elf32_phdr :: "nat \<Rightarrow> nat \<Rightarrow> nat \<Rightarrow> char list" where
  "elf32_phdr ty off sz = be_bytes 4 ty @ be_bytes 4 off @ be_bytes 4 0 @ be_bytes 4 0 @
     be_bytes 4 sz @ be_bytes 4 0 @ be_bytes 4 0 @ be_bytes 4 0"

lemma load_at:
  assumes "m = p @ be_bytes n v @ r" and "int (length p) = a" and "v < 256 ^ n"
  shows "load m a n = Inr v"
  using load_append [OF assms(2) length_be_bytes, of n v r] assms(1,3) by (simp add: be_value_bytes)

lemma elf32_header_ok:
  assumes "m = elf32_header k @ r" and "len \<le> length m" and "len < 2 ^ 32" and "52 + 32 * k \<le> len" and "52 < len" and "k < 65536"
  shows "elf_header Class32 m len 52 k"
proof -
  have "memeq_ptr m 0 ELFMAG = Inr True" by (simp add: assms(1) elf32_header_def memeq_ptr_def)
  moreover have "byte_at m 4 = Inr CHR 0x01" "byte_at m 5 = Inr CHR 0x02" "byte_at m 6 = Inr CHR 0x01"
    by (simp_all add: assms(1) elf32_header_def ELFMAG_def byte_at_def char_at_def)
  moreover have "load m 18 2 = Inr 20"
    by (rule load_at [where p = "ELFMAG @ [CHR 0x01, CHR 0x02, CHR 0x01] @ replicate 9 NULc @ be_bytes 2 4"])
      (simp_all add: assms(1) elf32_header_def ELFMAG_def del: be_bytes.simps replicate.simps)
  moreover have "load m 28 4 = Inr 52"
    by (rule load_at [where p = "ELFMAG @ [CHR 0x01, CHR 0x02, CHR 0x01] @ replicate 9 NULc @ be_bytes 2 4 @ be_bytes 2 20 @ be_bytes 4 1 @ be_bytes 4 0"])
      (simp_all add: assms(1) elf32_header_def ELFMAG_def del: be_bytes.simps replicate.simps)
  moreover have "load m 42 2 = Inr 32"
    by (rule load_at [where p = "ELFMAG @ [CHR 0x01, CHR 0x02, CHR 0x01] @ replicate 9 NULc @ be_bytes 2 4 @ be_bytes 2 20 @ be_bytes 4 1 @ be_bytes 4 0 @ be_bytes 4 52 @ be_bytes 4 0 @ be_bytes 4 0 @ be_bytes 2 52"])
      (simp_all add: assms(1) elf32_header_def ELFMAG_def del: be_bytes.simps replicate.simps)
  moreover have "load m 44 2 = Inr k"
    by (rule load_at [where p = "ELFMAG @ [CHR 0x01, CHR 0x02, CHR 0x01] @ replicate 9 NULc @ be_bytes 2 4 @ be_bytes 2 20 @ be_bytes 4 1 @ be_bytes 4 0 @ be_bytes 4 52 @ be_bytes 4 0 @ be_bytes 4 0 @ be_bytes 2 52 @ be_bytes 2 32"])
      (simp_all add: assms(1,6) elf32_header_def ELFMAG_def del: be_bytes.simps replicate.simps)
  ultimately show ?thesis using assms(2-5) by (simp add: elf_header_def)
qed

lemma elf32_phdr_ok:
  assumes "m = p @ elf32_phdr ty off sz @ r" and "length p = phoff + 32 * i"
    and "ty < 2 ^ 32" and "off < 2 ^ 32" and "sz < 2 ^ 32"
  shows "entry_at Class32 m phoff i (ty, off, sz)"
proof -
  have "load m (int (phoff + 32 * i)) 4 = Inr ty"
    by (rule load_at [where p = p]) (use assms in \<open>simp_all add: elf32_phdr_def del: be_bytes.simps\<close>)
  moreover have "load m (int (phoff + 32 * i) + 4) 4 = Inr off"
    by (rule load_at [where p = "p @ be_bytes 4 ty"]) (use assms in \<open>simp_all add: elf32_phdr_def del: be_bytes.simps\<close>)
  moreover have "load m (int (phoff + 32 * i) + 16) 4 = Inr sz"
    by (rule load_at [where p = "p @ be_bytes 4 ty @ be_bytes 4 off @ be_bytes 4 0 @ be_bytes 4 0"])
      (use assms in \<open>simp_all add: elf32_phdr_def del: be_bytes.simps\<close>)
  ultimately show ?thesis by (simp add: Let_def)
qed

text \<open>A file with one note segment, that of an SPU context's signal register.\<close>

definition one_note_core :: "char list" where
  "one_note_core = elf32_header 1 @ elf32_phdr 4 84 (length (notes_image [signal1_note])) @ notes_image [signal1_note]"

lemma signal1_image: "length (notes_image [signal1_note]) = 32"
  by (simp add: notes_image_def length_note_image length_padded signal1_note_def)

lemma length_elf32 [simp]: "length (elf32_header k) = 52" "length (elf32_phdr ty off sz) = 32"
  by (simp_all add: elf32_header_def elf32_phdr_def ELFMAG_def)

lemma one_note_length: "length one_note_core = 116"
  by (simp add: one_note_core_def signal1_image)

lemma one_note_image:
  assumes "m = one_note_core @ r"
  shows "core_image Class32 m 116 [Notes_seg [signal1_note]]"
proof -
  have "elf_header Class32 m 116 52 1"
    by (rule elf32_header_ok) (use assms one_note_length in \<open>simp_all add: one_note_core_def\<close>)
  moreover have "entry_at Class32 m 52 0 (4, 84, 32)"
    by (rule elf32_phdr_ok [where p = "elf32_header 1"])
      (use assms in \<open>simp_all add: one_note_core_def signal1_image\<close>)
  moreover have "denotes m (4, 84, 32) (Notes_seg [signal1_note])"
    by (use assms one_note_length in \<open>simp add: one_note_core_def signal1_image readable_def signal1_note_def\<close>)
  ultimately show ?thesis unfolding core_image_def by (intro exI [of _ 52] exI [of _ "[(4, 84, 32)]"]) simp
qed

lemma note_ok_signal1: "note_ok signal1_note"
  using note_ok_last [of signal1_note "''SPU/3''" "''signal1''"]
  by (simp add: check_cnames data_ok_def note_checks_def sized_def hex_def isdigit_def) (simp add: signal1_note_def)

section \<open>Properties\<close>

text \<open>
  C20.  The result of \<open>parse-core\<close> for a core file of either class, given by its segments:
  with \<open>--find-exec\<close>, 0 when the first loaded segment starts like an ELF file, and also when
  there is none; otherwise 0 when every note segment by itself passes, -1 when one does not.
  In particular \<open>--print-note\<close> fails on a file with several note segments unless each of them
  has the note.
\<close>

theorem parse_core_decides:
  assumes opts: "core_options os no_opts = Some opts" "opts_ok opts"
    and mapped: "map_file (files f) = Some (m, sz)"
    and image: "core_image cls m (length (file_bytes (files f))) ss"
    and fuel: "\<And>xs. Notes_seg xs \<in> set ss \<Longrightarrow> length xs < n"
  shows "\<exists>out. parse_core_main n files os [f] = Inr (file_rc opts ss, out)"
proof -
  have "sz = word_of_nat (length (file_bytes (files f)))" using mapped by (auto simp: map_file_def split: if_splits)
  then show ?thesis
    using parse_elf_image [OF image opts(2) fuel] opts(1) mapped by (simp add: parse_core_main_def)
qed

definition core_of :: "char list \<Rightarrow> core_file" where
  "core_of bs = \<lparr>can_open = True, can_stat = True, can_map = True, file_bytes = bs, page_size = 4096\<rparr>"

theorem parse_core_decides_witness:
  "\<exists>out. parse_core_main 2 (\<lambda>_. core_of one_note_core) [(CHR ''c'', [])] [''core.77''] = Inr (0, out)"
proof -
  have o: "core_options [(CHR ''c'', [])] no_opts = Some check_opts" "opts_ok check_opts"
    by (simp_all add: no_opts_def check_opts_def opts_ok_def)
  define m where "m = one_note_core @ replicate (page_fill 4096 116) NULc"
  have "one_note_core \<noteq> []" using one_note_length by auto
  then have mapped: "map_file (core_of one_note_core) = Some (m, 116)"
    by (simp add: map_file_def core_of_def m_def one_note_length)
  have len: "length (file_bytes (core_of one_note_core)) = 116" by (simp add: core_of_def one_note_length)
  have "\<exists>out. parse_core_main 2 (\<lambda>_. core_of one_note_core) [(CHR ''c'', [])] [''core.77''] =
      Inr (file_rc check_opts [Notes_seg [signal1_note]], out)"
    by (rule parse_core_decides [where files = "\<lambda>_. core_of one_note_core" and f = "''core.77''", OF o mapped, where cls = Class32 and ss = "[Notes_seg [signal1_note]]"])
      (use one_note_image [OF m_def] len in \<open>simp_all add: core_of_def\<close>)
  moreover have "file_rc check_opts [Notes_seg [signal1_note]] = 0"
    using note_ok_signal1 by (simp add: file_rc_def passes_def check_opts_def)
  ultimately show ?thesis by simp
qed

text \<open>
  In a 32-bit file the end of a segment is computed with 32 bits and wraps around: a note
  segment with the size 0xffffffff passes the test that it lies in the file, wherever it
  starts but at 0, and \<open>parse_notes\<close> is given a size beyond the file.  When zero bytes follow,
  it reads on until it leaves the mapping.
\<close>

theorem parse_elf_32_segment_wraps:
  assumes h: "elf_header Class32 m len phoff (Suc k)" and e: "entry_at Class32 m phoff 0 (4, off, 2 ^ 32 - 1)"
    and off: "0 < off" "off \<le> len" and z: "drop off m = replicate (length m - off) NULc"
    and "length m < 2 ^ 31" and "length m < n"
  shows "parse_elf n m (word_of_nat len) opts = Inl Bad_access"
proof -
  have b: "len \<le> length m" "len < 2 ^ 32" "phoff < len" using h by (simp_all add: elf_header_def)
  have l: "load32 m (int phoff) = Inr PT_NOTE" "load32 m (int phoff + 4) = Inr (word_of_nat off)"
      "load32 m (int phoff + 16) = Inr (- 1)"
    using e loads(2) [of m "int phoff + 16" "2 ^ 32 - 1"] by (simp_all add: Let_def loads PT_NOTE_def)
  have in_file: "\<not> (word_of_nat len :: 32 word) < word_of_nat off" "\<not> (word_of_nat len :: 32 word) < word_of_nat off + - 1"
  proof -
    have "(word_of_nat off :: 32 word) + - 1 = word_of_nat (off - 1)" using off(1) by (simp add: of_nat_diff)
    then show "\<not> (word_of_nat len :: 32 word) < word_of_nat off + - 1"
      using b off less_32 [of len "off - 1"] by simp
    show "\<not> (word_of_nat len :: 32 word) < word_of_nat off" using b off less_32 [of len off] by simp
  qed
  have "parse_notes n m (int off) (- 1) opts = Inl Bad_access"
    using notes_loop_overruns [OF z, of 0 n opts "[]"] assms(6,7) b off by (simp add: parse_notes_def)
  then have "segment_32 n m (word_of_nat len) opts (word_of_nat phoff) 0 = Inl Bad_access"
    using l in_file b off
    by (simp add: segment_32_def uint_of_small parse_section_def PT_LOAD_def PT_NOTE_def)
  then show ?thesis unfolding parse_elf_header_32 [OF h] by simp
qed

definition wrapping_core :: "char list" where
  "wrapping_core = elf32_header 1 @ elf32_phdr 4 84 (2 ^ 32 - 1) @ replicate 30 NULc"

theorem parse_elf_32_segment_wraps_witness:
  "parse_elf 200 wrapping_core 90 check_opts = Inl Bad_access"
proof -
  have len: "length wrapping_core = 114" by (simp add: wrapping_core_def)
  have h: "elf_header Class32 wrapping_core 90 52 (Suc 0)"
    by (rule elf32_header_ok [OF wrapping_core_def [unfolded One_nat_def]]) (use len in simp_all)
  have e: "entry_at Class32 wrapping_core 52 0 (4, 84, 2 ^ 32 - 1)"
    by (rule elf32_phdr_ok [OF wrapping_core_def]) simp_all
  have z: "drop 84 wrapping_core = replicate (length wrapping_core - 84) NULc"
    unfolding len by (simp add: wrapping_core_def)
  have "parse_elf 200 wrapping_core (word_of_nat 90) check_opts = Inl Bad_access"
    by (rule parse_elf_32_segment_wraps [OF h e _ _ z]) (simp_all add: len)
  then show ?thesis by simp
qed

end
