(* ===== verification/Spu_Program.thy ===== *)
theory Spu_Program
  imports Prelude
begin

unbundle bit_operations_syntax

text \<open>
  The program that \<open>tests/20-scheduler/sched_multiple.c\<close> loads into its contexts: the words of
  \<open>spe_program\<close>, the instructions that its comments list, and what they do with the messages
  that the host writes to the mailbox.  Of a register only the first word matters here.  The
  meaning of the instructions is that of the SPU's documented instruction set.
\<close>

section \<open>Words and instructions\<close>

definition spe_program :: "32 word list" where
  "spe_program =
     [0, 0, 0, 0,
      0x40800007, 0x32f80005, 0x01a00e83, 0x01a00e84, 0x1c004387, 0x20800007, 0x78010286, 0x20000106, 0x00001337,
      0x78010188, 0x217ffc88, 0x00000000]"

text \<open>Target registers come first; branches are relative, in words.\<close>

datatype spu_instr =
    Il nat "16 word"
  | Fsmbi nat "16 word"
  | Rdch nat
  | Ai nat nat "10 word"
  | Stqa nat
  | Ceq nat nat nat
  | Brz nat "16 word"
  | Brnz nat "16 word"
  | Stop "14 word"

definition spe_listing :: "spu_instr list" where
  "spe_listing =
     [Il 7 0, Fsmbi 5 0xf000, Rdch 3, Rdch 4, Ai 7 7 1, Stqa 7, Ceq 6 5 4, Brz 6 2, Stop 0x1337,
      Ceq 8 3 4, Brnz 8 (-7), Stop 0]"

text \<open>The encodings: operation code, immediate or channel 29, registers.\<close>

fun encode :: "spu_instr \<Rightarrow> 32 word" where
  "encode (Il rt i) = 0x40800000 OR push_bit 7 (ucast i) OR word_of_nat rt"
| "encode (Fsmbi rt i) = 0x32800000 OR push_bit 7 (ucast i) OR word_of_nat rt"
| "encode (Rdch rt) = 0x01a00000 OR push_bit 7 29 OR word_of_nat rt"
| "encode (Ai rt ra i) = 0x1c000000 OR push_bit 14 (ucast i) OR push_bit 7 (word_of_nat ra) OR word_of_nat rt"
| "encode (Stqa rt) = 0x20800000 OR word_of_nat rt"
| "encode (Ceq rt ra rb) = 0x78000000 OR push_bit 14 (word_of_nat rb) OR push_bit 7 (word_of_nat ra) OR word_of_nat rt"
| "encode (Brz rt i) = 0x20000000 OR push_bit 7 (ucast i) OR word_of_nat rt"
| "encode (Brnz rt i) = 0x21000000 OR push_bit 7 (ucast i) OR word_of_nat rt"
| "encode (Stop c) = ucast c"

text \<open>The comments of the program describe its words.\<close>

lemma spe_listing_encodes: "spe_program = [0, 0, 0, 0] @ map encode spe_listing"
  by (simp add: spe_program_def spe_listing_def)

section \<open>Execution\<close>

text \<open>A context: the instruction it is at, its registers, and the word at address 0.\<close>

record spu =
  spu_pc :: int
  spu_reg :: "nat \<Rightarrow> 32 word"
  spu_count :: "32 word"

text \<open>It stops with a status for \<open>spu_run\<close>, or waits for a message that is not there.\<close>

datatype spu_end = Stopped "32 word" | Starved

text \<open>Each bit of the immediate makes a byte; the first four make the first word.\<close>

definition fsmbi_word :: "16 word \<Rightarrow> 32 word" where
  "fsmbi_word i =
     (if bit i 15 then 0xff000000 else 0) OR (if bit i 14 then 0x00ff0000 else 0) OR
     (if bit i 13 then 0x0000ff00 else 0) OR (if bit i 12 then 0x000000ff else 0)"

definition set_reg :: "nat \<Rightarrow> 32 word \<Rightarrow> spu \<Rightarrow> spu" where
  "set_reg r v c = c\<lparr>spu_reg := (spu_reg c)(r := v), spu_pc := spu_pc c + 1\<rparr>"

definition spu_step :: "spu_instr \<Rightarrow> spu \<Rightarrow> 32 word list \<Rightarrow> spu_end + spu \<times> 32 word list" where
  "spu_step i c ms = (case i of
       Il rt v \<Rightarrow> Inr (set_reg rt (scast v) c, ms)
     | Fsmbi rt v \<Rightarrow> Inr (set_reg rt (fsmbi_word v) c, ms)
     | Rdch rt \<Rightarrow> (case ms of [] \<Rightarrow> Inl Starved | m # ms \<Rightarrow> Inr (set_reg rt m c, ms))
     | Ai rt ra v \<Rightarrow> Inr (set_reg rt (spu_reg c ra + scast v) c, ms)
     | Stqa rt \<Rightarrow> Inr (c\<lparr>spu_count := spu_reg c rt, spu_pc := spu_pc c + 1\<rparr>, ms)
     | Ceq rt ra rb \<Rightarrow> Inr (set_reg rt (if spu_reg c ra = spu_reg c rb then - 1 else 0) c, ms)
     | Brz rt v \<Rightarrow> Inr (c\<lparr>spu_pc := spu_pc c + (if spu_reg c rt = 0 then sint v else 1)\<rparr>, ms)
     | Brnz rt v \<Rightarrow> Inr (c\<lparr>spu_pc := spu_pc c + (if spu_reg c rt \<noteq> 0 then sint v else 1)\<rparr>, ms)
     | Stop code \<Rightarrow> Inl (Stopped (push_bit 16 (ucast code) OR 2)))"

text \<open>The result with the counter; \<open>None\<close> when the fuel runs out.\<close>

fun spu_exec :: "nat \<Rightarrow> spu \<Rightarrow> 32 word list \<Rightarrow> (spu_end \<times> 32 word) option" where
  "spu_exec 0 c ms = None"
| "spu_exec (Suc n) c ms =
     (case spu_step (spe_listing ! nat (spu_pc c - 4)) c ms of
        Inl e \<Rightarrow> Some (e, spu_count c)
      | Inr (c, ms) \<Rightarrow> spu_exec n c ms)"

text \<open>It is entered at address 0x10, the fourth word.\<close>

definition spu_start :: spu where
  "spu_start = \<lparr>spu_pc = 4, spu_reg = (\<lambda>_. 0), spu_count = 0\<rparr>"

text \<open>Three instructions in front of the loop, and at most eight in each round of it.\<close>

definition spu_fuel :: "32 word list \<Rightarrow> nat" where
  "spu_fuel ms = 8 * length ms + 4"

definition context_end :: "32 word list \<Rightarrow> spu_end" where
  "context_end ms = (case spu_exec (spu_fuel ms) spu_start ms of None \<Rightarrow> Starved | Some (e, _) \<Rightarrow> e)"

section \<open>What the program does\<close>

text \<open>
  The protocol: the first message, whatever it is, is the context's number; then messages are
  counted as long as they are that number; 0xffffffff stops the context, any other message
  is an error.
\<close>

definition STOP_1337 :: "32 word" where "STOP_1337 = 0x13370002"
definition STOP_0 :: "32 word" where "STOP_0 = 2"

fun counting :: "32 word \<Rightarrow> 32 word list \<Rightarrow> 32 word \<Rightarrow> spu_end \<times> 32 word" where
  "counting i [] k = (Starved, k)"
| "counting i (m # ms) k =
     (if m = - 1 then (Stopped STOP_1337, k + 1) else if m = i then counting i ms (k + 1) else (Stopped STOP_0, k + 1))"

fun protocol :: "32 word list \<Rightarrow> spu_end \<times> 32 word" where
  "protocol [] = (Starved, 0)"
| "protocol (i # ms) = counting i ms 0"

lemma listing_at:
  "spe_listing ! 0 = Il 7 0" "spe_listing ! Suc 0 = Fsmbi 5 0xf000" "spe_listing ! 2 = Rdch 3" "spe_listing ! 3 = Rdch 4"
  "spe_listing ! 4 = Ai 7 7 1" "spe_listing ! 5 = Stqa 7" "spe_listing ! 6 = Ceq 6 5 4" "spe_listing ! 7 = Brz 6 2"
  "spe_listing ! 8 = Stop 0x1337" "spe_listing ! 9 = Ceq 8 3 4" "spe_listing ! 10 = Brnz 8 (-7)" "spe_listing ! 11 = Stop 0"
  by (simp_all add: spe_listing_def)

definition in_loop :: "32 word \<Rightarrow> 32 word \<Rightarrow> spu \<Rightarrow> bool" where
  "in_loop i k c \<longleftrightarrow> spu_pc c = 7 \<and> spu_reg c 3 = i \<and> spu_reg c 5 = - 1 \<and> spu_reg c 7 = k \<and> spu_count c = k"

lemma exec_loop:
  "in_loop i k c \<Longrightarrow> 8 * length ms + 1 \<le> n \<Longrightarrow> spu_exec n c ms = Some (counting i ms k)"
proof (induction ms arbitrary: n c k)
  case Nil
  then obtain m where "n = Suc m" by (cases n) auto
  then show ?case using Nil.prems(1) by (simp add: in_loop_def listing_at spu_step_def)
next
  case (Cons x ms)
  then have "n = Suc (Suc (Suc (Suc (Suc (Suc (Suc (Suc (n - 8))))))))" by simp
  then obtain m where n: "n = Suc (Suc (Suc (Suc (Suc (Suc (Suc (Suc m)))))))" by blast
  define c1 where "c1 = c\<lparr>spu_pc := 11, spu_count := k + 1,
    spu_reg := (spu_reg c)(4 := x, 7 := k + 1, 6 := if x = - 1 then - 1 else 0)\<rparr>"
  define c2 where "c2 = c1\<lparr>spu_pc := 14, spu_reg := (spu_reg c1)(8 := if i = x then - 1 else 0)\<rparr>"
  have four: "spu_exec n c (x # ms) = spu_exec (Suc (Suc (Suc (Suc m)))) c1 ms"
    using Cons.prems(1) by (auto simp: n in_loop_def listing_at spu_step_def set_reg_def c1_def fun_upd_twist)
  have pc1: "spu_pc c1 = 11" and reg: "spu_reg c1 6 = (if x = - 1 then - 1 else 0)" "spu_reg c1 3 = i" "spu_reg c1 4 = x"
    using Cons.prems(1) by (simp_all add: c1_def in_loop_def)
  show ?case
  proof (cases "x = - 1")
    case True
    then show ?thesis
      unfolding four using pc1 reg by (simp add: listing_at spu_step_def c1_def STOP_1337_def)
  next
    case False
    then have two: "spu_exec (Suc (Suc (Suc (Suc m)))) c1 ms = spu_exec (Suc (Suc m)) c2 ms"
      using pc1 reg by (simp add: listing_at spu_step_def set_reg_def c2_def)
    show ?thesis
    proof (cases "x = i")
      case True
      have l: "in_loop i (k + 1) (c2\<lparr>spu_pc := 7\<rparr>)"
        using Cons.prems(1) by (simp add: in_loop_def c2_def c1_def)
      have "spu_exec (Suc (Suc m)) c2 ms = spu_exec (Suc m) (c2\<lparr>spu_pc := 7\<rparr>) ms"
        using True by (simp add: listing_at spu_step_def c2_def)
      also have "\<dots> = Some (counting i ms (k + 1))"
        by (rule Cons.IH [OF l]) (use Cons.prems(2) n in simp)
      finally show ?thesis unfolding four two using False True by simp
    next
      case F2: False
      then show ?thesis
        unfolding four two using False by (simp add: listing_at spu_step_def c2_def c1_def STOP_0_def)
    qed
  qed
qed

text \<open>The fuel is enough, and the program is the protocol.\<close>

lemma exec_protocol: "spu_exec (spu_fuel ms) spu_start ms = Some (protocol ms)"
proof (cases ms)
  case Nil
  have "spu_fuel ms = Suc (Suc (Suc (Suc 0)))" by (simp add: spu_fuel_def Nil)
  then show ?thesis by (simp add: Nil spu_start_def listing_at spu_step_def set_reg_def)
next
  case (Cons x xs)
  define n where "n = 8 * length xs + 9"
  have "spu_fuel ms = Suc (Suc (Suc n))" by (simp add: spu_fuel_def Cons n_def)
  moreover have "in_loop x 0 (spu_start\<lparr>spu_pc := 7, spu_reg := (spu_reg spu_start)(7 := 0, 5 := - 1, 3 := x)\<rparr>)"
    by (simp add: in_loop_def spu_start_def)
  moreover have "8 * length xs + 1 \<le> n" by (simp add: n_def)
  moreover have "fsmbi_word 0xf000 = - 1" by (simp add: fsmbi_word_def)
  ultimately show ?thesis
    using exec_loop [of x 0 _ xs n]
    by (simp add: Cons spu_start_def listing_at spu_step_def set_reg_def)
qed

lemma context_end_protocol: "context_end ms = fst (protocol ms)"
  by (simp add: context_end_def exec_protocol split: prod.split)

lemma counting_named:
  "j \<noteq> - 1 \<Longrightarrow> counting j (replicate n j @ [- 1]) k = (Stopped STOP_1337, k + of_nat n + 1)"
  "j \<noteq> - 1 \<Longrightarrow> counting j (replicate n j) k = (Starved, k + of_nat n)"
  by (induction n arbitrary: k) (simp_all add: algebra_simps)

text \<open>
  What becomes of a context that is sent its number some times and then the stop message: it
  stops as it should, having counted how often it was named; but one that is never named takes
  the stop message for its number and waits for ever.
\<close>

lemma protocol_named:
  assumes "j \<noteq> - 1"
  shows "protocol (replicate n j @ [- 1]) =
      (if n = 0 then (Starved, 0) else (Stopped STOP_1337, of_nat n))"
    and "fst (protocol (replicate n j)) = Starved"
  using assms by (cases n; simp add: counting_named)+

end
