(* ===== verification/Sched_Multiple.thy ===== *)
theory Sched_Multiple
  imports Spu_Program
begin

text \<open>
  \<open>tests/20-scheduler/sched_multiple.c\<close>: a program that drives several SPU contexts with a
  pattern read from a file.  The first byte of the file is the number of contexts, each other
  byte the context that gets the next message.  What the system answers is a parameter; what a
  context does with its messages is the program of \<open>Spu_Program\<close>.  The threads that run the
  contexts show only through the flag \<open>thread_abort\<close> and the status of each context.
\<close>

section \<open>The data set\<close>

record data_file =
  d_open :: bool
  d_stat :: bool
  d_map :: bool
  d_bytes :: "8 word list"

text \<open>\<open>None\<close> when -1 is returned; \<open>mmap\<close> fails when the length is 0.\<close>

definition read_dataset :: "data_file \<Rightarrow> (8 word \<times> 8 word list) option" where
  "read_dataset f =
     (if \<not> d_open f \<or> \<not> d_stat f \<or> \<not> d_map f then None
      else case d_bytes f of [] \<Rightarrow> None | n_spes # pattern \<Rightarrow> Some (n_spes, pattern))"

section \<open>The contexts\<close>

record spe_thread_info =
  ctx :: int
  mbox :: int
  run_rc :: "32 word"
  writes :: int

text \<open>
  The answers of the system while a context is set up, fed and waited for.  \<open>run_error\<close> is a
  status with which the kernel ends \<open>spu_run\<close> by itself.
\<close>

record ctx_env =
  ctx_fd :: int
  mem_fd :: int
  mbox_fd :: int
  program_written :: bool
  thread_created :: bool
  stop_written :: bool
  joined :: bool
  run_error :: "32 word option"

datatype sched_out =
    Sched_usage
  | Using "8 word" nat
  | Writes nat int
  | Thread_ended nat "32 word"
  | Invalid_rc "32 word"

text \<open>The thread of a context: it keeps the status, and sets \<open>thread_abort\<close> for a wrong one.\<close>

definition spe_thread :: "spe_thread_info \<Rightarrow> 32 word \<Rightarrow> spe_thread_info \<times> bool" where
  "spe_thread t status = (t\<lparr>run_rc := status\<rparr>, status \<noteq> STOP_1337)"

text \<open>
  The set-up of the contexts \<open>i\<close>, \<open>i + 1\<close>, \<open>\<dots>\<close>, as many as the first argument says.  The
  result is the exit status of a failure, or \<open>None\<close>.
\<close>

fun set_up ::
    "nat \<Rightarrow> (nat \<Rightarrow> ctx_env) \<Rightarrow> nat \<Rightarrow> spe_thread_info list \<Rightarrow> (int option \<times> spe_thread_info list) res" where
  "set_up 0 env i ts = Inr (None, ts)"
| "set_up (Suc k) env i ts =
     (let e = env i in
      if ctx_fd e < 0 \<or> mem_fd e < 0 \<or> mbox_fd e < 0 then Inl Aborted
      else if i \<ge> length ts then Inl Bad_access
      else
        let ts = ts[i := (ts ! i)\<lparr>ctx := ctx_fd e, mbox := mbox_fd e, writes := 0\<rparr>] in
        if \<not> program_written e then Inr (Some 1, ts)
        else if \<not> thread_created e then Inr (Some 1, ts)
        else set_up k env (i + 1) ts)"

text \<open>How \<open>spu_run\<close> ends for a context that has been sent these messages.\<close>

definition context_status :: "ctx_env \<Rightarrow> 32 word list \<Rightarrow> spu_end" where
  "context_status e ms = (case run_error e of Some rc \<Rightarrow> Stopped rc | None \<Rightarrow> context_end ms)"

text \<open>Whether a thread has set \<open>thread_abort\<close>, when \<open>mail\<close> are the messages of each context.\<close>

definition thread_abort :: "(nat \<Rightarrow> ctx_env) \<Rightarrow> spe_thread_info list \<Rightarrow> 32 word list list \<Rightarrow> bool" where
  "thread_abort env ts mail \<longleftrightarrow> (\<exists>j<length ts. case context_status (env j) (mail ! j) of
     Starved \<Rightarrow> False | Stopped status \<Rightarrow> snd (spe_thread (ts ! j) status))"

text \<open>
  The messages.  \<open>steps i\<close> tells whether the write of message \<open>i\<close> succeeds, and whether the
  threads have got far enough for \<open>thread_abort\<close>, when they set it, to be seen after it.
\<close>

fun send_pattern ::
    "8 word list \<Rightarrow> (nat \<Rightarrow> ctx_env) \<Rightarrow> (nat \<Rightarrow> bool \<times> bool) \<Rightarrow> nat \<Rightarrow> spe_thread_info list \<Rightarrow> 32 word list list \<Rightarrow>
     (int option \<times> spe_thread_info list \<times> 32 word list list) res" where
  "send_pattern [] env steps i ts mail = Inr (None, ts, mail)"
| "send_pattern (p # ps) env steps i ts mail =
     (let j = unat p in
      if j \<ge> length ts then Inl Bad_access
      else
        let ts = ts[j := (ts ! j)\<lparr>writes := writes (ts ! j) + 1\<rparr>] in
        if \<not> fst (steps i) then Inr (Some 1, ts, mail)
        else
          let mail = mail[j := mail ! j @ [ucast p]] in
          if snd (steps i) \<and> thread_abort env ts mail then Inr (Some 1, ts, mail)
          else send_pattern ps env steps (i + 1) ts mail)"

text \<open>The stop messages and the end of the contexts; one that does not end is waited for.\<close>

fun wait_all ::
    "nat \<Rightarrow> (nat \<Rightarrow> ctx_env) \<Rightarrow> nat \<Rightarrow> spe_thread_info list \<Rightarrow> 32 word list list \<Rightarrow> sched_out list \<Rightarrow> (int \<times> sched_out list) res" where
  "wait_all 0 env i ts mail out = Inr (0, out)"
| "wait_all (Suc k) env i ts mail out =
     (if i \<ge> length ts then Inl Bad_access
      else
        let e = env i; out = out @ [Writes i (writes (ts ! i))] in
        if \<not> stop_written e then Inr (1, out)
        else if \<not> joined e then Inr (1, out)
        else case context_status e (mail ! i @ [0xffffffff]) of
            Starved \<Rightarrow> Inl Never_returns
          | Stopped status \<Rightarrow>
              let t = fst (spe_thread (ts ! i) status); out = out @ [Thread_ended i (run_rc t)] in
              if run_rc t \<noteq> STOP_1337 then Inr (1, out @ [Invalid_rc (run_rc t)])
              else wait_all k env (i + 1) ts mail out)"

definition sched_main ::
    "(string \<Rightarrow> data_file) \<Rightarrow> (nat \<Rightarrow> ctx_env) \<Rightarrow> (nat \<Rightarrow> bool \<times> bool) \<Rightarrow> string list \<Rightarrow> (int \<times> sched_out list) res" where
  "sched_main files env steps args = (case args of
       [f] \<Rightarrow>
         (case read_dataset (files f) of
            None \<Rightarrow> Inr (1, [])
          | Some (n_spes, pattern) \<Rightarrow>
              let out = [Using n_spes (length pattern)];
                  ts = replicate (unat n_spes) \<lparr>ctx = 0, mbox = 0, run_rc = 0, writes = 0\<rparr> in
              bnd (set_up (unat n_spes) env 0 ts) (\<lambda>(bad, ts). case bad of Some rc \<Rightarrow> Inr (rc, out) | None \<Rightarrow>
              bnd (send_pattern pattern env steps 0 ts (replicate (unat n_spes) [])) (\<lambda>(bad, ts, mail).
              case bad of Some rc \<Rightarrow> Inr (rc, out) | None \<Rightarrow>
              wait_all (unat n_spes) env 0 ts mail out)))
     | _ \<Rightarrow> Inr (1, [Sched_usage]))"

section \<open>What a run does\<close>

definition healthy :: "ctx_env \<Rightarrow> bool" where
  "healthy e \<longleftrightarrow> 0 \<le> ctx_fd e \<and> 0 \<le> mem_fd e \<and> 0 \<le> mbox_fd e \<and> program_written e \<and> thread_created e \<and>
     stop_written e \<and> joined e \<and> run_error e = None"

lemma set_up_healthy:
  "(\<And>j. i \<le> j \<Longrightarrow> j < i + k \<Longrightarrow> healthy (env j)) \<Longrightarrow> i + k \<le> length ts \<Longrightarrow> map writes ts = replicate (length ts) 0 \<Longrightarrow>
   \<exists>ts'. set_up k env i ts = Inr (None, ts') \<and> length ts' = length ts \<and> map writes ts' = replicate (length ts) 0"
proof (induction k arbitrary: i ts)
  case (Suc k)
  define us where "us = ts[i := (ts ! i)\<lparr>ctx := ctx_fd (env i), mbox := mbox_fd (env i), writes := 0\<rparr>]"
  have "map writes us = (map writes ts)[i := 0]" by (simp add: us_def map_update)
  then have us: "map writes us = replicate (length us) 0" "length us = length ts"
    using Suc.prems(2,3) by (simp_all add: us_def list_update_same_conv)
  have "healthy (env i)" using Suc.prems(1) [of i] by simp
  then have "set_up (Suc k) env i ts = set_up k env (i + 1) us"
    using Suc.prems(2) by (auto simp: healthy_def us_def Let_def)
  then show ?case using Suc.IH [of "i + 1" us] Suc.prems(1,2) us by simp
qed auto

text \<open>
  The host is in step with the contexts: what context \<open>j\<close> has been sent is its own number, as
  often as its counter says.
\<close>

definition in_step :: "(nat \<Rightarrow> nat) \<Rightarrow> spe_thread_info list \<Rightarrow> 32 word list list \<Rightarrow> bool" where
  "in_step k ts mail \<longleftrightarrow> length mail = length ts \<and> length ts \<le> 256 \<and>
     (\<forall>j<length ts. writes (ts ! j) = int (k j) \<and> mail ! j = replicate (k j) (word_of_nat j))"

lemma small_not_stop: "j < 256 \<Longrightarrow> (word_of_nat j :: 32 word) \<noteq> - 1"
proof
  assume "j < 256" and "(word_of_nat j :: 32 word) = - 1"
  then have "unat (word_of_nat j :: 32 word) = unat (- 1 :: 32 word)" by simp
  moreover have "unat (- 1 :: 32 word) = 4294967295" by (simp add: unsigned_minus_1_eq_mask mask_eq_exp_minus_1)
  ultimately show False using \<open>j < 256\<close> by (simp add: unat_of_nat)
qed

lemma in_step_no_abort: "in_step k ts mail \<Longrightarrow> (\<And>j. healthy (env j)) \<Longrightarrow> \<not> thread_abort env ts mail"
  using small_not_stop
  by (fastforce simp: thread_abort_def in_step_def context_status_def healthy_def context_end_protocol protocol_named)

lemma send_pattern_in_step:
  assumes env: "\<And>j. healthy (env j)" and steps: "\<And>i. fst (steps i)"
  shows "in_step k ts mail \<Longrightarrow>
   if \<forall>p\<in>set ps. unat p < length ts
   then \<exists>us mail'. send_pattern ps env steps i ts mail = Inr (None, us, mail') \<and> length us = length ts \<and>
     in_step (\<lambda>j. k j + count_list (map unat ps) j) us mail'
   else send_pattern ps env steps i ts mail = Inl Bad_access"
proof (induction ps arbitrary: i ts mail k)
  case (Cons p ps)
  show ?case
  proof (cases "unat p < length ts")
    case True
    define us where "us = ts[unat p := (ts ! unat p)\<lparr>writes := writes (ts ! unat p) + 1\<rparr>]"
    define mail1 where "mail1 = mail[unat p := mail ! unat p @ [ucast p]]"
    define k1 where "k1 = k(unat p := k (unat p) + 1)"
    have "(ucast p :: 32 word) = word_of_nat (unat p)" by simp
    then have st: "in_step k1 us mail1"
      using Cons.prems True
      by (auto simp: in_step_def us_def mail1_def k1_def nth_list_update replicate_append_same)
    have run: "send_pattern (p # ps) env steps i ts mail = send_pattern ps env steps (Suc i) us mail1"
      using True steps [of i] in_step_no_abort [OF st env] by (simp add: us_def mail1_def Let_def)
    have "(\<lambda>j. k1 j + count_list (map unat ps) j) = (\<lambda>j. k j + count_list (map unat (p # ps)) j)"
      by (auto simp: k1_def)
    moreover have "length us = length ts" by (simp add: us_def)
    ultimately show ?thesis
      using Cons.IH [OF st, of "Suc i"] True unfolding run by (cases "\<forall>p\<in>set ps. unat p < length ts") auto
  next
    case False
    then show ?thesis by (simp add: Let_def)
  qed
qed simp

lemma all_ones: "(0xffffffff :: 32 word) = - 1" by simp

text \<open>The first context that was never named is waited for.\<close>

lemma wait_all_in_step:
  assumes env: "\<And>j. healthy (env j)" and st: "in_step k ts mail"
  shows "i + n \<le> length ts \<Longrightarrow>
   wait_all n env i ts mail out =
     (if \<forall>j. i \<le> j \<and> j < i + n \<longrightarrow> 0 < k j
      then Inr (0, out @ concat (map (\<lambda>j. [Writes j (int (k j)), Thread_ended j STOP_1337]) [i..<i + n]))
      else Inl Never_returns)"
proof (induction n arbitrary: i out)
  case (Suc n)
  have i: "i < length ts" "i < 256" using Suc.prems st by (auto simp: in_step_def)
  have "context_status (env i) (mail ! i @ [- 1]) = (if k i = 0 then Starved else Stopped STOP_1337)"
    using env [of i] st i small_not_stop [OF i(2)]
    by (simp add: context_status_def healthy_def context_end_protocol in_step_def protocol_named)
  then have e: "context_status (env i) (mail ! i @ [0xffffffff]) = (if k i = 0 then Starved else Stopped STOP_1337)"
    unfolding all_ones .
  show ?case
  proof (cases "k i = 0")
    case True
    have no: "\<not> (\<forall>j. i \<le> j \<and> j < i + Suc n \<longrightarrow> 0 < k j)"
    proof
      assume "\<forall>j. i \<le> j \<and> j < i + Suc n \<longrightarrow> 0 < k j"
      then have "0 < k i" by (elim allE [of _ i]) simp
      with True show False by simp
    qed
    have "wait_all (Suc n) env i ts mail out = Inl Never_returns"
      using env [of i] i unfolding wait_all.simps Let_def e if_P [OF True] by (simp add: healthy_def)
    then show ?thesis unfolding if_not_P [OF no] .
  next
    case False
    then have run: "wait_all (Suc n) env i ts mail out =
        wait_all n env (i + 1) ts mail (out @ [Writes i (int (k i)), Thread_ended i STOP_1337])"
      using env [of i] i st unfolding wait_all.simps Let_def e if_not_P [OF False]
      by (simp add: healthy_def spe_thread_def in_step_def)
    have "i \<le> j \<and> j < i + Suc n \<longleftrightarrow> j = i \<or> i + 1 \<le> j \<and> j < i + 1 + n" for j by auto
    then have range: "(\<forall>j. i \<le> j \<and> j < i + Suc n \<longrightarrow> 0 < k j) \<longleftrightarrow> (\<forall>j. i + 1 \<le> j \<and> j < i + 1 + n \<longrightarrow> 0 < k j)"
      using False by auto
    have upt: "[i..<i + Suc n] = i # [i + 1..<i + 1 + n]" using upt_rec [of i "i + Suc n"] by simp
    have "i + 1 + n \<le> length ts" using Suc.prems by simp
    show ?thesis
      unfolding run range upt Suc.IH [OF \<open>i + 1 + n \<le> length ts\<close>]
      by (simp only: append_assoc append.simps concat.simps list.map)
  qed
qed simp

text \<open>
  C37.  When the system fails nowhere, what \<open>sched_multiple\<close> does depends on the pattern only.  A
  byte that names no context makes it count outside its array of contexts.  Otherwise, when
  every context is named at least once, it ends with success and reports for each how often
  the pattern names it.  A context that is never named takes the stop message for its number
  and waits for another one: the program never returns.
\<close>

theorem sched_multiple_counts:
  assumes data: "read_dataset (files f) = Some (n_spes, pattern)"
    and env: "\<And>i. healthy (env i)" and steps: "\<And>i. fst (steps i)"
  shows "sched_main files env steps [f] =
    (if \<not> (\<forall>p\<in>set pattern. p < n_spes) then Inl Bad_access
     else if \<forall>j<n_spes. j \<in> set pattern
     then Inr (0, Using n_spes (length pattern) # concat (map (\<lambda>j.
       [Writes j (int (count_list (map unat pattern) j)), Thread_ended j STOP_1337]) [0..<unat n_spes]))
     else Inl Never_returns)"
proof -
  let ?n = "unat n_spes"
  define ts where "ts = replicate ?n \<lparr>ctx = 0, mbox = 0, run_rc = (0 :: 32 word), writes = 0\<rparr>"
  define k where "k = count_list (map unat pattern)"
  have n: "?n \<le> 256" using unsigned_less [of n_spes, where 'a = nat] by simp
  have "\<exists>us. set_up ?n env 0 ts = Inr (None, us) \<and> length us = length ts \<and> map writes us = replicate (length ts) 0"
    by (rule set_up_healthy) (simp_all add: env ts_def)
  then obtain us where us: "set_up ?n env 0 ts = Inr (None, us)" "length us = ?n" "map writes us = replicate ?n 0"
    by (auto simp: ts_def)
  have "writes (us ! j) = 0" if "j < ?n" for j
    using arg_cong [OF us(3), of "\<lambda>xs. xs ! j"] that us(2) by simp
  then have st: "in_step (\<lambda>_. 0) us (replicate ?n [])" using us(2) n by (simp add: in_step_def)
  have bytes: "(\<forall>p\<in>set pattern. unat p < length us) \<longleftrightarrow> (\<forall>p\<in>set pattern. p < n_spes)"
    by (simp add: us(2) word_less_nat_alt)
  have run: "sched_main files env steps [f] =
    bnd (send_pattern pattern env steps 0 us (replicate ?n [])) (\<lambda>(bad, ts, mail).
      case bad of Some rc \<Rightarrow> Inr (rc, [Using n_spes (length pattern)])
      | None \<Rightarrow> wait_all ?n env 0 ts mail [Using n_spes (length pattern)])"
    using us(1) by (simp add: sched_main_def data Let_def ts_def)
  note S = send_pattern_in_step [where ps = pattern and i = 0 and env = env and steps = steps, OF env steps st, unfolded bytes]
  show ?thesis
  proof (cases "\<forall>p\<in>set pattern. p < n_spes")
    case True
    with S obtain vs mail where vs: "send_pattern pattern env steps 0 us (replicate ?n []) = Inr (None, vs, mail)"
        "length vs = ?n" "in_step k vs mail"
      by (auto simp: k_def us(2))
    have "(\<forall>j. 0 \<le> j \<and> j < 0 + ?n \<longrightarrow> 0 < k j) \<longleftrightarrow> (\<forall>j<n_spes. j \<in> set pattern)"
    proof
      assume all: "\<forall>j. 0 \<le> j \<and> j < 0 + ?n \<longrightarrow> 0 < k j"
      show "\<forall>j<n_spes. j \<in> set pattern"
      proof (intro allI impI)
        fix j assume "j < n_spes"
        then have "count_list (map unat pattern) (unat j) \<noteq> 0" using all by (auto simp: k_def word_less_nat_alt)
        then show "j \<in> set pattern" by (auto simp: count_list_0_iff simp flip: word_unat_eq_iff)
      qed
    next
      assume all: "\<forall>j<n_spes. j \<in> set pattern"
      show "\<forall>j. 0 \<le> j \<and> j < 0 + ?n \<longrightarrow> 0 < k j"
      proof (intro allI impI)
        fix j assume "0 \<le> j \<and> j < 0 + ?n"
        then have j: "j < ?n" "unat (word_of_nat j :: 8 word) = j" using n by (simp_all add: unat_of_nat)
        then have "(word_of_nat j :: 8 word) \<in> set pattern" using all by (simp add: word_less_nat_alt)
        then have "j \<in> unat ` set pattern" using j(2) by (metis imageI)
        then have "k j \<noteq> 0" by (simp add: k_def count_list_0_iff)
        then show "0 < k j" by simp
      qed
    qed
    then show ?thesis
      using wait_all_in_step [where i = 0 and n = ?n and out = "[Using n_spes (length pattern)]", OF env vs(3)] True vs(1,2)
      by (simp add: run k_def)
  next
    case False
    then show ?thesis using S by (simp add: run)
  qed
qed

definition good_ctx :: ctx_env where
  "good_ctx = \<lparr>ctx_fd = 3, mem_fd = 4, mbox_fd = 5, program_written = True, thread_created = True, stop_written = True,
     joined = True, run_error = None\<rparr>"

definition data_of_bytes :: "8 word list \<Rightarrow> string \<Rightarrow> data_file" where
  "data_of_bytes bs = (\<lambda>_. \<lparr>d_open = True, d_stat = True, d_map = True, d_bytes = bs\<rparr>)"

theorem sched_multiple_counts_witness:
  "sched_main (data_of_bytes [2, 0, 1, 0]) (\<lambda>_. good_ctx) (\<lambda>_. (True, True)) [''data''] =
     Inr (0, [Using 2 3, Writes 0 2, Thread_ended 0 STOP_1337, Writes 1 1, Thread_ended 1 STOP_1337]) \<and>
   sched_main (data_of_bytes [2, 0, 0]) (\<lambda>_. good_ctx) (\<lambda>_. (True, True)) [''data''] = Inl Never_returns"
proof
  have h: "healthy good_ctx" by (simp add: healthy_def good_ctx_def)
  have two: "j < 2 \<longleftrightarrow> j = 0 \<or> j = 1" for j :: "8 word"
  proof
    assume "j < 2"
    then have "unat j < 2" by (simp add: word_less_nat_alt)
    then have "unat j = 0 \<or> unat j = 1" by linarith
    then show "j = 0 \<or> j = 1" by (simp add: word_unat_eq_iff)
  qed auto
  show "sched_main (data_of_bytes [2, 0, 1, 0]) (\<lambda>_. good_ctx) (\<lambda>_. (True, True)) [''data''] =
     Inr (0, [Using 2 3, Writes 0 2, Thread_ended 0 STOP_1337, Writes 1 1, Thread_ended 1 STOP_1337])"
    using h
    by (subst sched_multiple_counts [where n_spes = 2 and pattern = "[0, 1, 0]"])
      (simp_all add: read_dataset_def upt_rec data_of_bytes_def two)
  show "sched_main (data_of_bytes [2, 0, 0]) (\<lambda>_. good_ctx) (\<lambda>_. (True, True)) [''data''] = Inl Never_returns"
    using h
    by (subst sched_multiple_counts [where n_spes = 2 and pattern = "[0, 0]"])
      (simp_all add: read_dataset_def data_of_bytes_def two)
qed

end
