(* ===== verification/Dual_Ring.thy ===== *)
theory Dual_Ring
  imports Prelude
begin

unbundle bit_operations_syntax

text \<open>
  \<open>benchmarks/04-gang-sched/01-dual-ring.c\<close> with \<open>lib/include/test/hw.h\<close> and
  \<open>lib/include/test/timing.h\<close>: two gangs of SPU contexts, each of which passes a message round
  in a ring.  The program of the contexts runs on an SPU and is data here; what the host
  sets up, starts and reports is modelled.  What the system answers is a parameter.
\<close>

section \<open>Hardware and time\<close>

definition LS_SIZE :: nat where "LS_SIZE = 0x40000"
definition PSMAP_SIGNAL1_OFFSET :: "64 word" where "PSMAP_SIGNAL1_OFFSET = 0x1400c"

text \<open>The argument is the number of links of the directory, \<open>None\<close> when \<open>stat\<close> fails.\<close>

definition count_spes :: "nat option \<Rightarrow> int res" where
  "count_spes st_nlink = (case st_nlink of None \<Rightarrow> Inl Aborted | Some n \<Rightarrow> Inr (int n - 2))"

text \<open>Seconds and thousandths that are printed; the division is of numbers that are not negative.\<close>

definition timer_stop_and_print :: "int \<times> int \<Rightarrow> int \<times> int \<Rightarrow> int \<times> int" where
  "timer_stop_and_print start_time end_time =
     (let end_time = (if snd end_time < snd start_time then (fst end_time - 1, snd end_time + 1000000) else end_time) in
      (fst end_time - fst start_time, (snd end_time - snd start_time) div 1000))"

lemma thousandths: "0 \<le> (x :: int) \<Longrightarrow> x < 1000000 \<Longrightarrow> 0 \<le> x div 1000 \<and> x div 1000 < 1000"
  using zdiv_mono1 [of x 999999 1000] by (simp add: pos_imp_zdiv_nonneg_iff)

lemma timer_elapsed:
  assumes "0 \<le> us \<and> us < 1000000" and "0 \<le> ue \<and> ue < 1000000" and "timer_stop_and_print (ss, us) (se, ue) = (s, ms)"
  shows "0 \<le> ms \<and> ms < 1000 \<and> 1000 * s + ms = (1000000 * (se - ss) + (ue - us)) div 1000"
proof (cases "ue < us")
  case True
  then have "s = se - 1 - ss" "ms = (ue + 1000000 - us) div 1000" using assms(3) by (auto simp: timer_stop_and_print_def)
  moreover have "(1000000 * (se - ss) + (ue - us)) div 1000 = ((ue + 1000000 - us) + (1000 * (se - 1 - ss)) * 1000) div 1000"
    by (simp add: algebra_simps)
  ultimately show ?thesis using assms(1,2) True thousandths [of "ue + 1000000 - us"] by simp
next
  case False
  then have "s = se - ss" "ms = (ue - us) div 1000" using assms(3) by (auto simp: timer_stop_and_print_def)
  moreover have "(1000000 * (se - ss) + (ue - us)) div 1000 = ((ue - us) + (1000 * (se - ss)) * 1000) div 1000"
    by (simp add: algebra_simps)
  ultimately show ?thesis using assms(1,2) False thousandths [of "ue - us"] by simp
qed

section \<open>Gangs\<close>

definition ITERATIONS :: "32 word" where "ITERATIONS = 0x1000000"
definition NR_GANGS :: nat where "NR_GANGS = 2"
definition MAP_FAILED :: "64 word" where "MAP_FAILED = - 1"

definition spe_program :: "32 word list" where
  "spe_program =
     replicate 12 0 @
     [0x30800001, 0x3fe10082, 0x30800203, 0x40801604, 0x40800005, 0x40800206, 0x40805007, 0x40800088, 0x40800089,
      0x4281018b, 0x01a0018a, 0x1c00450a, 0xb142850b, 0x2080040a, 0x21a00804, 0x21a00881, 0x21a00902, 0x21a00986,
      0x21a00a05, 0x21a00a87, 0x21a00b08, 0x21a00b89, 0x01a00c0c, 0x1cffc183, 0x217ff903, 0x00001337]"

record spe_thread =
  t_ctx :: int
  psmap :: "64 word"
  lsmap :: "64 word"

text \<open>A gang, with the words of the local store of each of its contexts.\<close>

record spe_gang =
  gang_fd :: int
  nr_spes :: int
  threads :: "spe_thread list"
  stores :: "32 word list list"

record ring_env =
  r_ctx :: int
  r_psmap_fd :: int
  r_psmap :: "64 word"
  r_ls_fd :: int
  r_ls :: "64 word"
  r_store :: "32 word list"
  r_thread_rc :: int

text \<open>
  The first loop.  The test of the local store's mapping looks at context 1, whatever the
  context is that has been mapped.
\<close>

fun map_areas :: "nat \<Rightarrow> (nat \<Rightarrow> ring_env) \<Rightarrow> nat \<Rightarrow> spe_thread list \<Rightarrow> (int option \<times> spe_thread list) res" where
  "map_areas 0 env i ts = Inr (None, ts)"
| "map_areas (Suc k) env i ts =
     (let e = env i in
      if i \<ge> length ts then Inl Bad_access
      else if r_ctx e < 0 then Inr (Some 1, ts)
      else if r_psmap_fd e < 0 then Inl Aborted
      else if r_psmap e = MAP_FAILED then Inr (Some 1, ts)
      else if r_ls_fd e < 0 then Inl Aborted
      else
        let ts = ts[i := \<lparr>t_ctx = r_ctx e, psmap = r_psmap e, lsmap = r_ls e\<rparr>] in
        if 1 \<ge> length ts then Inl Bad_access
        else if lsmap (ts ! 1) = MAP_FAILED then Inr (Some 1, ts)
        else map_areas k env (i + 1) ts)"

text \<open>The second loop: the program, the address of the next context's register, the count.\<close>

definition fill_store :: "32 word list \<Rightarrow> 64 word \<Rightarrow> 32 word list" where
  "fill_store ls next_psmap =
     (spe_program @ drop (length spe_program) ls)
       [0 := ucast (drop_bit 32 next_psmap), 1 := ucast (next_psmap AND 0xffffffff), 4 := ITERATIONS]"

fun fill_stores :: "nat \<Rightarrow> nat \<Rightarrow> spe_thread list \<Rightarrow> 32 word list list \<Rightarrow> 32 word list list res" where
  "fill_stores 0 i ts st = Inr st"
| "fill_stores (Suc k) i ts st =
     (let next_psmap = psmap (ts ! ((i + 1) mod length ts)) + PSMAP_SIGNAL1_OFFSET in
      if lsmap (ts ! i) = MAP_FAILED then Inl Bad_access
      else fill_stores k (i + 1) ts (st[i := fill_store (st ! i) next_psmap]))"

text \<open>The result is the exit status and the gang; \<open>calloc\<close> is taken to succeed.\<close>

definition create_gang :: "int \<Rightarrow> int \<Rightarrow> (nat \<Rightarrow> ring_env) \<Rightarrow> (int \<times> spe_gang option) res" where
  "create_gang fd nr env =
     (if fd < 0 then Inr (1, None)
      else
        bnd (map_areas (nat nr) env 0 (replicate (nat nr) \<lparr>t_ctx = 0, psmap = 0, lsmap = 0\<rparr>)) (\<lambda>(bad, ts).
        case bad of Some rc \<Rightarrow> Inr (rc, None) | None \<Rightarrow>
          bnd (fill_stores (nat nr) 0 ts (map (\<lambda>i. r_store (env i)) [0..<nat nr])) (\<lambda>st.
          if \<exists>i<nat nr. r_thread_rc (env i) \<noteq> 0 then Inr (1, None)
          else Inr (0, Some \<lparr>gang_fd = fd, nr_spes = nr, threads = ts, stores = st\<rparr>))))"

text \<open>The address at which the message of a gang is started.\<close>

definition run_gang :: "spe_gang \<Rightarrow> 64 word res" where
  "run_gang g = (case threads g of [] \<Rightarrow> Inl Bad_access | t # _ \<Rightarrow> Inr (psmap t + PSMAP_SIGNAL1_OFFSET))"

fun create_gangs :: "nat \<Rightarrow> (nat \<Rightarrow> int) \<Rightarrow> int \<Rightarrow> (nat \<Rightarrow> nat \<Rightarrow> ring_env) \<Rightarrow> nat \<Rightarrow> spe_gang list \<Rightarrow> spe_gang list option res" where
  "create_gangs 0 fds nr envs i gs = Inr (Some gs)"
| "create_gangs (Suc k) fds nr envs i gs =
     bnd (create_gang (fds i) nr (envs i)) (\<lambda>(rc, g).
     case g of None \<Rightarrow> Inr None | Some g \<Rightarrow> create_gangs k fds nr envs (i + 1) (gs @ [g]))"

fun run_gangs :: "spe_gang list \<Rightarrow> 64 word list res" where
  "run_gangs [] = Inr []"
| "run_gangs (g # gs) = bnd (run_gang g) (\<lambda>a. bnd (run_gangs gs) (\<lambda>as. Inr (a # as)))"

text \<open>
  The status, the registers that got a message, and the time printed.  The results of
  \<open>wait_for_gang_completion\<close> are not used.
\<close>

definition dual_ring_main ::
    "nat option \<Rightarrow> (nat \<Rightarrow> int) \<Rightarrow> (nat \<Rightarrow> nat \<Rightarrow> ring_env) \<Rightarrow> int \<times> int \<Rightarrow> int \<times> int \<Rightarrow>
     (int \<times> 64 word list \<times> (int \<times> int) option) res" where
  "dual_ring_main st_nlink fds envs start_time end_time =
     bnd (count_spes st_nlink) (\<lambda>nr.
     bnd (create_gangs NR_GANGS fds nr envs 0 []) (\<lambda>gs.
     case gs of None \<Rightarrow> Inr (1, [], None) | Some gs \<Rightarrow>
       bnd (run_gangs gs) (\<lambda>sent. Inr (0, sent, Some (timer_stop_and_print start_time end_time)))))"

section \<open>The ring\<close>

lemma length_program: "length spe_program = 38"
  by (simp add: spe_program_def)

lemma fill_store_words:
  assumes "38 \<le> length ls"
  shows "(push_bit 32 (ucast (fill_store ls a ! 0)) OR ucast (fill_store ls a ! 1) :: 64 word) = a"
    "fill_store ls a ! 4 = ITERATIONS"
    "j < 38 \<Longrightarrow> j \<notin> {0, 1, 4} \<Longrightarrow> fill_store ls a ! j = spe_program ! j"
    "38 \<le> j \<Longrightarrow> j < length ls \<Longrightarrow> fill_store ls a ! j = ls ! j"
proof -
  define q where "q = spe_program @ drop 38 ls"
  have q: "0 < length q" "1 < length q" "4 < length q" "length q = length ls"
    using assms by (auto simp: q_def length_program)
  have f: "fill_store ls a = q[0 := ucast (drop_bit 32 a), 1 := ucast (a AND 0xffffffff), 4 := ITERATIONS]"
    by (simp add: fill_store_def length_program q_def)
  have w: "fill_store ls a ! 0 = ucast (drop_bit 32 a)" "fill_store ls a ! 1 = ucast (a AND 0xffffffff)"
    using q by (simp_all add: f nth_list_update)
  show "fill_store ls a ! 4 = ITERATIONS" using q by (simp add: f nth_list_update)
  have "(push_bit 32 (ucast (ucast (drop_bit 32 a) :: 32 word)) OR ucast (ucast (a AND mask 32) :: 32 word) :: 64 word) = a"
    by (rule bit_word_eqI) (auto simp: bit_simps)
  then show "(push_bit 32 (ucast (fill_store ls a ! 0)) OR ucast (fill_store ls a ! 1) :: 64 word) = a"
    unfolding w by (simp add: mask_eq_exp_minus_1)
  show "fill_store ls a ! j = spe_program ! j" if "j < 38" "j \<notin> {0, 1, 4}"
    using that by (simp add: f q_def length_program nth_append)
  show "fill_store ls a ! j = ls ! j" if "38 \<le> j" "j < length ls"
    using that by (simp add: f q_def length_program nth_append)
qed

lemma map_areas_length:
  "map_areas k env i ts = Inr (bad, ts') \<Longrightarrow> length ts' = length ts \<and> (bad = None \<longrightarrow> k = 0 \<or> 2 \<le> length ts)"
proof (induction k arbitrary: i ts)
  case (Suc k)
  then show ?case by (fastforce simp: Let_def split: if_splits)
qed simp

lemma fill_stores_set:
  "fill_stores k i ts st = Inr st' \<Longrightarrow> i + k \<le> length st \<Longrightarrow>
   length st' = length st \<and>
   (\<forall>j<length st. st' ! j = (if i \<le> j \<and> j < i + k
      then fill_store (st ! j) (psmap (ts ! ((j + 1) mod length ts)) + PSMAP_SIGNAL1_OFFSET) else st ! j))"
proof (induction k arbitrary: i st)
  case 0
  then show ?case by auto
next
  case (Suc k)
  define us where "us = st[i := fill_store (st ! i) (psmap (ts ! ((i + 1) mod length ts)) + PSMAP_SIGNAL1_OFFSET)]"
  have "fill_stores k (i + 1) ts us = Inr st'" using Suc.prems(1) by (auto simp: us_def Let_def split: if_splits)
  from Suc.IH [OF this] Suc.prems(2)
  have IH: "length st' = length st" "\<And>j. j < length st \<Longrightarrow> st' ! j = (if i + 1 \<le> j \<and> j < i + 1 + k
      then fill_store (us ! j) (psmap (ts ! ((j + 1) mod length ts)) + PSMAP_SIGNAL1_OFFSET) else us ! j)"
    by (simp_all add: us_def)
  show ?case using IH Suc.prems(2) by (auto simp: us_def nth_list_update Suc_le_eq order_le_less)
qed

text \<open>
  C38.  When \<open>create_gang\<close> succeeds, its contexts form one ring: the first two words of the
  local store of each are the address of the signal register of the next one, of the first
  one for the last; the counter is set, the rest is the program, and nothing behind the
  program has changed.  A gang of a single context never succeeds.
\<close>

theorem create_gang_ring:
  assumes run: "create_gang fd nr env = Inr (rc, Some g)"
    and stores: "\<And>i. i < nat nr \<Longrightarrow> length (r_store (env i)) = LS_SIZE div 4"
  shows "rc = 0 \<and> nr \<noteq> 1 \<and> length (threads g) = nat nr \<and> length (stores g) = nat nr \<and>
    (\<forall>i<nat nr. let ls = stores g ! i; next = threads g ! ((i + 1) mod nat nr) in
      (push_bit 32 (ucast (ls ! 0)) OR ucast (ls ! 1)) = psmap next + PSMAP_SIGNAL1_OFFSET \<and>
      ls ! 4 = ITERATIONS \<and>
      (\<forall>j<38. j \<notin> {0, 1, 4} \<longrightarrow> ls ! j = spe_program ! j) \<and>
      (\<forall>j. 38 \<le> j \<and> j < LS_SIZE div 4 \<longrightarrow> ls ! j = r_store (env i) ! j))"
proof -
  obtain ts st where m: "map_areas (nat nr) env 0 (replicate (nat nr) \<lparr>t_ctx = 0, psmap = 0, lsmap = 0\<rparr>) = Inr (None, ts)"
    and f: "fill_stores (nat nr) 0 ts (map (\<lambda>i. r_store (env i)) [0..<nat nr]) = Inr st"
    and g: "rc = 0" "threads g = ts" "stores g = st"
    using run by (auto simp: create_gang_def bnd_eq_Inr split: if_splits option.splits)
  have ts: "length ts = nat nr" "nr \<noteq> 1" using map_areas_length [OF m] by auto
  have st: "length st = nat nr" "\<And>j. j < nat nr \<Longrightarrow>
      st ! j = fill_store (r_store (env j)) (psmap (ts ! ((j + 1) mod nat nr)) + PSMAP_SIGNAL1_OFFSET)"
    using fill_stores_set [OF f] ts by auto
  have len: "38 \<le> length (r_store (env i))" if "i < nat nr" for i using stores [OF that] by (simp add: LS_SIZE_def)
  show ?thesis
    unfolding Let_def g
    using ts st(1) fill_store_words [OF len] stores by (simp add: st(2))
qed

definition ring_demo :: "nat \<Rightarrow> ring_env" where
  "ring_demo i = \<lparr>r_ctx = 3, r_psmap_fd = 4, r_psmap = (if i = 0 then 0x10000 else 0x30000), r_ls_fd = 5,
     r_ls = 0x50000, r_store = replicate (LS_SIZE div 4) 0, r_thread_rc = 0\<rparr>"

lemma ring_demo_areas:
  "map_areas (Suc (Suc 0)) ring_demo 0 (replicate (Suc (Suc 0)) \<lparr>t_ctx = 0, psmap = 0, lsmap = 0\<rparr>) =
     Inr (None, [\<lparr>t_ctx = 3, psmap = 0x10000, lsmap = 0x50000\<rparr>, \<lparr>t_ctx = 3, psmap = 0x30000, lsmap = 0x50000\<rparr>])"
  by (simp add: ring_demo_def MAP_FAILED_def Let_def)

theorem create_gang_ring_witness:
  "\<exists>g. create_gang 7 2 ring_demo = Inr (0, Some g) \<and> stores g ! 1 ! 4 = ITERATIONS \<and> length (stores g) = 2"
proof -
  have "\<exists>st. fill_stores (Suc (Suc 0)) 0 [\<lparr>t_ctx = 3, psmap = 0x10000, lsmap = 0x50000\<rparr>, \<lparr>t_ctx = 3, psmap = 0x30000, lsmap = 0x50000\<rparr>]
      (map (\<lambda>i. r_store (ring_demo i)) [0..<nat 2]) = Inr st"
    by (simp add: MAP_FAILED_def Let_def)
  moreover have two: "nat 2 = Suc (Suc 0)" by simp
  moreover have "\<not> (\<exists>i<nat 2. r_thread_rc (ring_demo i) \<noteq> 0)" by (simp add: ring_demo_def)
  ultimately have "\<exists>rc g. create_gang 7 2 ring_demo = Inr (rc, Some g)"
    by (auto simp only: create_gang_def ring_demo_areas two bnd_Inr prod.case option.case if_False) auto
  then obtain rc g where g: "create_gang 7 2 ring_demo = Inr (rc, Some g)" by blast
  have "length (r_store (ring_demo i)) = LS_SIZE div 4" for i by (simp add: ring_demo_def)
  from create_gang_ring [OF g this] g show ?thesis by (auto simp: Let_def dest: spec [of _ 1])
qed

end
