(* ===== verification/Benchmarks.thy ===== *)
theory Benchmarks
  imports Run_Tests Dual_Ring "HOL-Library.AList"
begin

text \<open>
  The benchmarks \<open>benchmarks/01-spu_create/01-single.c\<close> and \<open>02-multiprocess.c\<close>, which time the
  creation of contexts by one process and by several at once, and
  \<open>benchmarks/02-spu-syscall/01-syscalls.c\<close>, which times system calls made by a context.  The
  kernel is a parameter; the processes run interleaved in any order.
\<close>

section \<open>The file system of contexts\<close>

text \<open>\<open>spu_create\<close> and \<open>close\<close>, each called by a process with descriptors of its own.\<close>

record 'k spufs =
  sys_create :: "'k \<Rightarrow> nat \<Rightarrow> string \<Rightarrow> 64 word \<Rightarrow> int \<Rightarrow> int \<times> 'k"
  sys_close :: "'k \<Rightarrow> nat \<Rightarrow> int \<Rightarrow> 'k"

text \<open>
  What is known of them, in terms of the contexts that each process holds open.  A creation
  succeeds exactly when the name is not in use (else \<open>EEXIST\<close>) and the kernel has room for one
  more (else \<open>EMFILE\<close>, \<open>ENOMEM\<close>, \<open>ENOSPC\<close>); when it fails nothing changes.  A context is gone when
  it is closed.
\<close>

definition spufs_law :: "'k spufs \<Rightarrow> ('k \<Rightarrow> nat \<times> int \<Rightarrow> string option) \<Rightarrow> ('k \<Rightarrow> nat \<Rightarrow> bool) \<Rightarrow> bool" where
  "spufs_law K held room \<longleftrightarrow>
     (\<forall>k p name fl mode. case sys_create K k p name fl mode of (fd, k') \<Rightarrow>
        if name \<notin> ran (held k) \<and> room k p
        then 0 \<le> fd \<and> held k (p, fd) = None \<and> held k' = (held k)((p, fd) \<mapsto> name)
        else fd < 0 \<and> held k' = held k) \<and>
     (\<forall>k p fd. held (sys_close K k p fd) = (held k)((p, fd) := None))"

lemma spufs_create:
  assumes "spufs_law K held room"
  obtains (created) fd k' where "sys_create K k p name fl mode = (fd, k')" "name \<notin> ran (held k)" "room k p" "0 \<le> fd"
      "held k (p, fd) = None" "held k' = (held k)((p, fd) \<mapsto> name)"
  | (refused) fd k' where "sys_create K k p name fl mode = (fd, k')" "name \<in> ran (held k) \<or> \<not> room k p" "fd < 0"
      "held k' = held k"
proof -
  obtain fd k' where run: "sys_create K k p name fl mode = (fd, k')" by (cases "sys_create K k p name fl mode")
  have L: "if name \<notin> ran (held k) \<and> room k p
      then 0 \<le> fd \<and> held k (p, fd) = None \<and> held k' = (held k)((p, fd) \<mapsto> name) else fd < 0 \<and> held k' = held k"
    using assms [unfolded spufs_law_def, THEN conjunct1, THEN spec, THEN spec, THEN spec, THEN spec, THEN spec,
        of name k p fl mode]
    unfolding run prod.case .
  show thesis
  proof (cases "name \<notin> ran (held k) \<and> room k p")
    case True
    then show thesis using L created [OF run] by simp
  next
    case False
    then have "fd < 0 \<and> held k' = held k" using L by (simp only: if_False)
    then show thesis using False refused [OF run] by blast
  qed
qed

lemma spufs_close: "spufs_law K held room \<Longrightarrow> held (sys_close K k p fd) = (held k)((p, fd) := None)"
  unfolding spufs_law_def by blast

section \<open>The programs\<close>

definition CREATIONS :: nat where "CREATIONS = 16384"

fun do_creates :: "'k spufs \<Rightarrow> nat \<Rightarrow> string \<Rightarrow> nat \<Rightarrow> 'k \<Rightarrow> 'k res" where
  "do_creates K p name 0 k = Inr k"
| "do_creates K p name (Suc i) k =
     (let (rc, k) = sys_create K k p name 0 0 in
      if rc < 0 then Inl Aborted else do_creates K p name i (sys_close K k p rc))"

definition single_main :: "'k spufs \<Rightarrow> 'k \<Rightarrow> int \<times> int \<Rightarrow> int \<times> int \<Rightarrow> (int \<times> (int \<times> int) \<times> 'k) res" where
  "single_main K k start_time end_time =
     bnd (do_creates K 0 ''/spu/01-single'' CREATIONS k) (\<lambda>k.
     Inr (EXIT_SUCCESS, timer_stop_and_print start_time end_time, k))"

text \<open>The name of a process, written into 30 bytes.\<close>

definition process_name :: "nat \<Rightarrow> string" where
  "process_name i = ''/spu/02-multiprocess-'' @ show_nat i"

text \<open>A child between two of its calls: what it does next, and how often.\<close>

datatype child = Creating nat | Closing int nat | Exited int | Killed

fun child_step :: "'k spufs \<Rightarrow> nat \<Rightarrow> child \<Rightarrow> 'k \<Rightarrow> child \<times> 'k" where
  "child_step K p (Creating 0) k = (Exited EXIT_SUCCESS, k)"
| "child_step K p (Creating (Suc i)) k =
     (let (rc, k) = sys_create K k p (process_name p) 0 0 in (if rc < 0 then Killed else Closing rc i, k))"
| "child_step K p (Closing fd i) k = (Creating i, sys_close K k p fd)"
| "child_step K p c k = (c, k)"







definition syscall_program :: "32 word list" where
  "syscall_program =
     replicate 5 0 @ [0x14] @ replicate 14 0 @
     [0x30800000, 0x40800001, 0x30800202, 0x20800202, 0x00002104, 0x00000010, 0x1c004081, 0x78004003, 0x207ffd83,
      0x00001337]"

definition SYSCALLS :: "32 word" where "SYSCALLS = 1000000"

text \<open>The result: the exit status, what is written to the local store and where it is entered.\<close>

definition syscalls_main ::
    "int \<Rightarrow> int \<Rightarrow> 32 word \<Rightarrow> int \<times> int \<Rightarrow> int \<times> int \<Rightarrow> (int \<times> 32 word list \<times> 32 word \<times> (int \<times> int) option) res" where
  "syscalls_main ctx ls_fd run_rc start_time end_time =
     (if ctx < 0 then Inl Aborted
      else if ls_fd < 0 then Inl Aborted
      else
        let program = syscall_program[0 := SYSCALLS] in
        if run_rc \<noteq> 0x13370002 then Inr (EXIT_FAILURE, program, 0x50, None)
        else Inr (EXIT_SUCCESS, program, 0x50, Some (timer_stop_and_print start_time end_time)))"

section \<open>Names\<close>







section \<open>One process\<close>

text \<open>Without others in between, the steps of a child are the loop of \<open>do_creates\<close>.\<close>

definition alone :: "'k spufs \<Rightarrow> nat \<Rightarrow> child \<times> 'k \<Rightarrow> child \<times> 'k" where
  "alone K p = (\<lambda>(c, k). child_step K p c k)"

lemma do_creates_steps:
  "case do_creates K p (process_name p) i k of
     Inl e \<Rightarrow> e = Aborted \<and> (\<exists>n k'. (alone K p ^^ n) (Creating i, k) = (Killed, k'))
   | Inr k' \<Rightarrow> (alone K p ^^ (2 * i + 1)) (Creating i, k) = (Exited EXIT_SUCCESS, k')"
proof (induction i arbitrary: k)
  case 0
  show ?case by (simp add: alone_def)
next
  case (Suc i)
  obtain fd k1 where c: "sys_create K k p (process_name p) 0 0 = (fd, k1)" by (cases "sys_create K k p (process_name p) 0 0")
  show ?case
  proof (cases "fd < 0")
    case True
    then have "(alone K p ^^ 1) (Creating (Suc i), k) = (Killed, k1)" using c by (simp add: alone_def)
    then show ?thesis using c True by (auto simp del: funpow.simps)
  next
    case False
    let ?k = "sys_close K k1 p fd"
    have "(alone K p ^^ 2) (Creating (Suc i), k) = (Creating i, ?k)"
      using c False by (simp add: numeral_2_eq_2 alone_def)
    then have two: "(alone K p ^^ (n + 2)) (Creating (Suc i), k) = (alone K p ^^ n) (Creating i, ?k)" for n
      by (simp only: funpow_add comp_apply)
    have "do_creates K p (process_name p) (Suc i) k = do_creates K p (process_name p) i ?k" using c False by simp
    then show ?thesis using Suc.IH [of ?k] two [of "2 * i + 1"] two by (auto split: sum.splits simp del: funpow.simps) metis
  qed
qed

text \<open>The loop leaves nothing open; it ends early only when a creation is refused.\<close>

lemma do_creates_outcome:
  assumes law: "spufs_law K held room" and "name \<notin> ran (held k)"
  shows "(\<exists>k'. do_creates K p name i k = Inr k' \<and> held k' = held k) \<or>
    do_creates K p name i k = Inl Aborted \<and> (\<exists>k'. held k' = held k \<and> \<not> room k' p)"
  using assms(2)
proof (induction i arbitrary: k)
  case (Suc i)
  show ?case
  proof (cases rule: spufs_create [OF law, of k p name 0 0, case_names created refused])
    case (created fd k1)
    have "held (sys_close K k1 p fd) = held k"
      using created(5,6) spufs_close [OF law, of k1 p fd] by (simp add: fun_upd_idem)
    then show ?thesis using Suc.IH [of "sys_close K k1 p fd"] Suc.prems created(1,4) by auto
  next
    case (refused fd k1)
    then show ?thesis using Suc.prems by auto
  qed
qed simp

lemma single_main_outcome:
  assumes "spufs_law K held room" and "''/spu/01-single'' \<notin> ran (held k)" and "\<And>k'. held k' = held k \<Longrightarrow> room k' 0"
  shows "\<exists>k'. single_main K k t0 t1 = Inr (EXIT_SUCCESS, timer_stop_and_print t0 t1, k') \<and> held k' = held k"
  using do_creates_outcome [OF assms(1,2), of 0 CREATIONS] assms(3) by (auto simp: single_main_def)

section \<open>Any interleaving\<close>



























end
