(* ===== verification/Context_Tests.thy ===== *)
theory Context_Tests
  imports Run_Tests Dual_Ring
begin

unbundle bit_operations_syntax

text \<open>
  Test programs with some logic of their own: the pattern of \<open>tests/14-dma/pattern.c\<close>, the
  programs that \<open>tests/15-class0/class0-apps.c\<close> loads, the table of files of
  \<open>tests/02-spu_create/05-files.c\<close>, and the two processes of \<open>tests/16-debug/01-single-step.c\<close>.
  The kernel and the SPU are parameters.
\<close>

section \<open>The pattern\<close>

fun load_loop :: "nat \<Rightarrow> nat \<Rightarrow> 8 word list \<Rightarrow> 8 word list res" where
  "load_loop 0 i buf = Inr buf"
| "load_loop (Suc k) i buf =
     (if i \<ge> length buf then Inl Bad_access
      else load_loop k (i + 1) (buf[i := ucast (word_of_nat i AND 0xff :: 32 word)]))"

definition load_pattern :: "8 word list \<Rightarrow> nat \<Rightarrow> 8 word list res" where
  "load_pattern buf len = load_loop len 0 buf"

fun check_loop :: "nat \<Rightarrow> nat \<Rightarrow> 8 word list \<Rightarrow> int res" where
  "check_loop 0 i buf = Inr 0"
| "check_loop (Suc k) i buf =
     (if i \<ge> length buf then Inl Bad_access
      else if (ucast (buf ! i) :: 32 word) \<noteq> word_of_nat i AND 0xff then Inr (-1)
      else check_loop k (i + 1) buf)"

definition check_pattern :: "8 word list \<Rightarrow> nat \<Rightarrow> int res" where
  "check_pattern buf len = check_loop len 0 buf"

lemma down_up: "ucast (ucast b :: 32 word) = b" for b :: "8 word"
  by (rule bit_word_eqI) (simp add: bit_simps)

lemma low_byte: "w AND 0xff = ucast (ucast w :: 8 word)" for w :: "32 word"
proof -
  have "(0xff :: 32 word) = mask 8" by (simp add: mask_eq_exp_minus_1)
  then show ?thesis unfolding \<open>0xff = mask 8\<close> by (intro bit_word_eqI) (auto simp: bit_simps simp del: mask_numeral)
qed

lemma pattern_byte:
  "ucast (word_of_nat i AND 0xff :: 32 word) = (word_of_nat i :: 8 word)"
  "(ucast b :: 32 word) = word_of_nat i AND 0xff \<longleftrightarrow> b = word_of_nat i" for b :: "8 word"
proof -
  have "(ucast (word_of_nat i :: 32 word) :: 8 word) = word_of_nat i"
    by (rule bit_word_eqI) (simp add: bit_simps)
  moreover have "(ucast b :: 32 word) = ucast c \<longleftrightarrow> b = c" for c :: "8 word" by (metis down_up)
  ultimately show "ucast (word_of_nat i AND 0xff :: 32 word) = (word_of_nat i :: 8 word)"
    "(ucast b :: 32 word) = word_of_nat i AND 0xff \<longleftrightarrow> b = word_of_nat i"
    by (simp_all add: low_byte down_up)
qed

lemma load_loop_sets:
  "i + k \<le> length buf \<Longrightarrow>
   load_loop k i buf = Inr (take i buf @ map word_of_nat [i..<i + k] @ drop (i + k) buf)"
proof (induction k arbitrary: i buf)
  case (Suc k)
  let ?b = "buf[i := word_of_nat i]"
  have "take (Suc i) ?b = take i buf @ [word_of_nat i]"
    using Suc.prems by (simp add: take_Suc_conv_app_nth)
  then show ?case using Suc.IH [of "i + 1" ?b] Suc.prems by (simp add: pattern_byte upt_rec)
qed simp

lemma check_loop_compares:
  "i + k \<le> length buf \<Longrightarrow>
   check_loop k i buf = Inr (if \<forall>j. i \<le> j \<and> j < i + k \<longrightarrow> buf ! j = word_of_nat j then 0 else -1)"
proof (induction k arbitrary: i)
  case (Suc k)
  have "(\<forall>j. i \<le> j \<and> j < i + Suc k \<longrightarrow> buf ! j = word_of_nat j) \<longleftrightarrow>
      buf ! i = word_of_nat i \<and> (\<forall>j. i + 1 \<le> j \<and> j < i + 1 + k \<longrightarrow> buf ! j = word_of_nat j)"
    by (metis Suc_eq_plus1 Suc_leI add_Suc add_Suc_right le_neq_implies_less le_refl less_add_Suc1 order_less_imp_le Suc_leD)
  then show ?case using Suc.IH [of "i + 1"] Suc.prems by (simp add: pattern_byte)
qed auto

text \<open>What is loaded is accepted, and nothing else is; neither goes beyond the length.\<close>

lemma pattern_roundtrip:
  assumes "len \<le> length buf"
  shows "load_pattern buf len = Inr (map word_of_nat [0..<len] @ drop len buf)"
    and "check_pattern buf len = Inr (if take len buf = map word_of_nat [0..<len] then 0 else -1)"
proof -
  show "load_pattern buf len = Inr (map word_of_nat [0..<len] @ drop len buf)"
    using load_loop_sets [of 0 len buf] assms by (simp add: load_pattern_def)
  have "take len buf = map word_of_nat [0..<len] \<longleftrightarrow> (\<forall>j<len. buf ! j = word_of_nat j)"
    using assms by (auto simp: list_eq_iff_nth_eq)
  then show "check_pattern buf len = Inr (if take len buf = map word_of_nat [0..<len] then 0 else -1)"
    using check_loop_compares [of 0 len buf] assms by (simp add: check_pattern_def)
qed

section \<open>Programs that cause an error\<close>

definition illegal_instruction_program :: "32 word list" where
  "illegal_instruction_program = [0x40200000, 0x40200000, 0xa0000000]"

definition misaligned_dma_program :: "32 word list" where
  "misaligned_dma_program =
     [0, 0, 0, 0, 0x40880000, 0x30800001, 0x40880002, 0x40800003, 0x40802004, 0x21a00800, 0x21a00881,
      0x3fe10081, 0x21a00901, 0x21a00982, 0x21a00a03, 0x21a00a84, 0x40800085, 0x40800086, 0x21a00b05,
      0x21a00b86, 0x01a00c07, 0x7c004288, 0x21000108, 0, 0x00001337]"

definition invalid_dma_program :: "32 word list" where
  "invalid_dma_program =
     [0, 0, 0, 0, 0x40880000, 0x30800001, 0x40880002, 0x40800003, 0x40808004, 0x21a00800, 0x21a00881,
      0x3fe10081, 0x21a00901, 0x21a00982, 0x21a00a03, 0x21a00a84, 0x40800085, 0x40800086, 0x21a00b05,
      0x21a00b86, 0x01a00c07, 0x7c004288, 0x21000108, 0, 0x00001337]"

text \<open>
  The descriptor of the local store, whether it can be mapped, and its words.  The assertion
  on the descriptor fails for 0 only; a failed \<open>openat\<close> is met when its result is mapped.
\<close>

record ls_env =
  ls_fd :: int
  ls_maps :: bool
  ls_words :: "32 word list"

definition load_program :: "ls_env \<Rightarrow> 32 word list \<Rightarrow> 32 word list res" where
  "load_program e program =
     (if ls_fd e = 0 then Inl Aborted
      else if ls_fd e < 0 \<or> \<not> ls_maps e then Inl Aborted
      else if length (ls_words e) < length program then Inl Bad_access
      else Inr (program @ drop (length program) (ls_words e)))"

text \<open>A doubleword at the start of the local store, most significant word first.\<close>

definition store_address :: "32 word list \<Rightarrow> 64 word \<Rightarrow> 32 word list" where
  "store_address ls a = ls[0 := ucast (drop_bit 32 a), 1 := ucast a]"

definition read_address :: "32 word list \<Rightarrow> 64 word" where
  "read_address ls = push_bit 32 (ucast (ls ! 0)) OR ucast (ls ! 1)"

text \<open>The result is the entry point and the local store.\<close>

definition class0_load_illegal_instruction_app :: "ls_env \<Rightarrow> (32 word \<times> 32 word list) res" where
  "class0_load_illegal_instruction_app e =
     bnd (load_program e illegal_instruction_program) (\<lambda>ls. Inr (0, ls))"

definition class0_load_misaligned_dma_app :: "ls_env \<Rightarrow> 64 word \<Rightarrow> (32 word \<times> 32 word list) res" where
  "class0_load_misaligned_dma_app e buf =
     bnd (load_program e misaligned_dma_program) (\<lambda>ls. Inr (0x10, store_address ls (buf + 1)))"

definition class0_load_invalid_dma_app :: "ls_env \<Rightarrow> 64 word \<Rightarrow> (32 word \<times> 32 word list) res" where
  "class0_load_invalid_dma_app e buf =
     bnd (load_program e invalid_dma_program) (\<lambda>ls. Inr (0x10, store_address ls buf))"

lemma read_stored: "2 \<le> length ls \<Longrightarrow> read_address (store_address ls a) = a"
proof -
  assume "2 \<le> length ls"
  then have "0 < length ls" "1 < length ls" by linarith+
  then have w: "store_address ls a ! 0 = ucast (drop_bit 32 a)" "store_address ls a ! 1 = ucast a"
    by (simp_all add: store_address_def nth_list_update)
  show ?thesis unfolding read_address_def w by (rule bit_word_eqI) (auto simp: bit_simps)
qed

lemma loaded_words:
  assumes "load_program e program = Inr ls"
  shows "length program \<le> length ls \<and> length ls = length (ls_words e) \<and> take (length program) ls = program \<and>
    drop (length program) ls = drop (length program) (ls_words e)"
  using assms by (auto simp: load_program_def split: if_splits)

text \<open>
  From a buffer that is aligned the one program gets an odd address, which no transfer of
  this size may have, the other the address itself; behind the first two words the local
  stores are the programs.
\<close>

lemma class0_addresses:
  assumes "128 dvd unat buf"
  shows "class0_load_misaligned_dma_app e buf = Inr (start, ls) \<Longrightarrow>
      start = 0x10 \<and> read_address ls = buf + 1 \<and> odd (unat (read_address ls)) \<and>
      drop 2 (take 25 ls) = drop 2 misaligned_dma_program"
    and "class0_load_invalid_dma_app e buf = Inr (start, ls) \<Longrightarrow>
      start = 0x10 \<and> read_address ls = buf \<and> drop 2 (take 25 ls) = drop 2 invalid_dma_program"
proof -
  have "even (unat buf)" using assms by (meson dvd_trans even_numeral)
  then have odd: "odd (unat (buf + 1))"
    using dvd_mod_iff [of 2 "2 ^ 64 :: nat" "unat buf + 1"] by (simp add: unat_word_ariths(1))
  have keep: "drop 2 (take n (store_address m a)) = drop 2 (take n m)" for n m a
    by (simp add: store_address_def take_update_swap drop_update_cancel)
  show "start = 0x10 \<and> read_address ls = buf + 1 \<and> odd (unat (read_address ls)) \<and>
      drop 2 (take 25 ls) = drop 2 misaligned_dma_program"
    if run: "class0_load_misaligned_dma_app e buf = Inr (start, ls)"
  proof -
    obtain m where m: "load_program e misaligned_dma_program = Inr m" and ls: "start = 0x10" "ls = store_address m (buf + 1)"
      using run by (auto simp: class0_load_misaligned_dma_app_def bnd_eq_Inr)
    have l: "length misaligned_dma_program = 25" by (simp add: misaligned_dma_program_def)
    have "take 25 m = misaligned_dma_program" using loaded_words [OF m] l by simp
    moreover have "2 \<le> length m" using loaded_words [OF m] l by simp
    ultimately show ?thesis using ls odd by (simp add: keep read_stored)
  qed
  show "start = 0x10 \<and> read_address ls = buf \<and> drop 2 (take 25 ls) = drop 2 invalid_dma_program"
    if run: "class0_load_invalid_dma_app e buf = Inr (start, ls)"
  proof -
    obtain m where m: "load_program e invalid_dma_program = Inr m" and ls: "start = 0x10" "ls = store_address m buf"
      using run by (auto simp: class0_load_invalid_dma_app_def bnd_eq_Inr)
    have l: "length invalid_dma_program = 25" by (simp add: invalid_dma_program_def)
    have "take 25 m = invalid_dma_program" using loaded_words [OF m] l by simp
    moreover have "2 \<le> length m" using loaded_words [OF m] l by simp
    ultimately show ?thesis using ls by (simp add: keep read_stored)
  qed
qed

section \<open>The files of a context\<close>

record spufs_file =
  f_name :: string
  f_mode :: "32 word"
  f_size :: nat

abbreviation context_file :: "string \<Rightarrow> 32 word \<Rightarrow> nat \<Rightarrow> spufs_file" where
  "context_file n m k \<equiv> \<lparr>f_name = n, f_mode = m, f_size = k\<rparr>"

text \<open>Modes 0100444, 0100666 and 0100222 of the source.\<close>

definition spufs_files :: "spufs_file list" where
  "spufs_files =
     [context_file ''capabilities'' 0x8124 0, context_file ''mem'' 0x81B6 LS_SIZE,
      context_file ''regs'' 0x81B6 (16 * 128), context_file ''mbox'' 0x8124 0,
      context_file ''ibox'' 0x8124 0, context_file ''wbox'' 0x8092 0,
      context_file ''mbox_stat'' 0x8124 4, context_file ''ibox_stat'' 0x8124 4,
      context_file ''wbox_stat'' 0x8124 4, context_file ''signal1'' 0x81B6 0,
      context_file ''signal2'' 0x81B6 0, context_file ''signal1_type'' 0x81B6 0,
      context_file ''signal2_type'' 0x81B6 0, context_file ''cntl'' 0x81B6 0,
      context_file ''fpcr'' 0x81B6 16, context_file ''lslr'' 0x8124 0,
      context_file ''mfc'' 0x81B6 0, context_file ''mss'' 0x81B6 0,
      context_file ''npc'' 0x81B6 0, context_file ''srr0'' 0x81B6 0,
      context_file ''decr'' 0x81B6 0, context_file ''decr_status'' 0x81B6 0,
      context_file ''event_mask'' 0x81B6 0, context_file ''event_status'' 0x8124 0,
      context_file ''psmap'' 0x81B6 0x20000, context_file ''phys-id'' 0x81B6 0,
      context_file ''object-id'' 0x81B6 0, context_file ''mbox_info'' 0x8124 4,
      context_file ''ibox_info'' 0x8124 4, context_file ''wbox_info'' 0x8124 4,
      context_file ''dma_info'' 0x8124 (5 * 8 + 16 * 4 * 8), context_file ''proxydma_info'' 0x8124 (3 * 8 + 8 * 4 * 8),
      context_file ''tid'' 0x8124 0, context_file ''stat'' 0x8124 0]"

datatype file_fault = Cannot_stat string | Wrong_mode string "32 word" "32 word" | Wrong_size string nat nat

text \<open>\<open>fstatat\<close> gives mode and size of a name, or fails.\<close>

fun check_files :: "(string \<Rightarrow> (32 word \<times> nat) option) \<Rightarrow> spufs_file list \<Rightarrow> int \<times> file_fault option" where
  "check_files st [] = (EXIT_SUCCESS, None)"
| "check_files st (f # fs) =
     (case st (f_name f) of
        None \<Rightarrow> (EXIT_FAILURE, Some (Cannot_stat (f_name f)))
      | Some (m, n) \<Rightarrow>
          if m \<noteq> f_mode f then (EXIT_FAILURE, Some (Wrong_mode (f_name f) m (f_mode f)))
          else if f_size f \<noteq> n then (EXIT_FAILURE, Some (Wrong_size (f_name f) n (f_size f)))
          else check_files st fs)"

definition files_main :: "int \<Rightarrow> (string \<Rightarrow> (32 word \<times> nat) option) \<Rightarrow> (int \<times> file_fault option) res" where
  "files_main ctx st = (if ctx < 0 then Inl Aborted else Inr (check_files st spufs_files))"

text \<open>
  The test passes exactly when each file of the table is there as the table says; otherwise it
  names the first that is not.
\<close>

definition as_listed :: "(string \<Rightarrow> (32 word \<times> nat) option) \<Rightarrow> spufs_file \<Rightarrow> bool" where
  "as_listed st f \<longleftrightarrow> st (f_name f) = Some (f_mode f, f_size f)"

definition fault_of :: "(string \<Rightarrow> (32 word \<times> nat) option) \<Rightarrow> spufs_file \<Rightarrow> file_fault" where
  "fault_of st f =
     (case st (f_name f) of None \<Rightarrow> Cannot_stat (f_name f)
      | Some (m, n) \<Rightarrow> if m \<noteq> f_mode f then Wrong_mode (f_name f) m (f_mode f) else Wrong_size (f_name f) n (f_size f))"

lemma check_files_find:
  "check_files st fs =
     (case find (\<lambda>f. \<not> as_listed st f) fs of
        None \<Rightarrow> (EXIT_SUCCESS, None) | Some f \<Rightarrow> (EXIT_FAILURE, Some (fault_of st f)))"
  by (induction fs) (auto simp: as_listed_def fault_of_def split: option.splits)

lemma files_main_passes:
  "0 \<le> ctx \<Longrightarrow> files_main ctx st = Inr (EXIT_SUCCESS, None) \<longleftrightarrow> (\<forall>f\<in>set spufs_files. as_listed st f)"
  by (auto simp: files_main_def check_files_find EXIT_SUCCESS_def EXIT_FAILURE_def find_None_iff find_Some_iff
      split: option.splits)

section \<open>Single steps\<close>

definition ERESTARTSYS :: int where "ERESTARTSYS = 512"

text \<open>
  The child.  The list has the result and \<open>errno\<close> of each call of \<open>spu_run\<close>; a call that does
  not return, or a context that never ends, is a list that is too short.
\<close>

fun spu_run_loop :: "(int \<times> int) list \<Rightarrow> bool \<Rightarrow> int res" where
  "spu_run_loop [] stopped = Inl No_fuel"
| "spu_run_loop ((rc, err) # rs) stopped =
     (if rc = -1 then if err \<noteq> ERESTARTSYS then Inr (-1) else spu_run_loop rs True
      else if rc = 0x13370002 then Inr (if \<not> stopped then -1 else 0)
      else Inr (-1))"

definition check_spu_run :: "bool \<Rightarrow> (int \<times> int) list \<Rightarrow> int res" where
  "check_spu_run traced rs = (if \<not> traced then Inl Aborted else spu_run_loop rs False)"

text \<open>
  The parent.  What \<open>waitpid\<close> tells after \<open>PTRACE_SYSCALL\<close>: the child has returned, has been
  killed, or has stopped, then with its system call number.  A process that is gone cannot be
  asked for its registers.
\<close>

datatype traced = Trace_exited int | Trace_killed | Trace_stopped int

fun trace_loop :: "int \<Rightarrow> (traced \<times> int) list \<Rightarrow> nat \<Rightarrow> (int \<times> nat) res" where
  "trace_loop SYS_spu_run [] n = Inl No_fuel"
| "trace_loop SYS_spu_run ((Trace_exited c, rc) # ts) n = Inr (c mod 256, n)"
| "trace_loop SYS_spu_run ((Trace_killed, rc) # ts) n = Inl Aborted"
| "trace_loop SYS_spu_run ((Trace_stopped gpr0, rc) # ts) n =
     (if gpr0 = SYS_spu_run then if rc < 0 then Inr (-1, n) else trace_loop SYS_spu_run ts (n + 1)
      else trace_loop SYS_spu_run ts n)"

text \<open>The result, with the number of times \<open>PTRACE_SINGLESTEP\<close> has been used.\<close>

definition ptrace_singlestep_spu_run :: "int \<Rightarrow> (traced \<times> int) list \<Rightarrow> (int \<times> nat) res" where
  "ptrace_singlestep_spu_run SYS_spu_run ts = trace_loop SYS_spu_run ts 0"

definition single_step_program :: "32 word list" where
  "single_step_program = [0x40200000, 0x40200000, 0x40200000, 0x40200000, 0x00001337]"

text \<open>Both processes run \<open>main\<close>; the result of \<open>fork\<close> tells them apart.\<close>

definition single_step_main ::
    "int \<Rightarrow> ls_env \<Rightarrow> int \<Rightarrow> bool \<Rightarrow> (int \<times> int) list \<Rightarrow> int \<Rightarrow> (traced \<times> int) list \<Rightarrow> (int \<times> 32 word list) res" where
  "single_step_main ctx e fork_rc traced rs SYS_spu_run ts =
     (if ctx < 0 then Inl Aborted
      else if ls_fd e < 0 then Inl Aborted
      else if \<not> ls_maps e then Inl Aborted
      else if length (ls_words e) < length single_step_program then Inl Bad_access
      else
        let ls = single_step_program @ drop (length single_step_program) (ls_words e) in
        if fork_rc < 0 then Inl Aborted
        else if fork_rc = 0 then bnd (check_spu_run traced rs) (\<lambda>rc. Inr (rc, ls))
        else bnd (ptrace_singlestep_spu_run SYS_spu_run ts) (\<lambda>(rc, n). Inr (rc, ls)))"

text \<open>
  The child succeeds exactly when the program of the context ends as it should after at least
  one interruption, and nothing but interruptions comes before.
\<close>

lemma spu_run_loop_zero:
  "spu_run_loop rs stopped = Inr 0 \<longleftrightarrow>
   (\<exists>n e rest. rs = replicate n (-1, ERESTARTSYS) @ (0x13370002, e) # rest \<and> (stopped \<or> 0 < n))"
proof (induction rs stopped rule: spu_run_loop.induct)
  case (2 rc err rs stopped)
  show ?case
  proof (cases "(rc, err) = (-1, ERESTARTSYS)")
    case True
    have "(\<exists>n e rest. (rc, err) # rs = replicate n (-1, ERESTARTSYS) @ (0x13370002, e) # rest \<and> (stopped \<or> 0 < n)) \<longleftrightarrow>
        (\<exists>n e rest. rs = replicate n (-1, ERESTARTSYS) @ (0x13370002, e) # rest)"
    proof
      assume "\<exists>n e rest. (rc, err) # rs = replicate n (-1, ERESTARTSYS) @ (0x13370002, e) # rest \<and> (stopped \<or> 0 < n)"
      then obtain n e rest where eq: "(rc, err) # rs = replicate n (-1, ERESTARTSYS) @ (0x13370002, e) # rest" by blast
      then obtain k where "n = Suc k" using True by (cases n) auto
      then show "\<exists>n e rest. rs = replicate n (-1, ERESTARTSYS) @ (0x13370002, e) # rest" using eq by auto
    next
      assume "\<exists>n e rest. rs = replicate n (-1, ERESTARTSYS) @ (0x13370002, e) # rest"
      then obtain n e rest where "rs = replicate n (-1, ERESTARTSYS) @ (0x13370002, e) # rest" by blast
      then have "(rc, err) # rs = replicate (Suc n) (-1, ERESTARTSYS) @ (0x13370002, e) # rest" using True by simp
      then show "\<exists>n e rest. (rc, err) # rs = replicate n (-1, ERESTARTSYS) @ (0x13370002, e) # rest \<and> (stopped \<or> 0 < n)"
        by blast
    qed
    then show ?thesis using 2 True by simp
  next
    case False
    have "(\<exists>n e rest. (rc, err) # rs = replicate n (-1, ERESTARTSYS) @ (0x13370002, e) # rest \<and> (stopped \<or> 0 < n)) \<longleftrightarrow>
        rc = 0x13370002 \<and> stopped"
    proof
      assume "\<exists>n e rest. (rc, err) # rs = replicate n (-1, ERESTARTSYS) @ (0x13370002, e) # rest \<and> (stopped \<or> 0 < n)"
      then obtain n e rest where eq: "(rc, err) # rs = replicate n (-1, ERESTARTSYS) @ (0x13370002, e) # rest" "stopped \<or> 0 < n"
        by blast
      then show "rc = 0x13370002 \<and> stopped" using False by (cases n) auto
    next
      assume "rc = 0x13370002 \<and> stopped"
      then show "\<exists>n e rest. (rc, err) # rs = replicate n (-1, ERESTARTSYS) @ (0x13370002, e) # rest \<and> (stopped \<or> 0 < n)"
        by (intro exI [of _ 0] exI [of _ err] exI [of _ rs]) simp
    qed
    then show ?thesis using False by auto
  qed
qed simp

text \<open>
  The parent returns what the child returns, however often the child stops before, when each
  single step can be asked for; it is asked for at each system call that is \<open>spu_run\<close>.
\<close>

lemma trace_loop_passes:
  "\<forall>(g, rc)\<in>set stops. rc \<ge> 0 \<Longrightarrow>
   trace_loop N (map (\<lambda>(g, rc). (Trace_stopped g, rc)) stops @ (Trace_exited c, r) # rest) n =
     Inr (c mod 256, n + length (filter (\<lambda>(g, rc). g = N) stops))"
  by (induction stops arbitrary: n) auto

lemma spu_run_loop_result: "spu_run_loop rs stopped = Inr c \<Longrightarrow> c = 0 \<or> c = -1"
  by (induction rs stopped rule: spu_run_loop.induct) (auto split: if_splits)

text \<open>The test passes exactly when its child does.\<close>

lemma single_step_passes:
  assumes child: "single_step_main ctx e 0 traced rs N ts = Inr (c, ls)" and fork_rc: "0 < fork_rc"
    and ok: "\<forall>(g, rc)\<in>set stops. rc \<ge> 0"
    and seen: "ts' = map (\<lambda>(g, rc). (Trace_stopped g, rc)) stops @ (Trace_exited c, r) # rest"
  shows "\<exists>rc. single_step_main ctx e fork_rc traced rs' N ts' = Inr (rc, ls) \<and> (rc = 0 \<longleftrightarrow> c = 0)"
proof -
  have "spu_run_loop rs False = Inr c"
    using child by (auto simp: single_step_main_def check_spu_run_def Let_def bnd_eq_Inr split: if_splits)
  then have "c mod 256 = 0 \<longleftrightarrow> c = 0" using spu_run_loop_result by fastforce
  moreover have "ptrace_singlestep_spu_run N ts' = Inr (c mod 256, length (filter (\<lambda>(g, rc). g = N) stops))"
    using trace_loop_passes [OF ok, of N c r rest 0] by (simp add: ptrace_singlestep_spu_run_def seen)
  ultimately show ?thesis
    using child fork_rc by (auto simp: single_step_main_def Let_def bnd_eq_Inr split: if_splits)
qed

end
