(* ===== verification/Spec2Isabelle.thy ===== *)
theory Spec2Isabelle
  imports Talloc_Props Talloc_Fault Talloc_Reach Talloc_Types Child_Exec Schedule_Fault Core_Props Sched_Multiple Benchmarks Context_Tests
begin

text \<open>
  A verification development for the test suite of the Linux SPU file system.

  \<^bold>\<open>The program.\<close>  The suite is a test runner, \<open>bin/run-tests.c\<close>, with the test records and
  the configuration parser of \<open>bin/test.c\<close> and the table of machine capabilities of
  \<open>bin/capabilities.c\<close>; a hierarchical allocator, \<open>lib/talloc/talloc.c\<close>, that all of them
  use; and a small FUSE file system, \<open>lib/slowfs/slowfs.c\<close>, for tests that need a slow read.
  Of the test programs, those with logic of their own are the checker of core dumps,
  \<open>tests/11-coredump/parse-core.c\<close>, the driver \<open>tests/20-scheduler/sched_multiple.c\<close>, the
  client \<open>tests/14-dma/05-schedule-during-fault.c\<close> of the slow file system, the benchmarks, and a
  few tests of contexts.
  \<open>run-tests\<close> searches a directory tree for test programs, reads the \<open>tests.conf\<close> beside each,
  decides from it and from the capabilities whether the test is run, runs it in a child
  process, collects its output, judges how it ended, and prints a summary.

  \<^bold>\<open>Conventions.\<close>  A C function is a HOL function with its name (a leading underscore is
  written \<open>u_\<close>, two are written \<open>uu_\<close>).  It takes the state it works on and returns \<open>fault + result\<close>
  (\<open>Prelude\<close>): \<open>Inl Bad_access\<close> is an access outside live memory, \<open>Inl No_fuel\<close> a loop that has
  not ended within the given number of rounds, \<open>Inl Never_returns\<close> a call of the system that waits for
  ever.  Pointers into a buffer are offsets into the
  list of its characters (\<open>Clib\<close>, which also has the functions of the C library the programs
  call).  What is not under \<open>src/\<close> is a parameter: \<open>malloc\<close>, \<open>realloc\<close> and client destructors
  (\<open>libc\<close>), the text made by \<open>vsnprintf\<close>, the directory tree, the answers of system calls, the
  bytes of uninitialised memory, FUSE and threads.  Fuel is bounded wherever a result is
  claimed: twice the number of chunks and a small constant for the walks of \<open>talloc\<close>, the
  number of directories and one for the search, one more than the characters of the buffer
  for the parser of \<open>tests.conf\<close>, one more than the notes of a segment for \<open>parse_notes\<close> (on
  any bytes, one more than its size by 12, as each round passes a header), eight instructions for
  each message of an SPU program and four more.  Only where a loop
  is shown not to end does a property say \<open>No_fuel\<close>, and then for every amount of fuel.

  \<^bold>\<open>The allocator.\<close>  \<open>Talloc_Heap\<close> has the memory: headers (\<open>struct talloc_chunk\<close>), reference
  handles, user bytes, and the macros \<open>_TLIST_ADD\<close> and \<open>_TLIST_REMOVE\<close>.  \<open>Talloc_Core\<close> has the
  operations on the tree: \<open>__talloc\<close>, \<open>_talloc_reference\<close>, \<open>_talloc_steal\<close>, \<open>_talloc_free\<close>,
  \<open>talloc_unlink\<close>, \<open>_talloc_realloc\<close>, the null and the autofree context; \<open>Talloc_Query\<close> has
  names, sizes, counts and reports, \<open>Talloc_String\<close> strings, arrays and formatted names.
  \<open>Talloc_Inv\<close> is the abstract specification: a forest and a table of references, and the
  invariant \<open>heap\<close> that ties them to the links.  \<open>Talloc_Ops\<close>, \<open>Talloc_Build\<close>, \<open>Talloc_Refs\<close>,
  \<open>Talloc_Free\<close>, \<open>Talloc_Walk\<close>, \<open>Talloc_Share\<close> and \<open>Talloc_Resize\<close> show that each operation keeps it
  and has the effect of an operation on forests.  \<open>Talloc_Tree\<close> and \<open>Talloc_Sums\<close> treat the
  recursive walks through a locale, \<open>flag_walk\<close>, interpreted on the two sums.  \<open>Talloc_Props\<close>,
  \<open>Talloc_Text\<close> and \<open>Talloc_Append\<close> state what a client can rely on, \<open>Talloc_Reach\<close> that every
  memory a well-behaved client can reach satisfies the invariant, and \<open>Talloc_Fault\<close> has a
  memory of the invariant in which \<open>_talloc_free\<close> reads what it has freed.  Client destructors
  are covered where they accept, or refuse, without changing the memory.  \<open>Talloc_Pool\<close> is the
  interface for clients that build a structure with strings and free it as a whole: a
  locale, \<open>pool\<close>, interpreted on the allocator and used by \<open>Slowfs\<close>.  \<open>Talloc_Demo\<close> is
  the memory on which the theorems are evaluated.  \<open>Talloc_Types\<close> has the typed macros of
  \<open>lib/include/talloc/talloc.h\<close>, where a type is its name and its size, and what their check at
  run time means.

  \<^bold>\<open>The runner.\<close>  \<open>Capabilities\<close> has the probes and the table; the locale \<open>capability_source\<close> is
  what its client relies on, answers that last, and is interpreted on \<open>cap_available\<close>.  \<open>Test\<close>
  has the record of \<open>bin/test.h\<close> and the functions of \<open>bin/test.c\<close>; \<open>Test_Config\<close> describes the
  format of \<open>tests.conf\<close> and shows that the parser, which cuts up its buffer in place,
  refines it; \<open>Test_Props\<close> has the results on the parser, the decision to run and the
  printed time of a benchmark, in all cases.  \<open>Find_Tests\<close> is \<open>find_tests\<close> with its specification.  \<open>Run_Tests\<close>
  has the rest of \<open>run-tests.c\<close>; the system answers the loop of \<open>run_test\<close> from a list with one
  entry per round, and what the loop asks for (signals, waiting times) is recorded.
  \<open>Run_Output\<close> has the output buffer, the verdict and the waiting, \<open>Run_Props\<close> the results of
  tests and their sequence, the summary and the exit status, \<open>Child_Exec\<close> what the child
  process starts when the names it builds are looked up as POSIX says.  The property at the end of this
  theory composes the parser, the table and the runner: which tests a run skips.

  \<^bold>\<open>The slow file system.\<close>  \<open>Slowfs\<close> has the four file operations and mounting, on the memory
  of the allocator.  \<open>Schedule_Fault\<close> is its client \<open>tests/14-dma/05-schedule-during-fault.c\<close>, built
  on it: what is set up and taken down, and what decides the exit status.

  \<^bold>\<open>The core dump checker.\<close>  \<open>Parse_Core\<close> is \<open>parse-core.c\<close> on the bytes of the mapped file,
  with the zero bytes that fill its last page; a pointer is an offset, an access outside the
  mapping \<open>Bad_access\<close>.  The machine is the one the tests run on: most significant byte first,
  \<open>size_t\<close> of 64 bits; all sizes keep their width.  \<open>Core_Format\<close> is the specification of the note
  format and of the checks, \<open>Core_Notes\<close> shows that the loop refines it, when it ends and when
  it does not, \<open>Core_Elf\<close> and \<open>Core_Props\<close> do the same for the headers of both classes and for
  the program as a whole.

  \<^bold>\<open>Drivers for many contexts.\<close>  \<open>Sched_Multiple\<close> has \<open>sched_multiple.c\<close>, with what it reports for
  a data set, on contexts that execute the program it loads: \<open>Spu_Program\<close> has the instructions of
  that program and what it does with its messages, by which a context that the pattern never names
  does not stop; \<open>Dual_Ring\<close> has \<open>01-dual-ring.c\<close> with \<open>test/hw.h\<close> and \<open>test/timing.h\<close>, and shows that
  the contexts of a gang form one ring.  \<open>Benchmarks\<close> has the other benchmarks: the children of
  \<open>02-multiprocess.c\<close> are a step relation on a shared kernel, in which they never get in each
  other's way, and only a kernel without room for a context stops one of them.  \<open>Context_Tests\<close> has \<open>14-dma/pattern.c\<close>, \<open>15-class0/class0-apps.c\<close>,
  \<open>02-spu_create/05-files.c\<close> and \<open>16-debug/01-single-step.c\<close>.  The answers of the kernel are
  parameters.

  \<^bold>\<open>Not modelled.\<close>  The other programs under \<open>tests/\<close> make a few calls of the kernel each and
  compare the answers with constants; what they exercise, a kernel and a Cell processor, is
  not in the repository.  Code for the SPU is data, but for the program of
  \<open>sched_multiple.c\<close>.  The names of
  \<open>talloc.h\<close> that are deprecated are compiled out.  In the runner, allocation is taken to
  succeed (the allocator itself is verified for both cases), except where an
  output grows too large; \<open>perror\<close>, \<open>close\<close> and \<open>fflush\<close> have no effect; \<open>klogctl\<close> gives a size
  that is not an error; the file system does not change while it is searched; \<open>qsort\<close>,
  \<open>getopt_long\<close> and \<open>strftime\<close> do what they are documented to do.
\<close>

section \<open>The runner as a whole\<close>

lemma same_but_caps:
  "t\<lparr>caps_required := []\<rparr> = u\<lparr>caps_required := []\<rparr> \<Longrightarrow> disabled t = disabled u \<and> outcome t = outcome u"
  by (cases t; cases u) simp

text \<open>The requirements of the description and those the test carries are met together.\<close>

lemma met_all:
  "list_all2 (\<lambda>rc (s, i). cstr_at buf (cap rc) = Inr s \<and> invert rc = i) rcs cs \<Longrightarrow>
   (\<forall>rc\<in>set rcs. met av buf st rc) \<longleftrightarrow> (\<forall>(n, neg)\<in>set cs. \<exists>v. av st n = Inr (v, st) \<and> truth v \<noteq> neg)"
  by (induction rule: list_all2_induct) (auto simp: met_def)

text \<open>
  C40.  From the configuration file to the decision.  The names of the requirements lie in a local
  array of \<open>test_read_config\<close>, which has returned.  As long as they are still there when
  \<open>test_should_run\<close> reads them, as \<open>requirement_dangles\<close> shows they need not be, a run of a test skips it exactly when the
  lines of \<open>tests.conf\<close> that name it, read as the format says, disable it or require a
  capability whose answer, the one the table gives from then on, is not the required one;
  a skipped test has no child and does not count against the run.
\<close>

theorem configured_run:
  assumes run: "run_test junk files en e p t = Inr (rc, t', p', out, rq)"
    and kept: "\<And>u buf o1 rc. test_read_config files (stack e) t = Inr (u, buf, o1) \<Longrightarrow> rc \<in> set (caps_required u) \<Longrightarrow>
      cstr_at (stale e buf) (cap rc) = cstr_at buf (cap rc)"
    and new: "outcome t = TEST_NOTRUN" "caps_required t = []"
    and path: "split_path (path t) = Some (dir, fname)" "NULc \<notin> set fname" "NL \<notin> set fname"
    and conf_file: "files (dir @ ''/tests.conf'') = Some content"
    and frame: "length (stack e) = CONF_BUF" "NULc \<in> set (read_into (stack e) content)"
    and conf: "apply_words (conf_words (fname @ '':'') (conf_text (read_into (stack e) content))) (t, [], []) =
      Inr (t1, cs, out1)"
  shows "(outcome t' = TEST_SKIPPED \<longleftrightarrow>
      disabled t1 \<or> \<not> (\<forall>(n, neg)\<in>set cs. \<exists>v. cap_available (cap_table p') n = Inr (v, cap_table p') \<and> truth v \<noteq> neg)) \<and>
    (outcome t' = TEST_SKIPPED \<longrightarrow> rc = 0 \<and> rq = [])"
proof -
  obtain u buf o1 r c t2 o2 where
    u: "test_read_config files (stack e) t = Inr (u, buf, o1)" and
    s: "test_should_run cap_available (stale e buf) (cap_table p) u = Inr (r, c, t2, o2)" and
    c: "cap_table p' = c" and
    d: "if r = 0 then rc = 0 \<and> t' = t2 \<and> rq = [] else watched_ok (ticks e) rc (outcome t')"
    by (rule run_test_parts [OF run new(1)]) (rule that)
  obtain v b where v: "test_read_config files (stack e) t = Inr (v, b, out1)"
      "v\<lparr>caps_required := []\<rparr> = t1\<lparr>caps_required := []\<rparr>"
      "list_all2 (\<lambda>rc (s, i). cstr_at b (cap rc) = Inr s \<and> invert rc = i) (caps_required v) cs"
    using read_config_parses [where files = files and dir = dir, OF path(1) conf_file frame path(2,3) new(2)]
    unfolding conf sum.case prod.case by (elim exE conjE)
  have eq: "v = u" "b = buf" using u v(1) by simp_all
  have u1: "disabled u = disabled t1" using same_but_caps [OF v(2)] eq by simp
  have u2: "list_all2 (\<lambda>rc (s, i). cstr_at (stale e buf) (cap rc) = Inr s \<and> invert rc = i) (caps_required u) cs"
    using v(3) [unfolded eq] kept [OF u] by (auto simp: list_all2_conv_all_nth)
  note D = should_run_decides [OF s]
  have "(r = 0) = (disabled u \<or> \<not> (\<forall>rc\<in>set (caps_required u). met cap_available (stale e buf) c rc))"
    "r = 0 \<Longrightarrow> outcome t2 = TEST_SKIPPED"
    using D by (auto split: if_splits)
  moreover have "outcome t' = TEST_SKIPPED \<longleftrightarrow> r = 0"
    using d calculation(2) by (auto simp: watched_ok_def split: if_splits)
  ultimately show ?thesis using d u1 met_all [OF u2, of cap_available c] unfolding c by simp
qed

definition root_boot :: prog where
  "root_boot = \<lparr>cap_table = (desktop\<lparr>uid := 0\<rparr>, caps_table), log_buf = fresh_log\<rparr>"

theorem configured_run_witness:
  "\<exists>t' p' out. run_test (\<lambda>_. NULc) example_files True (calm []) root_boot example_test = Inr (0, t', p', out, []) \<and>
     outcome t' = TEST_SKIPPED \<and>
     \<not> (\<exists>v. cap_available (cap_table p') ''root'' = Inr (v, cap_table p') \<and> \<not> truth v)"
proof -
  obtain u buf rc where u: "test_read_config example_files (stack (calm [])) example_test = Inr (u, buf, [])"
      "caps_required u = [rc]" "cstr_at buf (cap rc) = Inr ''root''" "invert rc" "\<not> disabled u"
  proof -
    have "\<not> disabled example_test" by (simp add: example_test_def test_create_def)
    then show ?thesis
      using read_config_parses [where files = example_files and dir = "''tests/02-run''", OF example_setting] that
      unfolding example_parse by (auto simp: calm_def list_all2_Cons2 dest: same_but_caps)
  qed
  have "\<exists>c t2 o2. test_should_run cap_available (stale (calm []) buf) (cap_table root_boot) u = Inr (0, c, t2, o2) \<and>
      outcome t2 = TEST_SKIPPED"
    using u by (simp add: test_should_run_def calm_def root_boot_def cap_available_def caps_table_def entry_def
        u_cap_available_def cap_root_def desktop_def of_truth_def truth_def test_skip_def Let_def)
  then obtain t' p' out where run:
      "run_test (\<lambda>_. NULc) example_files True (calm []) root_boot example_test = Inr (0, t', p', out, [])"
      "outcome t' = TEST_SKIPPED"
    using run_test_decided [OF u(1)] by (auto simp: Let_def)
  have env: "outcome example_test = TEST_NOTRUN" "stack (calm []) = example_frame"
    "cstr_at (stale (calm []) buf) i = cstr_at buf i" for buf i
    by (simp_all add: example_test_def test_create_def calm_def)
  note R = configured_run [OF run(1) env(3,1) example_setting(7,1,5,6,2),
      unfolded env(2), OF example_setting(3,4) example_parse]
  have "\<not> disabled example_test" by (simp add: example_test_def test_create_def)
  then show ?thesis using R run by auto
qed

end
